(* ===== verification/Go_Base.thy ===== *)
theory Go_Base
  imports Main "HOL-Library.Word"
begin

text \<open>
  The prelude of the development: the types that stand for Go's machine integers, byte slices
  and strings, the parts of Go's standard library the program calls (\<open>encoding/binary\<close>,
  \<open>strings.Split\<close>, \<open>strings.TrimSpace\<close>, \<open>strconv.Atoi\<close>, \<open>strconv.Itoa\<close>, slice
  expressions), and the lemmas about them that every component shares.  A run-time panic of Go
  is the value \<open>None\<close> of an option or \<open>Panics\<close> of the type \<open>run\<close>.
\<close>

unbundle bit_operations_syntax

named_theorems go_simps \<open>one call of the Go standard library, unfolded\<close>

section \<open>Types\<close>

type_synonym byte = "8 word"
type_synonym u16 = "16 word"
type_synonym u32 = "32 word"
type_synonym u64 = "64 word"

text \<open>A call either returns normally or panics.\<close>

datatype 'a run = Returns 'a | Panics

section \<open>Strings and byte slices\<close>

text \<open>Go's conversions \<open>[]byte(s)\<close> and \<open>string(b)\<close>: a Go string is a sequence of bytes.\<close>

definition byte_of_char :: "char \<Rightarrow> byte" where
  "byte_of_char c = of_char c"

definition char_of_byte :: "byte \<Rightarrow> char" where
  "char_of_byte b = char_of (unat b)"

definition to_bytes :: "string \<Rightarrow> byte list" where
  "to_bytes s = map byte_of_char s"

definition to_string :: "byte list \<Rightarrow> string" where
  "to_string b = map char_of_byte b"

text \<open>A string literal that is not ASCII, by its UTF-8 bytes.\<close>

definition utf8_lit :: "nat list \<Rightarrow> string" where
  "utf8_lit ns = map char_of ns"

text \<open>The slice expression \<open>xs[lo:hi]\<close>; \<open>None\<close> is the panic ``slice bounds out of range''.\<close>

definition go_slice :: "nat \<Rightarrow> nat \<Rightarrow> 'a list \<Rightarrow> 'a list option" where
  "go_slice lo hi xs = (if lo \<le> hi \<and> hi \<le> length xs then Some (take (hi - lo) (drop lo xs)) else None)"

text \<open>The index expression \<open>xs[i]\<close>; \<open>None\<close> is the panic ``index out of range''.\<close>

definition go_index :: "'a list \<Rightarrow> nat \<Rightarrow> 'a option" where
  "go_index xs i = (if i < length xs then Some (xs ! i) else None)"

text \<open>\<open>strings.Split(s, sep)\<close> for a separator of one byte (the only ones the program uses).\<close>

fun strings_Split :: "string \<Rightarrow> char \<Rightarrow> string list" where
  "strings_Split [] sep = [[]]"
| "strings_Split (c # s) sep =
     (if c = sep then [] # strings_Split s sep
      else (case strings_Split s sep of [] \<Rightarrow> [[c]] | w # ws \<Rightarrow> (c # w) # ws))"

text \<open>\<open>strings.Join(ws, sep)\<close>, the reference the split is measured against.\<close>

fun strings_Join :: "string list \<Rightarrow> char \<Rightarrow> string" where
  "strings_Join [] sep = []"
| "strings_Join [w] sep = w"
| "strings_Join (w # v # ws) sep = w @ sep # strings_Join (v # ws) sep"

text \<open>\<open>url.QueryUnescape\<close>; \<open>None\<close> is an error.\<close>

fun hex_digit :: "char \<Rightarrow> nat option" where
  "hex_digit c =
     (let n = of_char c :: nat
      in if 48 \<le> n \<and> n \<le> 57 then Some (n - 48)
         else if 97 \<le> n \<and> n \<le> 102 then Some (n - 87)
         else if 65 \<le> n \<and> n \<le> 70 then Some (n - 55)
         else None)"

fun QueryUnescape :: "string \<Rightarrow> string option" where
  "QueryUnescape [] = Some []"
| "QueryUnescape (c # s) =
     (if c = CHR ''%'' then
        (case s of
           a # b # t \<Rightarrow>
             (case (hex_digit a, hex_digit b) of
                (Some x, Some y) \<Rightarrow> map_option (Cons (char_of (16 * x + y))) (QueryUnescape t)
              | _ \<Rightarrow> None)
         | _ \<Rightarrow> None)
      else map_option (Cons (if c = CHR ''+'' then CHR '' '' else c)) (QueryUnescape s))"

text \<open>
  \<open>strings.TrimSpace\<close> removes leading and trailing white space as \<open>unicode.IsSpace\<close> defines it:
  the UTF-8 encodings of the code points it accepts.
\<close>

definition space_runes :: "string list" where
  "space_runes =
     map utf8_lit
      ([[9], [10], [11], [12], [13], [32], [0xC2, 0x85], [0xC2, 0xA0], [0xE1, 0x9A, 0x80]]
       @ map (\<lambda>n. [0xE2, 0x80, n]) [0x80..<0x8B]
       @ [[0xE2, 0x80, 0xA8], [0xE2, 0x80, 0xA9], [0xE2, 0x80, 0xAF], [0xE2, 0x81, 0x9F],
          [0xE3, 0x80, 0x80]])"

fun strip_prefix :: "'a list \<Rightarrow> 'a list \<Rightarrow> 'a list option" where
  "strip_prefix [] ys = Some ys"
| "strip_prefix (x # xs) [] = None"
| "strip_prefix (x # xs) (y # ys) = (if x = y then strip_prefix xs ys else None)"

fun first_some :: "('a \<Rightarrow> 'b option) \<Rightarrow> 'a list \<Rightarrow> 'b option" where
  "first_some f [] = None"
| "first_some f (x # xs) = (case f x of None \<Rightarrow> first_some f xs | Some y \<Rightarrow> Some y)"

fun trim_front :: "nat \<Rightarrow> string list \<Rightarrow> string \<Rightarrow> string" where
  "trim_front 0 runes s = s"
| "trim_front (Suc n) runes s =
     (case first_some (\<lambda>r. strip_prefix r s) runes of None \<Rightarrow> s | Some s' \<Rightarrow> trim_front n runes s')"

definition strings_TrimSpace :: "string \<Rightarrow> string" where
  "strings_TrimSpace s =
     (let s1 = trim_front (length s) space_runes s
      in rev (trim_front (length s1) (map rev space_runes) (rev s1)))"

section \<open>Numbers as text\<close>

definition digit_val :: "char \<Rightarrow> int option" where
  "digit_val c = (let n = of_char c :: nat in if 48 \<le> n \<and> n \<le> 57 then Some (int n - 48) else None)"

datatype num_error = ErrSyntax | ErrRange

text \<open>The digit loop of \<open>strconv.ParseUint(s, 10, 64)\<close>: the first offending character decides.\<close>

fun parse_digits :: "int \<Rightarrow> string \<Rightarrow> num_error + int" where
  "parse_digits n [] = Inr n"
| "parse_digits n (c # s) =
     (case digit_val c of
        None \<Rightarrow> Inl ErrSyntax
      | Some d \<Rightarrow> if n * 10 + d > 2 ^ 64 - 1 then Inl ErrRange else parse_digits (n * 10 + d) s)"

definition ParseUint :: "string \<Rightarrow> num_error + int" where
  "ParseUint s = (if s = [] then Inl ErrSyntax else parse_digits 0 s)"

text \<open>
  \<open>strconv.Atoi\<close> on a platform with 64-bit \<open>int\<close>: the value it returns together with its error.
  On a range error the value is the nearest representable one, on a syntax error it is 0.
\<close>

definition Atoi :: "string \<Rightarrow> int \<times> num_error option" where
  "Atoi s =
     (let neg = (s \<noteq> [] \<and> hd s = CHR ''-'');
          s' = (if s \<noteq> [] \<and> (hd s = CHR ''-'' \<or> hd s = CHR ''+'') then tl s else s)
      in case ParseUint s' of
           Inl ErrSyntax \<Rightarrow> (0, Some ErrSyntax)
         | Inl ErrRange \<Rightarrow> (if neg then - (2 ^ 63) else 2 ^ 63 - 1, Some ErrRange)
         | Inr un \<Rightarrow>
             if \<not> neg \<and> un \<ge> 2 ^ 63 then (2 ^ 63 - 1, Some ErrRange)
             else if neg \<and> un > 2 ^ 63 then (- (2 ^ 63), Some ErrRange)
             else (if neg then - un else un, None))"

definition digit_char :: "nat \<Rightarrow> char" where
  "digit_char d = char_of (48 + d)"

fun nat_text :: "nat \<Rightarrow> string" where
  "nat_text n = (if n < 10 then [digit_char n] else nat_text (n div 10) @ [digit_char (n mod 10)])"

declare nat_text.simps [simp del]

definition Itoa :: "int \<Rightarrow> string" where
  "Itoa i = (if i < 0 then CHR ''-'' # nat_text (nat (- i)) else nat_text (nat i))"

section \<open>encoding/binary\<close>

text \<open>
  \<open>binary.BigEndian.Uint32(b)\<close> indexes \<open>b[3]\<close> first, so fewer than four bytes panic.
\<close>

definition BigEndian_Uint32 :: "byte list \<Rightarrow> u32 option" where
  "BigEndian_Uint32 b =
     (case b of
        b0 # b1 # b2 # b3 # _ \<Rightarrow>
          Some (ucast b3 OR push_bit 8 (ucast b2) OR push_bit 16 (ucast b1) OR push_bit 24 (ucast b0))
      | _ \<Rightarrow> None)"

text \<open>The four bytes \<open>binary.BigEndian.PutUint32\<close> and \<open>binary.LittleEndian.PutUint32\<close> store.\<close>

definition BigEndian_PutUint32 :: "u32 \<Rightarrow> byte list" where
  "BigEndian_PutUint32 v =
     [ucast (drop_bit 24 v), ucast (drop_bit 16 v), ucast (drop_bit 8 v), ucast v]"

definition LittleEndian_PutUint32 :: "u32 \<Rightarrow> byte list" where
  "LittleEndian_PutUint32 v =
     [ucast v, ucast (drop_bit 8 v), ucast (drop_bit 16 v), ucast (drop_bit 24 v)]"

section \<open>Lemmas\<close>

subsection \<open>Bytes, strings, slices\<close>

lemma unat_byte_of_char [simp]: "unat (byte_of_char c) = of_char c"
proof -
  have "(of_char c :: nat) < 2 ^ 8" by simp
  then have "unat (of_nat (of_char c) :: byte) = of_char c"
    by (simp add: unat_of_nat take_bit_nat_eq_self)
  moreover have "(of_nat (of_char c) :: byte) = of_char c"
    by (cases c) (simp add: of_char_def)
  ultimately show ?thesis by (simp add: byte_of_char_def)
qed

lemma char_of_byte_of_char [simp]: "char_of_byte (byte_of_char c) = c"
  by (simp add: char_of_byte_def)

lemma byte_of_char_of_byte [simp]: "byte_of_char (char_of_byte b) = b"
proof -
  have "unat b < 256" using unsigned_less [of b, where ?'a = nat] by simp
  then show ?thesis
    by (metis char_of_byte_def unat_byte_of_char of_char_of mod_less word_unat_eq_iff)
qed

lemma to_string_to_bytes [simp]: "to_string (to_bytes s) = s"
  by (simp add: to_string_def to_bytes_def comp_def)

lemma to_bytes_to_string [simp]: "to_bytes (to_string b) = b"
  by (simp add: to_string_def to_bytes_def comp_def)

lemma length_to_bytes [simp]: "length (to_bytes s) = length s"
  by (simp add: to_bytes_def)

lemma length_to_string [simp]: "length (to_string b) = length b"
  by (simp add: to_string_def)

lemma to_bytes_Nil_iff [simp]: "to_bytes s = [] \<longleftrightarrow> s = []"
  by (simp add: to_bytes_def)

lemma unat_byte_less: "unat (c :: byte) < 256"
  using unsigned_less [of c, where ?'a = nat] by simp

lemma go_slice_Some [go_simps]:
  "lo \<le> hi \<Longrightarrow> hi \<le> length xs \<Longrightarrow> go_slice lo hi xs = Some (take (hi - lo) (drop lo xs))"
  by (simp add: go_slice_def)

lemma go_slice_None_iff [go_simps]: "go_slice lo hi xs = None \<longleftrightarrow> hi < lo \<or> length xs < hi"
  by (auto simp: go_slice_def)

subsection \<open>Big-endian words\<close>

lemma BigEndian_roundtrip [simp]: "BigEndian_Uint32 (BigEndian_PutUint32 v @ rest) = Some v"
proof -
  have "bit (ucast (ucast v :: byte) OR push_bit 8 (ucast (ucast (drop_bit 8 v) :: byte))
      OR push_bit 16 (ucast (ucast (drop_bit 16 v) :: byte))
      OR push_bit 24 (ucast (ucast (drop_bit 24 v) :: byte)) :: u32) n \<longleftrightarrow> bit v n" if "n < 32" for n
  proof -
    consider "n < 8" | "8 \<le> n" "n < 16" | "16 \<le> n" "n < 24" | "24 \<le> n" by linarith
    then show ?thesis using that by cases (auto simp: bit_simps)
  qed
  then show ?thesis
    by (simp add: BigEndian_Uint32_def BigEndian_PutUint32_def bit_eq_iff)
qed

lemma BigEndian_roundtrip_nil [simp]: "BigEndian_Uint32 (BigEndian_PutUint32 v) = Some v"
  using BigEndian_roundtrip [of v "[]"] by simp

lemma length_BigEndian_PutUint32 [simp]: "length (BigEndian_PutUint32 v) = 4"
  by (simp add: BigEndian_PutUint32_def)

lemma BigEndian_Uint32_Some: "4 \<le> length b \<Longrightarrow> \<exists>v. BigEndian_Uint32 b = Some v"
  by (auto simp: BigEndian_Uint32_def numeral_eq_Suc Suc_le_length_iff split: list.splits)

lemma BigEndian_Uint32_take [simp]: "BigEndian_Uint32 (take 4 b) = BigEndian_Uint32 b"
  by (auto simp: BigEndian_Uint32_def numeral_eq_Suc split: list.splits)

lemma BigEndian_Uint32_append: "4 \<le> length b \<Longrightarrow> BigEndian_Uint32 (b @ b') = BigEndian_Uint32 b"
  by (metis BigEndian_Uint32_take take_append diff_is_0_eq take_eq_Nil append_Nil2)

lemma bit_byte_high: "8 \<le> n \<Longrightarrow> bit (b :: byte) n = False"
  using bit_imp_le_length [of b n] by auto

lemma BigEndian_PutUint32_of:
  assumes "BigEndian_Uint32 b = Some v" and "length b = 4"
  shows "BigEndian_PutUint32 v = b"
proof -
  from assms obtain b0 b1 b2 b3 where b: "b = [b0, b1, b2, b3]"
    by (auto simp: BigEndian_Uint32_def numeral_eq_Suc length_Suc_conv split: list.splits)
  with assms(1) have v: "v = ucast b3 OR push_bit 8 (ucast b2) OR push_bit 16 (ucast b1)
      OR push_bit 24 (ucast b0)"
    by (simp add: BigEndian_Uint32_def)
  show ?thesis unfolding b v BigEndian_PutUint32_def
    by (auto intro!: bit_word_eqI simp: bit_simps bit_byte_high)
qed

subsection \<open>Splitting and joining\<close>

lemma strings_Split_not_Nil [simp]: "strings_Split s sep \<noteq> []"
  by (induction s) (auto split: list.splits)

lemma strings_Join_Split [simp]: "strings_Join (strings_Split s sep) sep = s"
proof (induction s)
  case (Cons c s)
  then show ?case
    by (cases "strings_Split s sep"; cases "tl (strings_Split s sep)")
      (auto simp: neq_Nil_conv)
qed simp

lemma length_strings_Split: "length (strings_Split s sep) = Suc (count_list s sep)"
  by (induction s) (auto split: list.splits)

lemma strings_Split_no_sep: "w \<in> set (strings_Split s sep) \<Longrightarrow> sep \<notin> set w"
  by (induction s arbitrary: w) (auto split: list.splits if_splits)

lemma strings_Split_single: "sep \<notin> set s \<Longrightarrow> strings_Split s sep = [s]"
  by (induction s) auto

lemma strings_Split_append:
  "sep \<notin> set w \<Longrightarrow> strings_Split (w @ sep # s) sep = w # strings_Split s sep"
  by (induction w) auto

lemma strings_Split_Join:
  "ws \<noteq> [] \<Longrightarrow> (\<And>w. w \<in> set ws \<Longrightarrow> sep \<notin> set w) \<Longrightarrow> strings_Split (strings_Join ws sep) sep = ws"
  by (induction ws sep rule: strings_Join.induct)
    (auto simp: strings_Split_single strings_Split_append)

subsection \<open>Decimal text\<close>

text \<open>\<open>TrimSpace\<close> leaves a text alone that begins and ends with a printable ASCII character.\<close>

definition plain_char :: "char \<Rightarrow> bool" where
  "plain_char c \<longleftrightarrow> 32 < (of_char c :: nat) \<and> (of_char c :: nat) < 128"

lemma trim_front_id:
  "list_all (\<lambda>r. r \<noteq> [] \<and> hd r \<noteq> c) runes \<Longrightarrow> trim_front n runes (c # s) = c # s"
proof -
  assume "list_all (\<lambda>r. r \<noteq> [] \<and> hd r \<noteq> c) runes"
  then have "first_some (\<lambda>r. strip_prefix r (c # s)) runes = None"
    by (induction runes) (auto simp: neq_Nil_conv)
  then show ?thesis by (cases n) simp_all
qed

lemma space_runes_edges:
  "list_all (\<lambda>r. r \<noteq> [] \<and> \<not> plain_char (hd r)) space_runes"
  "list_all (\<lambda>r. r \<noteq> [] \<and> \<not> plain_char (hd r)) (map rev space_runes)"
  by (simp_all add: space_runes_def utf8_lit_def plain_char_def upt_rec_numeral)

lemma trim_front_plain:
  assumes "list_all (\<lambda>r. r \<noteq> [] \<and> \<not> plain_char (hd r)) runes" and "s \<noteq> [] \<longrightarrow> plain_char (hd s)"
  shows "trim_front n runes s = s"
proof (cases s)
  case Nil
  have "first_some (\<lambda>r. strip_prefix r []) runes = None"
    using assms(1) by (induction runes) (auto simp: neq_Nil_conv)
  then show ?thesis using Nil by (cases n) simp_all
next
  case (Cons c t)
  have "list_all (\<lambda>r. r \<noteq> [] \<and> hd r \<noteq> c) runes"
    using assms Cons by (auto simp: list_all_iff)
  from trim_front_id [OF this] Cons show ?thesis by simp
qed

lemma strings_TrimSpace_plain:
  assumes "s \<noteq> [] \<longrightarrow> plain_char (hd s) \<and> plain_char (last s)"
  shows "strings_TrimSpace s = s"
  using assms trim_front_plain [OF space_runes_edges(1), of s] trim_front_plain [OF space_runes_edges(2), of "rev s"]
  by (simp add: strings_TrimSpace_def hd_rev)

lemma digit_val_digit_char [simp]: "d < 10 \<Longrightarrow> digit_val (digit_char d) = Some (int d)"
  by (simp add: digit_val_def digit_char_def)

lemma parse_digits_append:
  "parse_digits n s = Inr m \<Longrightarrow> parse_digits n (s @ s') = parse_digits m s'"
  by (induction n s rule: parse_digits.induct) (auto split: option.splits if_splits)

lemma parse_digits_nat_text:
  "n < 2 ^ 64 \<Longrightarrow> parse_digits 0 (nat_text n) = Inr (int n)"
proof (induction n rule: nat_text.induct)
  case (1 n)
  show ?case
  proof (cases "n < 10")
    case True
    then show ?thesis by (simp add: nat_text.simps [of n])
  next
    case False
    with 1 have "parse_digits 0 (nat_text (n div 10)) = Inr (int (n div 10))" by simp
    then have "parse_digits 0 (nat_text n) = parse_digits (int (n div 10)) [digit_char (n mod 10)]"
      using False by (simp add: nat_text.simps [of n] parse_digits_append)
    moreover have "int (n div 10) * 10 + int (n mod 10) = int n" by presburger
    ultimately show ?thesis using "1.prems" by (simp flip: of_nat_div of_nat_mod)
  qed
qed

lemma nat_text_not_Nil [simp]: "nat_text n \<noteq> []"
  by (subst nat_text.simps) simp

lemma hd_nat_text: "\<exists>d < 10. hd (nat_text n) = digit_char d"
proof (induction n rule: nat_text.induct)
  case (1 n)
  then show ?case by (cases "n < 10") (auto simp: nat_text.simps [of n])
qed

lemma digit_val_minus: "digit_val (CHR ''-'') = None"
  by (simp add: digit_val_def)

lemma digit_val_plus: "digit_val (CHR ''+'') = None"
  by (simp add: digit_val_def)

lemma digit_char_no_sign: "d < 10 \<Longrightarrow> digit_char d \<noteq> CHR ''-'' \<and> digit_char d \<noteq> CHR ''+''"
  by (metis digit_val_digit_char digit_val_minus digit_val_plus option.distinct(1))

lemma Atoi_Itoa:
  assumes "- (2 ^ 63) \<le> i" and "i < 2 ^ 63"
  shows "Atoi (Itoa i) = (i, None)"
proof -
  have *: "ParseUint (nat_text n) = Inr (int n)" if "n \<le> 2 ^ 63" for n
    using that parse_digits_nat_text [of n] by (simp add: ParseUint_def)
  have hd: "hd (nat_text n) \<noteq> CHR ''-''" "hd (nat_text n) \<noteq> CHR ''+''" for n
    using hd_nat_text [of n] digit_char_no_sign by metis+
  show ?thesis
  proof (cases "i < 0")
    case True
    with assms * [of "nat (- i)"] show ?thesis by (simp add: Atoi_def Itoa_def Let_def)
  next
    case False
    with assms * [of "nat i"] hd show ?thesis by (simp add: Atoi_def Itoa_def Let_def)
  qed
qed

end
