(* ===== verification/Proto_Wire.thy ===== *)
theory Proto_Wire
  imports Go_Base
begin

text \<open>
  The protobuf wire format as the program's copy of \<open>github.com/golang/protobuf\<close> implements it
  (\<open>src/vender/src/github.com/golang/protobuf/proto\<close>): varints, the field encoders and decoders
  of the three field types the program's messages have (\<open>string\<close>, \<open>repeated string\<close>, \<open>bytes\<close>),
  the loops \<open>marshal\<close> and \<open>unmarshal\<close>, and the skipping of unknown fields.  The reflective
  tables \<open>marshalInfo\<close> and \<open>unmarshalInfo\<close> are lists of field descriptions; a pointer to a
  field of a message is a pair of a getter and a setter.
\<close>

section \<open>Varints\<close>

text \<open>\<open>encodeVarint\<close>: the loop, low seven bits first.\<close>

function encodeVarint :: "byte list \<Rightarrow> u64 \<Rightarrow> byte list" where
  "encodeVarint b x =
     (if x \<ge> 0x80 then encodeVarint (b @ [ucast ((x AND 0x7F) OR 0x80)]) (drop_bit 7 x)
      else b @ [ucast x])"
  by pat_completeness auto
termination
proof (relation "measure (\<lambda>(b, x). unat x)", goal_cases)
  case (2 b x)
  have "unat (drop_bit 7 x) = unat x div 128" by (subst unat_drop_bit_eq) (simp add: drop_bit_eq_div)
  moreover have "unat x \<ge> 128" using 2 by (simp add: word_le_nat_alt)
  ultimately show ?case by simp
qed simp

declare encodeVarint.simps [simp del]

text \<open>\<open>appendVarint\<close>: the same encoding with the loop unrolled into one switch.\<close>

definition vbyte :: "u64 \<Rightarrow> nat \<Rightarrow> byte" where
  "vbyte v k = ucast ((drop_bit k v AND 0x7F) OR 0x80)"

definition appendVarint :: "byte list \<Rightarrow> u64 \<Rightarrow> byte list" where
  "appendVarint b v =
     (if v < 2 ^ 7 then b @ [ucast v]
      else if v < 2 ^ 14 then b @ [vbyte v 0, ucast (drop_bit 7 v)]
      else if v < 2 ^ 21 then b @ [vbyte v 0, vbyte v 7, ucast (drop_bit 14 v)]
      else if v < 2 ^ 28 then b @ [vbyte v 0, vbyte v 7, vbyte v 14, ucast (drop_bit 21 v)]
      else if v < 2 ^ 35 then
        b @ [vbyte v 0, vbyte v 7, vbyte v 14, vbyte v 21, ucast (drop_bit 28 v)]
      else if v < 2 ^ 42 then
        b @ [vbyte v 0, vbyte v 7, vbyte v 14, vbyte v 21, vbyte v 28, ucast (drop_bit 35 v)]
      else if v < 2 ^ 49 then
        b @ [vbyte v 0, vbyte v 7, vbyte v 14, vbyte v 21, vbyte v 28, vbyte v 35,
             ucast (drop_bit 42 v)]
      else if v < 2 ^ 56 then
        b @ [vbyte v 0, vbyte v 7, vbyte v 14, vbyte v 21, vbyte v 28, vbyte v 35, vbyte v 42,
             ucast (drop_bit 49 v)]
      else if v < 2 ^ 63 then
        b @ [vbyte v 0, vbyte v 7, vbyte v 14, vbyte v 21, vbyte v 28, vbyte v 35, vbyte v 42,
             vbyte v 49, ucast (drop_bit 56 v)]
      else
        b @ [vbyte v 0, vbyte v 7, vbyte v 14, vbyte v 21, vbyte v 28, vbyte v 35, vbyte v 42,
             vbyte v 49, vbyte v 56, 1])"

definition SizeVarint :: "u64 \<Rightarrow> nat" where
  "SizeVarint x =
     (if x < 2 ^ 7 then 1 else if x < 2 ^ 14 then 2 else if x < 2 ^ 21 then 3
      else if x < 2 ^ 28 then 4 else if x < 2 ^ 35 then 5 else if x < 2 ^ 42 then 6
      else if x < 2 ^ 49 then 7 else if x < 2 ^ 56 then 8 else if x < 2 ^ 63 then 9 else 10)"

text \<open>
  \<open>decodeVarint\<close>: the value and the number of bytes read, \<open>(0, 0)\<close> on an error.  The source
  writes the ten rounds out; round \<open>i\<close> reads byte \<open>b[i]\<close>.
\<close>

fun decodeVarint_round :: "nat \<Rightarrow> u64 \<Rightarrow> byte list \<Rightarrow> u64 \<times> nat" where
  "decodeVarint_round i x [] = (0, 0)"
| "decodeVarint_round i x (c # b) =
     (let y = ucast c; x' = x + push_bit (7 * i) y
      in if i \<ge> 9 then (if y < 2 then (x', 10) else (0, 0))
         else if y < 0x80 then (x', Suc i)
         else decodeVarint_round (Suc i) (x' - push_bit (7 * i) 0x80) b)"

definition decodeVarint :: "byte list \<Rightarrow> u64 \<times> nat" where
  "decodeVarint b = decodeVarint_round 0 0 b"

section \<open>UTF-8\<close>

definition in_range :: "byte \<Rightarrow> byte \<Rightarrow> byte \<Rightarrow> bool" where
  "in_range lo hi b \<longleftrightarrow> lo \<le> b \<and> b \<le> hi"

text \<open>\<open>utf8.ValidString\<close>: no overlong forms, no surrogates, nothing above U+10FFFF.\<close>

fun utf8_Valid :: "byte list \<Rightarrow> bool" where
  "utf8_Valid [] = True"
| "utf8_Valid (a # s) =
     (if a < 0x80 then utf8_Valid s
      else if in_range 0xC2 0xDF a then
        (case s of b # s' \<Rightarrow> in_range 0x80 0xBF b \<and> utf8_Valid s' | [] \<Rightarrow> False)
      else if in_range 0xE0 0xEF a then
        (case s of
           b # c # s' \<Rightarrow>
             in_range (if a = 0xE0 then 0xA0 else 0x80) (if a = 0xED then 0x9F else 0xBF) b
             \<and> in_range 0x80 0xBF c \<and> utf8_Valid s'
         | _ \<Rightarrow> False)
      else if in_range 0xF0 0xF4 a then
        (case s of
           b # c # d # s' \<Rightarrow>
             in_range (if a = 0xF0 then 0x90 else 0x80) (if a = 0xF4 then 0x8F else 0xBF) b
             \<and> in_range 0x80 0xBF c \<and> in_range 0x80 0xBF d \<and> utf8_Valid s'
         | _ \<Rightarrow> False)
      else False)"

definition utf8_ValidString :: "string \<Rightarrow> bool" where
  "utf8_ValidString s = utf8_Valid (to_bytes s)"

section \<open>Errors and field descriptions\<close>

datatype proto_error =
    ErrUnexpectedEOF
  | ErrInternalBadWireType
  | ErrInvalidUTF8
  | InvalidUTF8Error string
  | ErrUnknownWireType nat

text \<open>A field of a message struct: how to read it and how to store into it.\<close>

datatype 'm pfield =
    StringField "'m \<Rightarrow> string" "string \<Rightarrow> 'm \<Rightarrow> 'm"
  | StringsField "'m \<Rightarrow> string list" "string list \<Rightarrow> 'm \<Rightarrow> 'm"
  | BytesField "'m \<Rightarrow> byte list" "byte list \<Rightarrow> 'm \<Rightarrow> 'm"

record 'm pinfo =
  pf_name :: string
  pf_tag :: nat
  pf_field :: "'m pfield"

text \<open>The description of a message type: its full name, its fields in tag order, and its
  \<open>XXX_unrecognized\<close> bytes.\<close>

record 'm minfo =
  mi_name :: string
  mi_fields :: "'m pinfo list"
  mi_unrec :: "'m \<Rightarrow> byte list"
  mi_set_unrec :: "byte list \<Rightarrow> 'm \<Rightarrow> 'm"

definition WireVarint :: nat where "WireVarint = 0"
definition WireFixed64 :: nat where "WireFixed64 = 1"
definition WireBytes :: nat where "WireBytes = 2"
definition WireStartGroup :: nat where "WireStartGroup = 3"
definition WireEndGroup :: nat where "WireEndGroup = 4"
definition WireFixed32 :: nat where "WireFixed32 = 5"

lemmas wire_defs = WireVarint_def WireFixed64_def WireBytes_def WireStartGroup_def
  WireEndGroup_def WireFixed32_def

section \<open>Marshalling\<close>

definition wiretag :: "nat \<Rightarrow> u64" where
  "wiretag tag = push_bit 3 (of_nat tag) OR of_nat WireBytes"

definition append_delimited :: "byte list \<Rightarrow> u64 \<Rightarrow> byte list \<Rightarrow> byte list" where
  "append_delimited b wt v = appendVarint (appendVarint b wt) (of_nat (length v)) @ v"

definition appendUTF8StringValueNoZero ::
    "byte list \<Rightarrow> string \<Rightarrow> u64 \<Rightarrow> byte list \<times> proto_error option" where
  "appendUTF8StringValueNoZero b v wt =
     (if v = [] then (b, None)
      else (append_delimited b wt (to_bytes v),
            if utf8_ValidString v then None else Some ErrInvalidUTF8))"

fun append_all :: "byte list \<Rightarrow> string list \<Rightarrow> u64 \<Rightarrow> byte list" where
  "append_all b [] wt = b"
| "append_all b (v # vs) wt = append_all (append_delimited b wt (to_bytes v)) vs wt"

definition appendUTF8StringSlice ::
    "byte list \<Rightarrow> string list \<Rightarrow> u64 \<Rightarrow> byte list \<times> proto_error option" where
  "appendUTF8StringSlice b s wt =
     (append_all b s wt, if list_all utf8_ValidString s then None else Some ErrInvalidUTF8)"

definition appendBytes3 ::
    "byte list \<Rightarrow> byte list \<Rightarrow> u64 \<Rightarrow> byte list \<times> proto_error option" where
  "appendBytes3 b v wt = (if v = [] then (b, None) else (append_delimited b wt v, None))"

text \<open>The call \<open>f.marshaler(b, ptr.offset(f.field), f.wiretag, deterministic)\<close>.\<close>

definition field_marshaler :: "'m pinfo \<Rightarrow> byte list \<Rightarrow> 'm \<Rightarrow> byte list \<times> proto_error option" where
  "field_marshaler f b m =
     (case pf_field f of
        StringField get put \<Rightarrow> appendUTF8StringValueNoZero b (get m) (wiretag (pf_tag f))
      | StringsField get put \<Rightarrow> appendUTF8StringSlice b (get m) (wiretag (pf_tag f))
      | BytesField get put \<Rightarrow> appendBytes3 b (get m) (wiretag (pf_tag f)))"

text \<open>
  The loop over \<open>u.fields\<close> in \<open>marshal\<close>: an invalid UTF-8 string is recorded as the error to
  return later and the loop goes on.
\<close>

fun marshal_fields ::
    "string \<Rightarrow> 'm pinfo list \<Rightarrow> byte list \<Rightarrow> proto_error option \<Rightarrow> 'm \<Rightarrow> byte list \<times> proto_error option"
where
  "marshal_fields nm [] b errLater m = (b, errLater)"
| "marshal_fields nm (f # fs) b errLater m =
     (case field_marshaler f b m of
        (b', None) \<Rightarrow> marshal_fields nm fs b' errLater m
      | (b', Some e) \<Rightarrow>
          if e = ErrInvalidUTF8 then
            marshal_fields nm fs b'
              (if errLater = None then Some (InvalidUTF8Error (nm @ ''.'' @ pf_name f)) else errLater) m
          else (b', Some e))"

definition is_later_error :: "proto_error option \<Rightarrow> bool" where
  "is_later_error e = (case e of None \<Rightarrow> True | Some (InvalidUTF8Error _) \<Rightarrow> True | _ \<Rightarrow> False)"

definition marshal :: "'m minfo \<Rightarrow> byte list \<Rightarrow> 'm \<Rightarrow> byte list \<times> proto_error option" where
  "marshal u b m =
     (case marshal_fields (mi_name u) (mi_fields u) b None m of
        (b', e) \<Rightarrow> if is_later_error e then (b' @ mi_unrec u m, e) else (b', e))"

definition Marshal :: "'m minfo \<Rightarrow> 'm \<Rightarrow> byte list \<times> proto_error option" where
  "Marshal u m = marshal u [] m"

text \<open>\<open>size\<close>: the sizers of the three field types and the loop over the fields.\<close>

definition sizeStringValueNoZero :: "string \<Rightarrow> nat \<Rightarrow> nat" where
  "sizeStringValueNoZero v tagsize =
     (if v = [] then 0 else length v + SizeVarint (of_nat (length v)) + tagsize)"

definition sizeStringSlice :: "string list \<Rightarrow> nat \<Rightarrow> nat" where
  "sizeStringSlice s tagsize =
     sum_list (map (\<lambda>v. length v + SizeVarint (of_nat (length v)) + tagsize) s)"

definition sizeBytes3 :: "byte list \<Rightarrow> nat \<Rightarrow> nat" where
  "sizeBytes3 v tagsize =
     (if v = [] then 0 else length v + SizeVarint (of_nat (length v)) + tagsize)"

definition field_sizer :: "'m pinfo \<Rightarrow> 'm \<Rightarrow> nat" where
  "field_sizer f m =
     (let tagsize = SizeVarint (push_bit 3 (of_nat (pf_tag f)))
      in case pf_field f of
           StringField get put \<Rightarrow> sizeStringValueNoZero (get m) tagsize
         | StringsField get put \<Rightarrow> sizeStringSlice (get m) tagsize
         | BytesField get put \<Rightarrow> sizeBytes3 (get m) tagsize)"

definition msg_size :: "'m minfo \<Rightarrow> 'm \<Rightarrow> nat" where
  "msg_size u m = sum_list (map (\<lambda>f. field_sizer f m) (mi_fields u)) + length (mi_unrec u m)"

section \<open>Unmarshalling\<close>

definition take_delimited :: "byte list \<Rightarrow> (byte list \<times> byte list) option" where
  "take_delimited b =
     (case decodeVarint b of
        (x, n) \<Rightarrow>
          if n = 0 then None
          else let b' = drop n b
               in if x > of_nat (length b') then None
                  else Some (take (unat x) b', drop (unat x) b'))"

definition unmarshalUTF8StringValue ::
    "(string \<Rightarrow> 'm \<Rightarrow> 'm) \<Rightarrow> byte list \<Rightarrow> 'm \<Rightarrow> nat \<Rightarrow> 'm \<times> byte list \<times> proto_error option" where
  "unmarshalUTF8StringValue put b m w =
     (if w \<noteq> WireBytes then (m, b, Some ErrInternalBadWireType)
      else case take_delimited b of
        None \<Rightarrow> (m, [], Some ErrUnexpectedEOF)
      | Some (v, rest) \<Rightarrow>
          (put (to_string v) m, rest,
           if utf8_ValidString (to_string v) then None else Some ErrInvalidUTF8))"

definition unmarshalUTF8StringSlice ::
    "('m \<Rightarrow> string list) \<Rightarrow> (string list \<Rightarrow> 'm \<Rightarrow> 'm) \<Rightarrow> byte list \<Rightarrow> 'm \<Rightarrow> nat
      \<Rightarrow> 'm \<times> byte list \<times> proto_error option" where
  "unmarshalUTF8StringSlice get put b m w =
     (if w \<noteq> WireBytes then (m, b, Some ErrInternalBadWireType)
      else case take_delimited b of
        None \<Rightarrow> (m, [], Some ErrUnexpectedEOF)
      | Some (v, rest) \<Rightarrow>
          (put (get m @ [to_string v]) m, rest,
           if utf8_ValidString (to_string v) then None else Some ErrInvalidUTF8))"

definition unmarshalBytesValue ::
    "(byte list \<Rightarrow> 'm \<Rightarrow> 'm) \<Rightarrow> byte list \<Rightarrow> 'm \<Rightarrow> nat \<Rightarrow> 'm \<times> byte list \<times> proto_error option" where
  "unmarshalBytesValue put b m w =
     (if w \<noteq> WireBytes then (m, b, Some ErrInternalBadWireType)
      else case take_delimited b of
        None \<Rightarrow> (m, [], Some ErrUnexpectedEOF)
      | Some (v, rest) \<Rightarrow> (put v m, rest, None))"

definition field_unmarshaler ::
    "'m pinfo \<Rightarrow> byte list \<Rightarrow> 'm \<Rightarrow> nat \<Rightarrow> 'm \<times> byte list \<times> proto_error option" where
  "field_unmarshaler f b m w =
     (case pf_field f of
        StringField get put \<Rightarrow> unmarshalUTF8StringValue put b m w
      | StringsField get put \<Rightarrow> unmarshalUTF8StringSlice get put b m w
      | BytesField get put \<Rightarrow> unmarshalBytesValue put b m w)"

text \<open>The tag and wire type at the head of a field, with the fast paths for short varints.\<close>

definition read_tag :: "byte list \<Rightarrow> (u64 \<times> byte list) option" where
  "read_tag b =
     (case b of
        [] \<Rightarrow> None
      | b0 # r \<Rightarrow>
          if b0 < 128 then Some (ucast b0, r)
          else if r \<noteq> [] \<and> hd r < 128 then
            Some (ucast (b0 AND 0x7F) + push_bit 7 (ucast (hd r)), tl r)
          else case decodeVarint b of (x, n) \<Rightarrow> if n = 0 then None else Some (x, drop n b))"

text \<open>
  \<open>findEndGroup\<close>: the loop over the tags inside a group; \<open>i\<close> is the index into \<open>b\<close>.  The
  result is the pair of the start and the end of the matching end tag, \<open>None\<close> for \<open>(-1, -1)\<close>.
\<close>

lemma decodeVarint_round_bounds:
  "snd (decodeVarint_round i x b) \<le> i + length b \<and> (i \<le> 9 \<longrightarrow> snd (decodeVarint_round i x b) \<le> 10)"
proof (induction i x b rule: decodeVarint_round.induct)
  case (2 i x c b)
  then show ?case by (auto simp: Let_def not_le split: if_splits)
qed simp

lemma decodeVarint_bound: "decodeVarint b = (x, n) \<Longrightarrow> n \<le> length b"
  using decodeVarint_round_bounds [of 0 0 b] by (simp add: decodeVarint_def)

function findEndGroup_loop :: "byte list \<Rightarrow> nat \<Rightarrow> nat \<Rightarrow> (nat \<times> nat) option" where
  "findEndGroup_loop b depth j =
     (case decodeVarint (drop j b) of
        (x, n) \<Rightarrow>
          if n = 0 then None
          else let i = j + n; w = unat (x AND 7)
               in if w = WireVarint then
                    (case decodeVarint (drop i b) of
                       (_, k) \<Rightarrow> if k = 0 then None else findEndGroup_loop b depth (i + k))
                  else if w = WireFixed32 then
                    (if length b < i + 4 then None else findEndGroup_loop b depth (i + 4))
                  else if w = WireFixed64 then
                    (if length b < i + 8 then None else findEndGroup_loop b depth (i + 8))
                  else if w = WireBytes then
                    (case decodeVarint (drop i b) of
                       (m, k) \<Rightarrow>
                         if k = 0 then None
                         else if of_nat (length b - (i + k)) < m then None
                         else findEndGroup_loop b depth (i + k + unat m))
                  else if w = WireStartGroup then findEndGroup_loop b (Suc depth) i
                  else if w = WireEndGroup then
                    (if depth = 1 then Some (j, i) else findEndGroup_loop b (depth - 1) i)
                  else None)"
  by pat_completeness auto
termination
  by (relation "measure (\<lambda>(b, depth, j). length b - j)")
    (auto dest!: decodeVarint_bound sym [of "(_, _)"])

declare findEndGroup_loop.simps [simp del]

definition findEndGroup :: "byte list \<Rightarrow> (nat \<times> nat) option" where
  "findEndGroup b = findEndGroup_loop b 1 0"

definition skipField :: "byte list \<Rightarrow> nat \<Rightarrow> proto_error + byte list" where
  "skipField b wire =
     (if wire = WireVarint then
        (case decodeVarint b of (_, k) \<Rightarrow> if k = 0 then Inl ErrUnexpectedEOF else Inr (drop k b))
      else if wire = WireFixed32 then
        (if length b < 4 then Inl ErrUnexpectedEOF else Inr (drop 4 b))
      else if wire = WireFixed64 then
        (if length b < 8 then Inl ErrUnexpectedEOF else Inr (drop 8 b))
      else if wire = WireBytes then
        (case decodeVarint b of
           (m, k) \<Rightarrow>
             if k = 0 \<or> of_nat (length b - k) < m then Inl ErrUnexpectedEOF
             else Inr (drop (k + unat m) b))
      else if wire = WireStartGroup then
        (case findEndGroup b of
           None \<Rightarrow> Inl ErrUnexpectedEOF
         | Some (_, i) \<Rightarrow> Inr (drop i b))
      else Inl (ErrUnknownWireType wire))"

lemma skipField_length: "skipField b w = Inr b' \<Longrightarrow> length b' \<le> length b"
  by (auto simp: skipField_def split: if_splits prod.splits option.splits)

lemma take_delimited_length: "take_delimited b = Some (v, rest) \<Longrightarrow> length rest \<le> length b"
  by (auto simp: take_delimited_def Let_def split: prod.splits if_splits)

lemma field_unmarshaler_length: "field_unmarshaler f b m w = (m', b', e) \<Longrightarrow> length b' \<le> length b"
  by (auto simp: field_unmarshaler_def unmarshalUTF8StringValue_def unmarshalUTF8StringSlice_def
      unmarshalBytesValue_def dest: take_delimited_length
      split: pfield.splits if_splits option.splits)

lemma read_tag_length: "read_tag b = Some (x, b') \<Longrightarrow> length b' < length b"
  by (auto simp: read_tag_def neq_Nil_conv split: list.splits if_splits prod.splits)

text \<open>The field with a given tag: \<open>u.dense[tag]\<close> or \<open>u.sparse[tag]\<close>.\<close>

definition find_field :: "'m minfo \<Rightarrow> u64 \<Rightarrow> 'm pinfo option" where
  "find_field u tag = find (\<lambda>f. of_nat (pf_tag f) = tag) (mi_fields u)"

text \<open>
  Storing a field the message type does not have (or has with another wire type): its bytes are
  kept in \<open>XXX_unrecognized\<close>, behind a re-encoded tag.
\<close>

definition keep_unknown ::
    "'m minfo \<Rightarrow> 'm \<Rightarrow> byte list \<Rightarrow> u64 \<Rightarrow> nat \<Rightarrow> proto_error + ('m \<times> byte list)" where
  "keep_unknown u m b tag wire =
     (case skipField b wire of
        Inl e \<Rightarrow> Inl e
      | Inr b' \<Rightarrow>
          Inr (mi_set_unrec u
                 (encodeVarint (mi_unrec u m) (push_bit 3 tag OR of_nat wire)
                  @ take (length b - length b') b) m, b'))"

lemma keep_unknown_length: "keep_unknown u m b tag w = Inr (m', b') \<Longrightarrow> length b' \<le> length b"
  by (auto simp: keep_unknown_def dest: skipField_length split: sum.splits)

text \<open>The main loop of \<open>unmarshal\<close>; the message is returned with the error, as the code leaves it.\<close>

function unmarshal ::
    "'m minfo \<Rightarrow> 'm \<Rightarrow> byte list \<Rightarrow> proto_error option \<Rightarrow> 'm \<times> proto_error option" where
  "unmarshal u m b errLater =
     (if b = [] then (m, errLater)
      else case read_tag b of
        None \<Rightarrow> (m, Some ErrUnexpectedEOF)
      | Some (x, b1) \<Rightarrow>
          let tag = drop_bit 3 x; wire = unat (x AND 7);
              unknown = (case keep_unknown u m b1 tag wire of
                           Inl e \<Rightarrow> (m, Some e)
                         | Inr (m', b2) \<Rightarrow> unmarshal u m' b2 errLater)
          in case find_field u tag of
               None \<Rightarrow> unknown
             | Some f \<Rightarrow>
                 (case field_unmarshaler f b1 m wire of
                    (m', b2, None) \<Rightarrow> unmarshal u m' b2 errLater
                  | (m', b2, Some e) \<Rightarrow>
                      if e = ErrInternalBadWireType then unknown
                      else if e = ErrInvalidUTF8 then
                        unmarshal u m' b2
                          (if errLater = None
                           then Some (InvalidUTF8Error (mi_name u @ ''.'' @ pf_name f))
                           else errLater)
                      else (m', Some e)))"
  by pat_completeness auto
termination
proof (relation "measure (\<lambda>(u, m, b, e). length b)", goal_cases)
  case (2 u m b errLater xb1 x b1 tag wire r m' b2)
  have "length b1 < length b" using 2(2,3) read_tag_length by metis
  moreover have "length b2 \<le> length b1" using 2(6,7) keep_unknown_length by metis
  ultimately show ?case by simp
next
  case (3 u m b errLater xb1 x b1 tag wire unknown f m' r b2 e)
  have "length b1 < length b" using 3(2,3) read_tag_length by metis
  moreover have "length b2 \<le> length b1" using 3(8,9) field_unmarshaler_length by metis
  ultimately show ?case by simp
next
  case (4 u m b errLater xb1 x b1 tag wire unknown f m' r b2 e e')
  have "length b1 < length b" using 4(2,3) read_tag_length by metis
  moreover have "length b2 \<le> length b1" using 4(8,9) field_unmarshaler_length by metis
  ultimately show ?case by simp
qed simp

declare unmarshal.simps [simp del]

text \<open>\<open>proto.Unmarshal\<close> resets the message first.\<close>

definition Unmarshal :: "'m minfo \<Rightarrow> 'm \<Rightarrow> byte list \<Rightarrow> 'm \<times> proto_error option" where
  "Unmarshal u zero b = unmarshal u zero b None"

end
