(* ===== verification/Proto_Varint.thy ===== *)
theory Proto_Varint
  imports Proto_Wire
begin

text \<open>
  Varints: the unrolled encoder equals the loop, the size function gives the length of the
  encoding, and the decoder inverts the encoder and leaves the bytes behind it alone.
\<close>

lemma unat_pow2_u64: "n < 64 \<Longrightarrow> unat (2 ^ n :: u64) = 2 ^ n"
proof -
  assume "n < 64"
  then have "(2 :: nat) ^ n < 2 ^ 64" by (intro power_strict_increasing) auto
  then have "unat (of_nat (2 ^ n) :: u64) = 2 ^ n"
    by (simp only: unat_of_nat) (simp add: take_bit_nat_eq_self)
  then show ?thesis by simp
qed

lemma drop_bit_ge_iff: "k + 7 \<le> 63 \<Longrightarrow> 0x80 \<le> drop_bit k (v :: u64) \<longleftrightarrow> \<not> v < 2 ^ (k + 7)"
proof -
  assume k: "k + 7 \<le> 63"
  then have p: "unat (2 ^ (k + 7) :: u64) = 2 ^ (k + 7)"
    by (intro unat_pow2_u64) simp
  have "0x80 \<le> drop_bit k v \<longleftrightarrow> \<not> unat v div 2 ^ k < 2 ^ 7"
    by (simp add: word_le_nat_alt unat_drop_bit_eq not_less) (simp add: drop_bit_eq_div)
  also have "\<dots> \<longleftrightarrow> \<not> unat v < 2 ^ (k + 7)"
    by (simp add: power_add div_less_iff_less_mult mult.commute)
  finally show ?thesis by (simp only: word_less_nat_alt p)
qed

lemma drop_bit_63: "\<not> v < 2 ^ 63 \<Longrightarrow> drop_bit 63 (v :: u64) = 1"
proof -
  assume "\<not> v < 2 ^ 63"
  then have "2 ^ 63 \<le> unat v" by (simp add: word_less_nat_alt)
  moreover have "unat v < 2 ^ 64" using unsigned_less [of v, where ?'a = nat] by simp
  ultimately have "unat v div 2 ^ 63 = 1" by auto
  then have "unat (drop_bit 63 v) = unat (1 :: u64)"
    by (subst unat_drop_bit_eq) (simp add: drop_bit_eq_div)
  then show ?thesis by (rule word_unat_eq_iff [THEN iffD2])
qed

text \<open>One turn of the loop, at bit offset \<open>k\<close> of the value.\<close>

lemma encodeVarint_turn:
  assumes "k + 7 \<le> 63"
  shows "encodeVarint b (drop_bit k v) =
     (if v < 2 ^ (k + 7) then b @ [ucast (drop_bit k v)]
      else encodeVarint (b @ [vbyte v k]) (drop_bit (k + 7) v))"
  using encodeVarint.simps [of b "drop_bit k v"] drop_bit_ge_iff [OF assms, of v]
  by (simp add: vbyte_def add.commute)

lemma encodeVarint_last: "encodeVarint b (1 :: u64) = b @ [1]"
  by (subst encodeVarint.simps) (simp add: word_le_nat_alt)

lemma appendVarint_eq_encodeVarint: "appendVarint b v = encodeVarint b v"
proof -
  note turns = encodeVarint_turn [of 7, simplified] encodeVarint_turn [of 14, simplified]
    encodeVarint_turn [of 21, simplified] encodeVarint_turn [of 28, simplified]
    encodeVarint_turn [of 35, simplified] encodeVarint_turn [of 42, simplified]
    encodeVarint_turn [of 49, simplified] encodeVarint_turn [of 56, simplified]
  have "encodeVarint b (drop_bit 63 v) = b @ [1]" if "\<not> v < 2 ^ 63" for b
    using that drop_bit_63 encodeVarint_last by simp
  then show ?thesis
    using encodeVarint_turn [of 0 b v] unfolding appendVarint_def by (simp add: turns)
qed

text \<open>The encoder only appends; so it is enough to know it on the empty slice.\<close>

lemma encodeVarint_append: "encodeVarint (a @ b) x = a @ encodeVarint b x"
proof (induction b x rule: encodeVarint.induct)
  case (1 b x)
  then show ?case
    by (simp add: encodeVarint.simps [of "a @ b" x] encodeVarint.simps [of b x])
qed

lemma encodeVarint_prefix: "encodeVarint b x = b @ encodeVarint [] x"
  using encodeVarint_append [of b "[]" x] by simp

lemma encodeVarint_Nil:
  "encodeVarint [] x =
     (if x \<ge> 0x80 then ucast ((x AND 0x7F) OR 0x80) # encodeVarint [] (drop_bit 7 x) else [ucast x])"
  by (subst encodeVarint.simps) (simp add: encodeVarint_prefix [of "[_]"])

lemma length_encodeVarint: "length (encodeVarint [] v) = SizeVarint v"
  by (simp add: appendVarint_eq_encodeVarint [symmetric] appendVarint_def SizeVarint_def)

lemma encodeVarint_not_Nil [simp]: "encodeVarint [] v \<noteq> []"
  by (subst encodeVarint_Nil) simp

lemma ucast_byte_u64: "x < 0x100 \<Longrightarrow> ucast (ucast x :: byte) = (x :: u64)"
proof -
  assume "x < 0x100"
  then have "unat x < 2 ^ 8" by (simp add: word_less_nat_alt)
  then have "unat (ucast (ucast x :: byte) :: u64) = unat x"
    by (simp add: unsigned_ucast_eq unsigned_take_bit_eq take_bit_nat_eq_self)
  then show ?thesis by (rule word_unat_eq_iff [THEN iffD2])
qed

lemma and_0x7F: "x AND 0x7F = take_bit 7 (x :: u64)"
  by (simp add: take_bit_eq_mask mask_eq_exp_minus_1)

lemma low_bits_or: "(x AND 0x7F) OR 0x80 = take_bit 7 x + (0x80 :: u64)"
proof -
  have "take_bit 7 x AND push_bit 7 1 = (0 :: u64)"
    by (rule bit_eqI) (simp only: bit_and_iff bit_take_bit_iff bit_push_bit_iff, auto)
  moreover have "push_bit 7 1 = (0x80 :: u64)" by simp
  ultimately have "take_bit 7 x AND (0x80 :: u64) = 0" by simp
  then show ?thesis by (simp add: and_0x7F disjunctive_add_eq_or)
qed

lemma take_bit_7_less: "take_bit 7 (x :: u64) < 0x80"
  by (simp add: word_less_nat_alt unsigned_take_bit_eq take_bit_nat_def)

text \<open>A continuation byte, read back: at least 0x80, with the low seven bits of the value.\<close>

lemma ucast_continuation:
  "ucast (ucast ((x AND 0x7F) OR 0x80) :: byte) = take_bit 7 x + (0x80 :: u64)"
proof -
  have "take_bit 7 x + 0x80 < (0x100 :: u64)"
    using take_bit_7_less [of x] by (simp add: word_less_nat_alt unat_word_ariths)
  then show ?thesis by (simp only: low_bits_or ucast_byte_u64)
qed

lemma continuation_not_less: "\<not> take_bit 7 x + 0x80 < (0x80 :: u64)"
  using take_bit_7_less [of x] by (simp add: word_less_nat_alt unat_word_ariths)

lemma decodeVarint_round_encode:
  assumes "i \<le> 9" and "unat v < 2 ^ (64 - 7 * i)"
  shows "decodeVarint_round i x (encodeVarint [] v @ rest) = (x + push_bit (7 * i) v, i + SizeVarint v)"
  using assms
proof (induction "unat v" arbitrary: v i x rule: less_induct)
  case less
  show ?case
  proof (cases "v \<ge> 0x80")
    case True
    let ?c = "ucast ((v AND 0x7F) OR 0x80) :: byte"
    have i: "i < 9"
    proof (rule ccontr)
      assume "\<not> i < 9"
      with less.prems True show False by (simp add: word_le_nat_alt)
    qed
    have div: "unat (drop_bit 7 v) = unat v div 2 ^ 7"
      by (subst unat_drop_bit_eq) (simp add: drop_bit_eq_div)
    have "unat v div 2 ^ 7 < 2 ^ (64 - 7 * Suc i)"
    proof -
      have "64 - 7 * i = (64 - 7 * Suc i) + 7" using i by simp
      then have "(2 :: nat) ^ (64 - 7 * i) = 2 ^ (64 - 7 * Suc i) * 2 ^ 7" by (simp only: power_add)
      then show ?thesis
        using less.prems(2) by (simp only: div_less_iff_less_mult [of "2 ^ 7"] zero_less_power zero_less_numeral)
    qed
    moreover have "unat (drop_bit 7 v) < unat v" using True div by (simp add: word_le_nat_alt)
    ultimately have IH: "decodeVarint_round (Suc i) y (encodeVarint [] (drop_bit 7 v) @ rest) =
        (y + push_bit (7 * Suc i) (drop_bit 7 v), Suc i + SizeVarint (drop_bit 7 v))" for y
      using less.hyps i div by simp
    have "length (encodeVarint [] v) = Suc (length (encodeVarint [] (drop_bit 7 v)))"
      using True by (subst encodeVarint_Nil) simp
    then have "SizeVarint v = Suc (SizeVarint (drop_bit 7 v))" by (simp only: length_encodeVarint)
    moreover have "push_bit (7 * i) (take_bit 7 v) + push_bit (7 * Suc i) (drop_bit 7 v)
        = push_bit (7 * i) v"
    proof -
      have "push_bit (7 * Suc i) (drop_bit 7 v) = push_bit (7 * i) (push_bit 7 (drop_bit 7 v))"
        by (simp add: add.commute)
      then have "push_bit (7 * i) (take_bit 7 v) + push_bit (7 * Suc i) (drop_bit 7 v)
          = push_bit (7 * i) (push_bit 7 (drop_bit 7 v) + take_bit 7 v)"
        by (simp only: push_bit_add add.commute)
      then show ?thesis by (simp only: bits_ident)
    qed
    ultimately show ?thesis
      using True i by (simp add: encodeVarint_Nil [of v] ucast_continuation continuation_not_less
          Let_def IH push_bit_add add.assoc del: mult_Suc_right)
  next
    case False
    then have v: "v < 0x80" by simp
    then have "v < 0x100" by (simp add: word_less_nat_alt)
    then have "ucast (ucast v :: byte) = v" by (rule ucast_byte_u64)
    moreover have "SizeVarint v = 1" using v by (simp add: SizeVarint_def)
    moreover have "v < 2" if "i = 9"
      using that less.prems(2) by (simp add: word_less_nat_alt)
    ultimately show ?thesis
      using v less.prems(1) by (auto simp: encodeVarint_Nil [of v] Let_def)
  qed
qed

lemma decodeVarint_encode: "decodeVarint (encodeVarint [] v @ rest) = (v, SizeVarint v)"
proof -
  have "unat v < 2 ^ 64" using unsigned_less [of v, where ?'a = nat] by simp
  then show ?thesis
    using decodeVarint_round_encode [of 0 v 0 rest] by (simp add: decodeVarint_def)
qed

lemma drop_encodeVarint [simp]: "drop (SizeVarint v) (encodeVarint [] v @ rest) = rest"
  by (simp add: length_encodeVarint [symmetric])

section \<open>Properties\<close>

text \<open>
  C26. The unrolled encoder of the marshaller agrees with the loop of the unmarshaller on every
  64-bit value, its output has the length \<open>SizeVarint\<close> announces, and the decoder reads the value
  back from it, whatever bytes follow.
\<close>

theorem varint_codec:
  "appendVarint b v = encodeVarint b v \<and> length (appendVarint b v) = length b + SizeVarint v \<and>
   decodeVarint (appendVarint [] v @ rest) = (v, SizeVarint v)"
  using encodeVarint_prefix [of b v]
  by (simp add: appendVarint_eq_encodeVarint decodeVarint_encode length_encodeVarint)

end
