(* ===== verification/Proto_Codec.thy ===== *)
theory Proto_Codec
  imports Proto_Varint
begin

text \<open>
  The round trip of a message through \<open>Marshal\<close> and \<open>Unmarshal\<close>, for every message type whose
  description satisfies the laws of the locale \<open>proto_message\<close>.  Strings that are not UTF-8 are
  part of the result: both sides report the same error, and the bytes still carry the message.
\<close>

named_theorems pb_simps \<open>the fields of the message descriptions\<close>

section \<open>One field\<close>

definition delimited :: "u64 \<Rightarrow> byte list \<Rightarrow> byte list" where
  "delimited wt v = encodeVarint [] wt @ encodeVarint [] (of_nat (length v)) @ v"

text \<open>The bytes a field contributes, whether its strings are UTF-8, and what reading it back does.\<close>

definition field_bytes :: "'m pinfo \<Rightarrow> 'm \<Rightarrow> byte list" where
  "field_bytes f m =
     (case pf_field f of
        StringField get put \<Rightarrow>
          if get m = [] then [] else delimited (wiretag (pf_tag f)) (to_bytes (get m))
      | StringsField get put \<Rightarrow>
          concat (map (\<lambda>v. delimited (wiretag (pf_tag f)) (to_bytes v)) (get m))
      | BytesField get put \<Rightarrow>
          if get m = [] then [] else delimited (wiretag (pf_tag f)) (get m))"

definition field_utf8 :: "'m pinfo \<Rightarrow> 'm \<Rightarrow> bool" where
  "field_utf8 f m =
     (case pf_field f of
        StringField get put \<Rightarrow> get m = [] \<or> utf8_ValidString (get m)
      | StringsField get put \<Rightarrow> list_all utf8_ValidString (get m)
      | BytesField get put \<Rightarrow> True)"

definition copy_field :: "'m pinfo \<Rightarrow> 'm \<Rightarrow> 'm \<Rightarrow> 'm" where
  "copy_field f m acc =
     (case pf_field f of
        StringField get put \<Rightarrow> if get m = [] then acc else put (get m) acc
      | StringsField get put \<Rightarrow> foldl (\<lambda>a v. put (get a @ [v]) a) acc (get m)
      | BytesField get put \<Rightarrow> if get m = [] then acc else put (get m) acc)"

definition note_utf8 :: "string \<Rightarrow> 'm pinfo \<Rightarrow> 'm \<Rightarrow> proto_error option \<Rightarrow> proto_error option" where
  "note_utf8 nm f m e =
     (if field_utf8 f m \<or> e \<noteq> None then e else Some (InvalidUTF8Error (nm @ ''.'' @ pf_name f)))"

lemma note_utf8_Some [simp]: "note_utf8 nm f m (Some e) = Some e"
  by (simp add: note_utf8_def)

lemma note_utf8_None:
  "note_utf8 nm f m None =
     (if field_utf8 f m then None else Some (InvalidUTF8Error (nm @ ''.'' @ pf_name f)))"
  by (simp add: note_utf8_def)

lemma fold_note_utf8_Some [simp]: "fold (\<lambda>f. note_utf8 nm f m) fs (Some e) = Some e"
  by (induction fs) simp_all

lemma delimited_not_Nil [simp]: "delimited wt v \<noteq> []"
  by (simp add: delimited_def)

lemma append_delimited_eq: "append_delimited b wt v = b @ delimited wt v"
  by (simp add: append_delimited_def delimited_def appendVarint_eq_encodeVarint
      encodeVarint_prefix [of b] encodeVarint_append encodeVarint_prefix [of "encodeVarint [] wt"])

lemma append_all_eq: "append_all b vs wt = b @ concat (map (\<lambda>v. delimited wt (to_bytes v)) vs)"
  by (induction b vs wt rule: append_all.induct) (auto simp: append_delimited_eq)

lemma field_marshaler_eq:
  "field_marshaler f b m = (b @ field_bytes f m, if field_utf8 f m then None else Some ErrInvalidUTF8)"
  by (auto simp: field_marshaler_def field_bytes_def field_utf8_def appendUTF8StringValueNoZero_def
      appendUTF8StringSlice_def appendBytes3_def append_delimited_eq append_all_eq
      split: pfield.splits)

lemma marshal_fields_eq:
  "marshal_fields nm fs b e m =
     (b @ concat (map (\<lambda>f. field_bytes f m) fs), fold (\<lambda>f. note_utf8 nm f m) fs e)"
  by (induction fs arbitrary: b e) (auto simp: field_marshaler_eq note_utf8_def)

lemma is_later_error_fold: "is_later_error (fold (\<lambda>f. note_utf8 nm f m) fs None)"
proof -
  have "is_later_error e \<Longrightarrow> is_later_error (fold (\<lambda>f. note_utf8 nm f m) fs e)" for e
    by (induction fs arbitrary: e) (auto simp: note_utf8_def is_later_error_def)
  then show ?thesis by (simp add: is_later_error_def)
qed

lemma Marshal_eq:
  "Marshal u m = (concat (map (\<lambda>f. field_bytes f m) (mi_fields u)) @ mi_unrec u m,
     fold (\<lambda>f. note_utf8 (mi_name u) f m) (mi_fields u) None)"
  by (simp add: Marshal_def marshal_def marshal_fields_eq is_later_error_fold)

section \<open>The wire tag\<close>

lemma wiretag_parts:
  assumes "tag < 2 ^ 29"
  shows "drop_bit 3 (wiretag tag) = of_nat tag" and "unat (wiretag tag AND 7) = WireBytes"
    and "unat (wiretag tag) = tag * 8 + 2" and "unat (push_bit 3 (of_nat tag) :: u64) = tag * 8"
proof -
  have t: "unat (of_nat tag :: u64) = tag"
    using assms by (simp add: unat_of_nat take_bit_nat_eq_self)
  have w: "wiretag tag = push_bit 3 (of_nat tag) + 2"
  proof -
    have "push_bit 3 (of_nat tag) AND push_bit 1 1 = (0 :: u64)"
      by (rule bit_eqI) (auto simp only: bit_and_iff bit_push_bit_iff bit_1_iff bit_0_eq)
    moreover have "push_bit 1 1 = (2 :: u64)" by simp
    ultimately have "push_bit 3 (of_nat tag) AND (2 :: u64) = 0" by simp
    then show ?thesis by (simp add: wiretag_def WireBytes_def disjunctive_add_eq_or)
  qed
  show n: "unat (wiretag tag) = tag * 8 + 2"
    using assms t by (simp add: w push_bit_eq_mult unat_word_ariths)
  show "unat (push_bit 3 (of_nat tag) :: u64) = tag * 8"
    using assms t by (simp add: push_bit_eq_mult unat_word_ariths)
  have "unat (drop_bit 3 (wiretag tag)) = tag"
    by (subst unat_drop_bit_eq) (simp add: n drop_bit_eq_div)
  then show "drop_bit 3 (wiretag tag) = of_nat tag"
    using t by (simp add: word_unat_eq_iff)
  have "wiretag tag AND 7 = take_bit 3 (wiretag tag)"
    by (simp add: take_bit_eq_mask mask_eq_exp_minus_1)
  then have "unat (wiretag tag AND 7) = (tag * 8 + 2) mod 2 ^ 3"
    by (simp only: unsigned_take_bit_eq n take_bit_nat_def)
  moreover have "(tag * 8 + 2) mod 8 = 2" by presburger
  moreover have "(2 :: nat) ^ 3 = 8" by simp
  ultimately show "unat (wiretag tag AND 7) = WireBytes" by (simp only: WireBytes_def)
qed

text \<open>The fast paths for short tags agree with \<open>decodeVarint\<close>.\<close>

lemma unat_ucast_byte [simp]: "unat (ucast c :: u64) = unat (c :: byte)"
  using unat_byte_less [of c] by (simp add: unsigned_ucast_eq take_bit_nat_eq_self)

lemma ucast_low_bits: "\<not> b < 128 \<Longrightarrow> ucast (b AND 0x7F) = ucast (b :: byte) - (0x80 :: u64)"
proof -
  assume "\<not> b < 128"
  then have ge: "128 \<le> unat b" by (simp add: word_less_nat_alt)
  have "b AND 0x7F = take_bit 7 b" by (simp add: take_bit_eq_mask mask_eq_exp_minus_1)
  then have "unat (b AND 0x7F) = unat b mod 128"
    by (simp add: unsigned_take_bit_eq take_bit_nat_def)
  also have "\<dots> = unat b - 128" using ge unat_byte_less [of b] by (simp add: mod_nat_eqI)
  finally have m: "unat (b AND 0x7F) = unat b - 128" .
  have "unat (ucast (b AND 0x7F) + 0x80 :: u64) = unat (ucast b :: u64)"
    using m ge unat_byte_less [of b] by (simp only: unat_word_ariths unat_ucast_byte) simp
  then have "ucast (b AND 0x7F) + 0x80 = (ucast b :: u64)" by (rule word_unat_eq_iff [THEN iffD2])
  then show ?thesis by (simp add: eq_diff_eq)
qed

lemma read_tag_eq:
  "read_tag b = (if b = [] then None
     else case decodeVarint b of (x, n) \<Rightarrow> if n = 0 then None else Some (x, drop n b))"
proof (cases b)
  case (Cons b0 r)
  have small: "ucast c < (0x80 :: u64) \<longleftrightarrow> c < 128" for c :: byte
    by (simp add: word_less_nat_alt)
  consider (one) "b0 < 128" | (two) b1 r' where "\<not> b0 < 128" "r = b1 # r'" "b1 < 128"
    | (more) "\<not> b0 < 128" "\<not> (r \<noteq> [] \<and> hd r < 128)"
    by (cases r) auto
  then show ?thesis
  proof cases
    case one
    then have "decodeVarint b = (ucast b0, 1)" using Cons small by (simp add: decodeVarint_def Let_def)
    with one Cons show ?thesis by (simp add: read_tag_def)
  next
    case two
    then have "decodeVarint b = (ucast b0 + push_bit 7 (ucast b1) - 0x80, 2)"
      using Cons small by (simp add: decodeVarint_def Let_def)
    with two Cons ucast_low_bits [of b0] show ?thesis by (simp add: read_tag_def)
  next
    case more
    with Cons show ?thesis by (cases "r = []") (auto simp: read_tag_def)
  qed
qed (simp add: read_tag_def)

lemma read_tag_delimited:
  "read_tag (delimited wt v @ rest) = Some (wt, encodeVarint [] (of_nat (length v)) @ v @ rest)"
proof -
  have "SizeVarint wt \<noteq> 0" by (simp add: SizeVarint_def)
  then show ?thesis
    using decodeVarint_encode [of wt] by (simp add: read_tag_eq delimited_def length_encodeVarint)
qed

lemma take_delimited_encode:
  assumes "length (v @ rest) < 2 ^ 63"
  shows "take_delimited (encodeVarint [] (of_nat (length v)) @ v @ rest) = Some (v, rest)"
proof -
  let ?n = "of_nat (length v) :: u64"
  have n: "unat (of_nat k :: u64) = k" if "k \<le> length (v @ rest)" for k
    using that assms by (simp add: unat_of_nat take_bit_nat_eq_self)
  have "SizeVarint ?n \<noteq> 0" by (simp add: SizeVarint_def)
  then have "take_delimited (encodeVarint [] ?n @ v @ rest) =
      (if ?n > of_nat (length (v @ rest)) then None else Some (v, rest))"
    using n [of "length v"]
    by (simp only: take_delimited_def decodeVarint_encode drop_encodeVarint Let_def prod.case if_False)
      simp
  moreover have "\<not> ?n > of_nat (length (v @ rest))"
    using n [of "length v"] n [of "length (v @ rest)"] by (simp only: word_less_nat_alt) simp
  ultimately show ?thesis by simp
qed

lemma length_delimited:
  "length (delimited wt v) = SizeVarint wt + SizeVarint (of_nat (length v)) + length v"
  by (simp add: delimited_def length_encodeVarint)

lemma SizeVarint_tag:
  assumes "tag < 2 ^ 29"
  shows "SizeVarint (push_bit 3 (of_nat tag)) = SizeVarint (wiretag tag)"
proof -
  have "tag * 8 + 2 < 2 ^ 7 \<longleftrightarrow> tag * 8 < 2 ^ 7" "tag * 8 + 2 < 2 ^ 14 \<longleftrightarrow> tag * 8 < 2 ^ 14"
    "tag * 8 + 2 < 2 ^ 21 \<longleftrightarrow> tag * 8 < 2 ^ 21" "tag * 8 + 2 < 2 ^ 28 \<longleftrightarrow> tag * 8 < 2 ^ 28"
    "tag * 8 + 2 < 2 ^ 35" "tag * 8 < 2 ^ 35"
    using assms by auto
  then show ?thesis
    by (simp only: SizeVarint_def word_less_nat_alt wiretag_parts(3,4) [OF assms] unat_pow2_u64
        numeral_less_iff) simp
qed

section \<open>A message type\<close>

locale proto_message =
  fixes u :: "'m minfo" and zero :: 'm
  assumes tags_distinct: "distinct (map pf_tag (mi_fields u))"
    and tags_small: "f \<in> set (mi_fields u) \<Longrightarrow> pf_tag f < 2 ^ 29"
    and rebuild: "mi_unrec u m = [] \<Longrightarrow> foldl (\<lambda>acc f. copy_field f m acc) zero (mi_fields u) = m"
begin

lemma find_field_tag:
  assumes "f \<in> set (mi_fields u)"
  shows "find_field u (of_nat (pf_tag f)) = Some f"
proof -
  have small: "unat (of_nat (pf_tag g) :: u64) = pf_tag g" if "g \<in> set (mi_fields u)" for g
    using tags_small [OF that] by (simp add: unat_of_nat take_bit_nat_eq_self)
  have "find (\<lambda>g. of_nat (pf_tag g) = (of_nat (pf_tag f) :: u64)) gs = Some f"
    if "f \<in> set gs" "set gs \<subseteq> set (mi_fields u)" "distinct (map pf_tag gs)" for gs
    using that
  proof (induction gs)
    case (Cons g gs)
    show ?case
    proof (cases "g = f")
      case False
      with Cons.prems have "f \<in> set gs" by simp
      with Cons.prems(3) have "pf_tag g \<noteq> pf_tag f" by (auto simp: image_iff)
      then have "of_nat (pf_tag g) \<noteq> (of_nat (pf_tag f) :: u64)"
        using small [of g] small [OF assms] Cons.prems(2) by (metis list.set_intros(1) subset_eq)
      with \<open>f \<in> set gs\<close> Cons show ?thesis by simp
    qed simp
  qed simp
  then show ?thesis using assms tags_distinct by (simp add: find_field_def)
qed

text \<open>Reading one length-delimited value of a known field.\<close>

lemma unmarshal_delimited:
  assumes f: "f \<in> set (mi_fields u)" and len: "length (v @ rest) < 2 ^ 63"
  shows "unmarshal u acc (delimited (wiretag (pf_tag f)) v @ rest) e =
    (case field_unmarshaler f (encodeVarint [] (of_nat (length v)) @ v @ rest) acc WireBytes of
       (m', b2, None) \<Rightarrow> unmarshal u m' b2 e
     | (m', b2, Some er) \<Rightarrow>
         if er = ErrInvalidUTF8
         then unmarshal u m' b2
           (if e = None then Some (InvalidUTF8Error (mi_name u @ ''.'' @ pf_name f)) else e)
         else (m', Some er))"
proof -
  note tag = wiretag_parts [OF tags_small [OF f]]
  have nb: "er \<noteq> ErrInternalBadWireType"
    if "field_unmarshaler f b acc WireBytes = (m', b2, Some er)" for b m' b2 er
    using that by (auto simp: field_unmarshaler_def unmarshalUTF8StringValue_def
        unmarshalUTF8StringSlice_def unmarshalBytesValue_def
        split: pfield.splits option.splits if_splits)
  obtain m' b2 r where
    r: "field_unmarshaler f (encodeVarint [] (of_nat (length v)) @ v @ rest) acc WireBytes = (m', b2, r)"
    by (metis prod_cases3)
  then have "r = Some er \<Longrightarrow> er \<noteq> ErrInternalBadWireType" for er using nb by blast
  with r show ?thesis
    by (subst unmarshal.simps)
      (cases r; simp add: read_tag_delimited tag find_field_tag [OF f] Let_def)
qed

lemma unmarshal_string:
  assumes f: "f \<in> set (mi_fields u)" "pf_field f = StringField get put"
    and len: "length (delimited (wiretag (pf_tag f)) (to_bytes v) @ rest) < 2 ^ 63"
  shows "unmarshal u acc (delimited (wiretag (pf_tag f)) (to_bytes v) @ rest) e =
    unmarshal u (put v acc) rest
      (if utf8_ValidString v \<or> e \<noteq> None then e
       else Some (InvalidUTF8Error (mi_name u @ ''.'' @ pf_name f)))"
proof -
  have "length (to_bytes v @ rest) < 2 ^ 63" using len by (simp add: delimited_def)
  then show ?thesis
    using f take_delimited_encode [of "to_bytes v" rest]
    by (auto simp: unmarshal_delimited field_unmarshaler_def unmarshalUTF8StringValue_def)
qed

lemma unmarshal_strings:
  assumes f: "f \<in> set (mi_fields u)" "pf_field f = StringsField get put"
    and len: "length (concat (map (\<lambda>v. delimited (wiretag (pf_tag f)) (to_bytes v)) vs) @ rest) < 2 ^ 63"
  shows "unmarshal u acc (concat (map (\<lambda>v. delimited (wiretag (pf_tag f)) (to_bytes v)) vs) @ rest) e =
    unmarshal u (foldl (\<lambda>a v. put (get a @ [v]) a) acc vs) rest
      (if list_all utf8_ValidString vs \<or> e \<noteq> None then e
       else Some (InvalidUTF8Error (mi_name u @ ''.'' @ pf_name f)))"
  using len
proof (induction vs arbitrary: acc e)
  case (Cons v vs)
  let ?tail = "concat (map (\<lambda>v. delimited (wiretag (pf_tag f)) (to_bytes v)) vs) @ rest"
  have len': "length (to_bytes v @ ?tail) < 2 ^ 63" using Cons.prems by (simp add: delimited_def)
  have "unmarshal u acc (delimited (wiretag (pf_tag f)) (to_bytes v) @ ?tail) e =
    unmarshal u (put (get acc @ [v]) acc) ?tail
      (if utf8_ValidString v \<or> e \<noteq> None then e
       else Some (InvalidUTF8Error (mi_name u @ ''.'' @ pf_name f)))"
    using f len' take_delimited_encode [OF len']
    by (auto simp: unmarshal_delimited field_unmarshaler_def unmarshalUTF8StringSlice_def)
  then show ?case using Cons len' by auto
qed simp

lemma unmarshal_bytes:
  assumes f: "f \<in> set (mi_fields u)" "pf_field f = BytesField get put"
    and len: "length (delimited (wiretag (pf_tag f)) v @ rest) < 2 ^ 63"
  shows "unmarshal u acc (delimited (wiretag (pf_tag f)) v @ rest) e = unmarshal u (put v acc) rest e"
proof -
  have "length (v @ rest) < 2 ^ 63" using len by (simp add: delimited_def)
  then show ?thesis
    using f take_delimited_encode [of v rest]
    by (auto simp: unmarshal_delimited field_unmarshaler_def unmarshalBytesValue_def)
qed

lemma unmarshal_field:
  assumes "f \<in> set (mi_fields u)" and "length (field_bytes f m @ rest) < 2 ^ 63"
  shows "unmarshal u acc (field_bytes f m @ rest) e =
    unmarshal u (copy_field f m acc) rest (note_utf8 (mi_name u) f m e)"
proof (cases "pf_field f")
  case (StringField get put)
  with assms show ?thesis
    by (cases "get m = []")
      (simp_all add: field_bytes_def copy_field_def note_utf8_def field_utf8_def unmarshal_string)
next
  case (StringsField get put)
  with assms show ?thesis
    by (simp add: field_bytes_def copy_field_def note_utf8_def field_utf8_def unmarshal_strings)
next
  case (BytesField get put)
  with assms show ?thesis
    by (cases "get m = []")
      (simp_all add: field_bytes_def copy_field_def note_utf8_def field_utf8_def unmarshal_bytes)
qed

lemma unmarshal_fields:
  assumes "set fs \<subseteq> set (mi_fields u)"
    and "length (concat (map (\<lambda>f. field_bytes f m) fs) @ rest) < 2 ^ 63"
  shows "unmarshal u acc (concat (map (\<lambda>f. field_bytes f m) fs) @ rest) e =
    unmarshal u (foldl (\<lambda>acc f. copy_field f m acc) acc fs) rest
      (fold (\<lambda>f. note_utf8 (mi_name u) f m) fs e)"
  using assms
  by (induction fs arbitrary: acc e) (simp_all add: unmarshal_field)

theorem Unmarshal_Marshal:
  assumes "mi_unrec u m = []" and "length (fst (Marshal u m)) < 2 ^ 63"
  shows "Unmarshal u zero (fst (Marshal u m)) = (m, snd (Marshal u m))"
  using assms unmarshal_fields [of "mi_fields u" m "[]" zero None]
  by (simp add: Unmarshal_def Marshal_eq rebuild unmarshal.simps [of _ _ "[]"])

text \<open>When every string is UTF-8 there is no error on either side.\<close>

lemma Marshal_ok_iff: "snd (Marshal u m) = None \<longleftrightarrow> (\<forall>f\<in>set (mi_fields u). field_utf8 f m)"
proof -
  have "fold (\<lambda>f. note_utf8 nm f m) fs None = None \<longleftrightarrow> (\<forall>f\<in>set fs. field_utf8 f m)" for nm fs
    by (induction fs) (simp_all add: note_utf8_None)
  then show ?thesis by (simp add: Marshal_eq)
qed

text \<open>The size computed before encoding is the length of the encoding.\<close>

theorem msg_size_eq: "msg_size u m = length (fst (Marshal u m))"
proof -
  have "field_sizer f m = length (field_bytes f m)" if "f \<in> set (mi_fields u)" for f
    using SizeVarint_tag [OF tags_small [OF that]]
    by (auto simp: field_sizer_def field_bytes_def Let_def sizeStringValueNoZero_def sizeBytes3_def
        sizeStringSlice_def length_delimited length_concat comp_def algebra_simps
        split: pfield.splits)
  then have "map (\<lambda>f. field_sizer f m) (mi_fields u) = map (\<lambda>f. length (field_bytes f m)) (mi_fields u)"
    by simp
  then show ?thesis
    by (simp only: msg_size_def Marshal_eq fst_conv length_append length_concat map_map comp_def)
qed

end

end
