(* ===== verification/Msg.thy ===== *)
theory Msg
  imports Proto_Codec
begin

text \<open>
  The messages of the program (\<open>src/msg/msg.go\<close>, \<open>src/msg/rinck.pb.go\<close>): the type codes, the
  envelope \<open>Msg\<close>, and the six protobuf messages with their field descriptions, which are what the
  struct tags say.  \<open>Taskid\<close> occurs in four messages; its field names carry a prefix.
\<close>

section \<open>Type codes\<close>

definition HeartBeat_Msg :: u32 where "HeartBeat_Msg = 1"
definition HeartBeat_Rsp :: u32 where "HeartBeat_Rsp = 2"
definition ShellRun_Msg :: u32 where "ShellRun_Msg = 3"
definition ShellRun_Rsp :: u32 where "ShellRun_Rsp = 4"
definition FileTrans_Msg :: u32 where "FileTrans_Msg = 5"
definition ScriptRun_Msg :: u32 where "ScriptRun_Msg = 6"
definition ScriptRun_Rsp :: u32 where "ScriptRun_Rsp = 7"

lemmas msg_type_defs = HeartBeat_Msg_def HeartBeat_Rsp_def ShellRun_Msg_def ShellRun_Rsp_def
  FileTrans_Msg_def ScriptRun_Msg_def ScriptRun_Rsp_def

section \<open>The protobuf messages\<close>

record Heartbeat =
  Status :: string
  Synctime :: string
  hb_unrecognized :: "byte list"

definition Heartbeat_zero :: Heartbeat where
  "Heartbeat_zero = \<lparr>Status = [], Synctime = [], hb_unrecognized = []\<rparr>"

definition Heartbeat_info :: "Heartbeat minfo" where
  "Heartbeat_info =
     \<lparr>mi_name = ''msg.Heartbeat'',
      mi_fields =
        [\<lparr>pf_name = ''Status'', pf_tag = 1, pf_field = StringField Status (\<lambda>v m. m\<lparr>Status := v\<rparr>)\<rparr>,
         \<lparr>pf_name = ''Synctime'', pf_tag = 2, pf_field = StringField Synctime (\<lambda>v m. m\<lparr>Synctime := v\<rparr>)\<rparr>],
      mi_unrec = hb_unrecognized,
      mi_set_unrec = (\<lambda>v m. m\<lparr>hb_unrecognized := v\<rparr>)\<rparr>"

record ShellRun =
  Runcmd :: string
  shell_Taskid :: string
  shell_unrecognized :: "byte list"

definition ShellRun_zero :: ShellRun where
  "ShellRun_zero = \<lparr>Runcmd = [], shell_Taskid = [], shell_unrecognized = []\<rparr>"

definition ShellRun_info :: "ShellRun minfo" where
  "ShellRun_info =
     \<lparr>mi_name = ''msg.ShellRun'',
      mi_fields =
        [\<lparr>pf_name = ''Runcmd'', pf_tag = 1, pf_field = StringField Runcmd (\<lambda>v m. m\<lparr>Runcmd := v\<rparr>)\<rparr>,
         \<lparr>pf_name = ''Taskid'', pf_tag = 2, pf_field = StringField shell_Taskid (\<lambda>v m. m\<lparr>shell_Taskid := v\<rparr>)\<rparr>],
      mi_unrec = shell_unrecognized,
      mi_set_unrec = (\<lambda>v m. m\<lparr>shell_unrecognized := v\<rparr>)\<rparr>"

record ShellRunRsp =
  RuncmdRsp :: string
  shellrsp_Taskid :: string
  shellrsp_unrecognized :: "byte list"

definition ShellRunRsp_zero :: ShellRunRsp where
  "ShellRunRsp_zero = \<lparr>RuncmdRsp = [], shellrsp_Taskid = [], shellrsp_unrecognized = []\<rparr>"

definition ShellRunRsp_info :: "ShellRunRsp minfo" where
  "ShellRunRsp_info =
     \<lparr>mi_name = ''msg.ShellRunRsp'',
      mi_fields =
        [\<lparr>pf_name = ''RuncmdRsp'', pf_tag = 1, pf_field = StringField RuncmdRsp (\<lambda>v m. m\<lparr>RuncmdRsp := v\<rparr>)\<rparr>,
         \<lparr>pf_name = ''Taskid'', pf_tag = 2, pf_field = StringField shellrsp_Taskid (\<lambda>v m. m\<lparr>shellrsp_Taskid := v\<rparr>)\<rparr>],
      mi_unrec = shellrsp_unrecognized,
      mi_set_unrec = (\<lambda>v m. m\<lparr>shellrsp_unrecognized := v\<rparr>)\<rparr>"

record FileTrans =
  SrcFilename :: string
  DstFilename :: string
  FileContent :: "byte list"
  file_unrecognized :: "byte list"

definition FileTrans_zero :: FileTrans where
  "FileTrans_zero = \<lparr>SrcFilename = [], DstFilename = [], FileContent = [], file_unrecognized = []\<rparr>"

definition FileTrans_info :: "FileTrans minfo" where
  "FileTrans_info =
     \<lparr>mi_name = ''msg.FileTrans'',
      mi_fields =
        [\<lparr>pf_name = ''SrcFilename'', pf_tag = 1, pf_field = StringField SrcFilename (\<lambda>v m. m\<lparr>SrcFilename := v\<rparr>)\<rparr>,
         \<lparr>pf_name = ''DstFilename'', pf_tag = 2, pf_field = StringField DstFilename (\<lambda>v m. m\<lparr>DstFilename := v\<rparr>)\<rparr>,
         \<lparr>pf_name = ''FileContent'', pf_tag = 3, pf_field = BytesField FileContent (\<lambda>v m. m\<lparr>FileContent := v\<rparr>)\<rparr>],
      mi_unrec = file_unrecognized,
      mi_set_unrec = (\<lambda>v m. m\<lparr>file_unrecognized := v\<rparr>)\<rparr>"

record ScriptRun =
  Scriptname :: string
  Argvs :: "string list"
  script_Taskid :: string
  script_unrecognized :: "byte list"

definition ScriptRun_zero :: ScriptRun where
  "ScriptRun_zero = \<lparr>Scriptname = [], Argvs = [], script_Taskid = [], script_unrecognized = []\<rparr>"

definition ScriptRun_info :: "ScriptRun minfo" where
  "ScriptRun_info =
     \<lparr>mi_name = ''msg.ScriptRun'',
      mi_fields =
        [\<lparr>pf_name = ''Scriptname'', pf_tag = 1, pf_field = StringField Scriptname (\<lambda>v m. m\<lparr>Scriptname := v\<rparr>)\<rparr>,
         \<lparr>pf_name = ''Argvs'', pf_tag = 2, pf_field = StringsField Argvs (\<lambda>v m. m\<lparr>Argvs := v\<rparr>)\<rparr>,
         \<lparr>pf_name = ''Taskid'', pf_tag = 3, pf_field = StringField script_Taskid (\<lambda>v m. m\<lparr>script_Taskid := v\<rparr>)\<rparr>],
      mi_unrec = script_unrecognized,
      mi_set_unrec = (\<lambda>v m. m\<lparr>script_unrecognized := v\<rparr>)\<rparr>"

record ScriptRunRsp =
  RunRsp :: string
  scriptrsp_Taskid :: string
  scriptrsp_unrecognized :: "byte list"

definition ScriptRunRsp_zero :: ScriptRunRsp where
  "ScriptRunRsp_zero = \<lparr>RunRsp = [], scriptrsp_Taskid = [], scriptrsp_unrecognized = []\<rparr>"

definition ScriptRunRsp_info :: "ScriptRunRsp minfo" where
  "ScriptRunRsp_info =
     \<lparr>mi_name = ''msg.ScriptRunRsp'',
      mi_fields =
        [\<lparr>pf_name = ''RunRsp'', pf_tag = 1, pf_field = StringField RunRsp (\<lambda>v m. m\<lparr>RunRsp := v\<rparr>)\<rparr>,
         \<lparr>pf_name = ''Taskid'', pf_tag = 2, pf_field = StringField scriptrsp_Taskid (\<lambda>v m. m\<lparr>scriptrsp_Taskid := v\<rparr>)\<rparr>],
      mi_unrec = scriptrsp_unrecognized,
      mi_set_unrec = (\<lambda>v m. m\<lparr>scriptrsp_unrecognized := v\<rparr>)\<rparr>"

lemmas pb_info_defs [pb_simps] = Heartbeat_info_def ShellRun_info_def ShellRunRsp_info_def
  FileTrans_info_def ScriptRun_info_def ScriptRunRsp_info_def

lemmas pb_zero_defs [pb_simps] = Heartbeat_zero_def ShellRun_zero_def ShellRunRsp_zero_def
  FileTrans_zero_def ScriptRun_zero_def ScriptRunRsp_zero_def

text \<open>The generated getters accept a nil message.\<close>

definition GetStatus :: "Heartbeat option \<Rightarrow> string" where
  "GetStatus m = (case m of None \<Rightarrow> [] | Some x \<Rightarrow> Status x)"

definition GetSynctime :: "Heartbeat option \<Rightarrow> string" where
  "GetSynctime m = (case m of None \<Rightarrow> [] | Some x \<Rightarrow> Synctime x)"

definition GetRuncmd :: "ShellRun option \<Rightarrow> string" where
  "GetRuncmd m = (case m of None \<Rightarrow> [] | Some x \<Rightarrow> Runcmd x)"

definition ShellRun_GetTaskid :: "ShellRun option \<Rightarrow> string" where
  "ShellRun_GetTaskid m = (case m of None \<Rightarrow> [] | Some x \<Rightarrow> shell_Taskid x)"

definition GetRuncmdRsp :: "ShellRunRsp option \<Rightarrow> string" where
  "GetRuncmdRsp m = (case m of None \<Rightarrow> [] | Some x \<Rightarrow> RuncmdRsp x)"

definition ShellRunRsp_GetTaskid :: "ShellRunRsp option \<Rightarrow> string" where
  "ShellRunRsp_GetTaskid m = (case m of None \<Rightarrow> [] | Some x \<Rightarrow> shellrsp_Taskid x)"

definition GetSrcFilename :: "FileTrans option \<Rightarrow> string" where
  "GetSrcFilename m = (case m of None \<Rightarrow> [] | Some x \<Rightarrow> SrcFilename x)"

definition GetDstFilename :: "FileTrans option \<Rightarrow> string" where
  "GetDstFilename m = (case m of None \<Rightarrow> [] | Some x \<Rightarrow> DstFilename x)"

definition GetFileContent :: "FileTrans option \<Rightarrow> byte list" where
  "GetFileContent m = (case m of None \<Rightarrow> [] | Some x \<Rightarrow> FileContent x)"

definition GetScriptname :: "ScriptRun option \<Rightarrow> string" where
  "GetScriptname m = (case m of None \<Rightarrow> [] | Some x \<Rightarrow> Scriptname x)"

definition GetArgvs :: "ScriptRun option \<Rightarrow> string list" where
  "GetArgvs m = (case m of None \<Rightarrow> [] | Some x \<Rightarrow> Argvs x)"

definition ScriptRun_GetTaskid :: "ScriptRun option \<Rightarrow> string" where
  "ScriptRun_GetTaskid m = (case m of None \<Rightarrow> [] | Some x \<Rightarrow> script_Taskid x)"

definition GetRunRsp :: "ScriptRunRsp option \<Rightarrow> string" where
  "GetRunRsp m = (case m of None \<Rightarrow> [] | Some x \<Rightarrow> RunRsp x)"

definition ScriptRunRsp_GetTaskid :: "ScriptRunRsp option \<Rightarrow> string" where
  "ScriptRunRsp_GetTaskid m = (case m of None \<Rightarrow> [] | Some x \<Rightarrow> scriptrsp_Taskid x)"

section \<open>The envelope\<close>

text \<open>A value of the interface \<open>proto.Message\<close>.\<close>

datatype proto_Message =
    PB_Heartbeat Heartbeat
  | PB_ShellRun ShellRun
  | PB_ShellRunRsp ShellRunRsp
  | PB_FileTrans FileTrans
  | PB_ScriptRun ScriptRun
  | PB_ScriptRunRsp ScriptRunRsp

record Msg =
  MsgType :: u32
  MsgData :: "byte list"
  MsgProto :: "proto_Message option"

text \<open>\<open>proto.Marshal\<close> on an interface value: the method \<open>XXX_Marshal\<close> of its dynamic type.\<close>

fun proto_Marshal :: "proto_Message \<Rightarrow> byte list \<times> proto_error option" where
  "proto_Marshal (PB_Heartbeat m) = Marshal Heartbeat_info m"
| "proto_Marshal (PB_ShellRun m) = Marshal ShellRun_info m"
| "proto_Marshal (PB_ShellRunRsp m) = Marshal ShellRunRsp_info m"
| "proto_Marshal (PB_FileTrans m) = Marshal FileTrans_info m"
| "proto_Marshal (PB_ScriptRun m) = Marshal ScriptRun_info m"
| "proto_Marshal (PB_ScriptRunRsp m) = Marshal ScriptRunRsp_info m"

fun proto_Size :: "proto_Message \<Rightarrow> nat" where
  "proto_Size (PB_Heartbeat m) = msg_size Heartbeat_info m"
| "proto_Size (PB_ShellRun m) = msg_size ShellRun_info m"
| "proto_Size (PB_ShellRunRsp m) = msg_size ShellRunRsp_info m"
| "proto_Size (PB_FileTrans m) = msg_size FileTrans_info m"
| "proto_Size (PB_ScriptRun m) = msg_size ScriptRun_info m"
| "proto_Size (PB_ScriptRunRsp m) = msg_size ScriptRunRsp_info m"

section \<open>Every message type satisfies the laws of the codec\<close>

lemma foldl_append_Argvs:
  "foldl (\<lambda>a v. a\<lparr>Argvs := Argvs a @ [v]\<rparr>) (m :: ScriptRun) vs = m\<lparr>Argvs := Argvs m @ vs\<rparr>"
  by (induction vs arbitrary: m) simp_all

interpretation hb_codec: proto_message Heartbeat_info Heartbeat_zero
  by unfold_locales (auto simp: pb_simps copy_field_def)

interpretation shell_codec: proto_message ShellRun_info ShellRun_zero
  by unfold_locales (auto simp: pb_simps copy_field_def)

interpretation shellrsp_codec: proto_message ShellRunRsp_info ShellRunRsp_zero
  by unfold_locales (auto simp: pb_simps copy_field_def)

interpretation file_codec: proto_message FileTrans_info FileTrans_zero
  by unfold_locales (auto simp: pb_simps copy_field_def)

interpretation script_codec: proto_message ScriptRun_info ScriptRun_zero
  by unfold_locales (auto simp: pb_simps copy_field_def foldl_append_Argvs)

interpretation scriptrsp_codec: proto_message ScriptRunRsp_info ScriptRunRsp_zero
  by unfold_locales (auto simp: pb_simps copy_field_def)

section \<open>Properties\<close>

text \<open>The decoder for the type of a message, applied to bytes.\<close>

fun proto_Unmarshal_like :: "proto_Message \<Rightarrow> byte list \<Rightarrow> proto_Message \<times> proto_error option" where
  "proto_Unmarshal_like (PB_Heartbeat _) b = map_prod PB_Heartbeat id (Unmarshal Heartbeat_info Heartbeat_zero b)"
| "proto_Unmarshal_like (PB_ShellRun _) b = map_prod PB_ShellRun id (Unmarshal ShellRun_info ShellRun_zero b)"
| "proto_Unmarshal_like (PB_ShellRunRsp _) b =
     map_prod PB_ShellRunRsp id (Unmarshal ShellRunRsp_info ShellRunRsp_zero b)"
| "proto_Unmarshal_like (PB_FileTrans _) b = map_prod PB_FileTrans id (Unmarshal FileTrans_info FileTrans_zero b)"
| "proto_Unmarshal_like (PB_ScriptRun _) b = map_prod PB_ScriptRun id (Unmarshal ScriptRun_info ScriptRun_zero b)"
| "proto_Unmarshal_like (PB_ScriptRunRsp _) b =
     map_prod PB_ScriptRunRsp id (Unmarshal ScriptRunRsp_info ScriptRunRsp_zero b)"

fun XXX_unrecognized :: "proto_Message \<Rightarrow> byte list" where
  "XXX_unrecognized (PB_Heartbeat m) = hb_unrecognized m"
| "XXX_unrecognized (PB_ShellRun m) = shell_unrecognized m"
| "XXX_unrecognized (PB_ShellRunRsp m) = shellrsp_unrecognized m"
| "XXX_unrecognized (PB_FileTrans m) = file_unrecognized m"
| "XXX_unrecognized (PB_ScriptRun m) = script_unrecognized m"
| "XXX_unrecognized (PB_ScriptRunRsp m) = scriptrsp_unrecognized m"



text \<open>
  C27. The size pass announces exactly the number of bytes the encoder writes, for every message.
\<close>

theorem proto_Size_exact: "proto_Size m = length (fst (proto_Marshal m))"
  by (cases m) (simp_all add: hb_codec.msg_size_eq shell_codec.msg_size_eq shellrsp_codec.msg_size_eq
      file_codec.msg_size_eq script_codec.msg_size_eq scriptrsp_codec.msg_size_eq)

end
