(* ===== verification/Go_Errors.thy ===== *)
theory Go_Errors
  imports Go_Base
begin

text \<open>
  Error values (\<open>src/util/error/error.go\<close>).  A Go \<open>error\<close> is observed through its text only;
  the constructor tells whether the program made it (\<open>MyError\<close>) or a library returned it.
  A call that may fail returns \<open>error + 'a\<close>, with \<open>Inl\<close> for the error.
\<close>

datatype error = MyError (err_msg: string) | ExtError (err_msg: string)

type_synonym 'a result = "error + 'a"

text \<open>\<open>(e *MyError) Error()\<close>, and the same method of a library's error.\<close>

definition Error :: "error \<Rightarrow> string" where
  "Error e = err_msg e"

definition New :: "string \<Rightarrow> error" where
  "New m = MyError m"

definition DBError :: error where
  "DBError = New (utf8_lit [0xE6, 0x95, 0xB0, 0xE6, 0x8D, 0xAE, 0xE5, 0xBA, 0x93, 0xE9, 0x94, 0x99, 0xE8,
      0xAF, 0xAF])"

definition AuthError :: error where
  "AuthError = New (utf8_lit [0xE7, 0x94, 0xA8, 0xE6, 0x88, 0xB7, 0xE8, 0xAE, 0xA4, 0xE8, 0xAF, 0x81, 0xE9,
      0x94, 0x99, 0xE8, 0xAF, 0xAF])"

definition GetCronError :: error where
  "GetCronError = New (utf8_lit [0xE8, 0x8E, 0xB7, 0xE5, 0x8F, 0x96, 0xE8, 0xAE, 0xA1, 0xE5, 0x88, 0x92, 0xE4,
      0xBB, 0xBB, 0xE5, 0x8A, 0xA1, 0xE5, 0xA4, 0xB1, 0xE8, 0xB4, 0xA5])"

definition GetSyncTaskError :: error where
  "GetSyncTaskError = New (utf8_lit [0xE8, 0x8E, 0xB7, 0xE5, 0x8F, 0x96, 0xE5, 0x90, 0x8C, 0xE6, 0xAD, 0xA5, 0xE4,
      0xBB, 0xBB, 0xE5, 0x8A, 0xA1, 0xE5, 0x88, 0x97, 0xE8, 0xA1, 0xA8, 0xE5, 0xA4, 0xB1,
      0xE8, 0xB4, 0xA5])"

definition GetRsyncTaskError :: error where
  "GetRsyncTaskError = New (utf8_lit [0xE8, 0x8E, 0xB7, 0xE5, 0x8F, 0x96, 0xE5, 0xBC, 0x82, 0xE6, 0xAD, 0xA5, 0xE4,
      0xBB, 0xBB, 0xE5, 0x8A, 0xA1, 0xE5, 0x88, 0x97, 0xE8, 0xA1, 0xA8, 0xE5, 0xA4, 0xB1,
      0xE8, 0xB4, 0xA5])"

definition GetRsyncTaskResult :: error where
  "GetRsyncTaskResult = New (utf8_lit [0xE8, 0x8E, 0xB7, 0xE5, 0x8F, 0x96, 0xE5, 0xBC, 0x82, 0xE6, 0xAD, 0xA5, 0xE4,
      0xBB, 0xBB, 0xE5, 0x8A, 0xA1, 0xE7, 0xBB, 0x93, 0xE6, 0x9E, 0x9C, 0xE5, 0xA4, 0xB1,
      0xE8, 0xB4, 0xA5])"

lemmas error_defs = DBError_def AuthError_def GetCronError_def GetSyncTaskError_def
  GetRsyncTaskError_def GetRsyncTaskResult_def New_def

text \<open>The texts differ, so a caller can tell the errors apart by \<open>Error()\<close>.\<close>

lemma error_values_distinct:
  "distinct [DBError, AuthError, GetCronError, GetSyncTaskError, GetRsyncTaskError,
     GetRsyncTaskResult]"
  by (simp add: error_defs utf8_lit_def)

lemma Error_New [simp]: "Error (New m) = m"
  by (simp add: Error_def New_def)

end
