(* ===== verification/Net_Conn.thy ===== *)
theory Net_Conn
  imports Go_Errors
begin

text \<open>
  A TCP connection (Go's \<open>net.Conn\<close>) as the program sees it: the segments that are still to be
  read, the outcomes of the writes to come, what has been written, the two deadlines.  A read
  with an empty script blocks; a timeout is an \<open>InErr\<close> event.
\<close>

datatype in_event = InData "byte list" | InErr error
datatype out_event = OutOk | OutErr nat error

record conn =
  inbound :: "in_event list"
  write_script :: "out_event list"
  outbound :: "byte list"
  read_deadline :: "int option"
  write_deadline :: "int option"
  closed :: bool

datatype read_result = ReadData "byte list" | ReadErr error | ReadBlocks

text \<open>\<open>Read\<close> into a buffer of \<open>n\<close> bytes: a longer segment is delivered in pieces.\<close>

definition conn_Read :: "nat \<Rightarrow> conn \<Rightarrow> read_result \<times> conn" where
  "conn_Read n k =
     (case inbound k of
        [] \<Rightarrow> (ReadBlocks, k)
      | InErr e # evs \<Rightarrow> (ReadErr e, k\<lparr>inbound := evs\<rparr>)
      | InData b # evs \<Rightarrow>
          if length b \<le> n then (ReadData b, k\<lparr>inbound := evs\<rparr>)
          else (ReadData (take n b), k\<lparr>inbound := InData (drop n b) # evs\<rparr>))"

text \<open>
  \<open>Write\<close>: on an error some prefix of the packet may have gone out; nothing goes out after \<open>Close\<close>
  (the addresses Go puts in front of that error's text are left out).  The program does not read
  from a connection it has closed.
\<close>

definition ErrNetClosing :: error where
  "ErrNetClosing = ExtError ''use of closed network connection''"

definition conn_Write :: "byte list \<Rightarrow> conn \<Rightarrow> error option \<times> conn" where
  "conn_Write p k =
     (if closed k then (Some ErrNetClosing, k)
      else case write_script k of
        [] \<Rightarrow> (None, k\<lparr>outbound := outbound k @ p\<rparr>)
      | OutOk # evs \<Rightarrow> (None, k\<lparr>outbound := outbound k @ p, write_script := evs\<rparr>)
      | OutErr n e # evs \<Rightarrow>
          (Some e, k\<lparr>outbound := outbound k @ take n p, write_script := evs\<rparr>))"

definition conn_Close :: "conn \<Rightarrow> conn" where
  [simp]: "conn_Close k = k\<lparr>closed := True\<rparr>"

text \<open>A connection on which every write succeeds.\<close>

definition writable :: "conn \<Rightarrow> bool" where
  "writable k \<longleftrightarrow> \<not> closed k \<and> write_script k = []"

definition fresh_conn :: "in_event list \<Rightarrow> conn" where
  "fresh_conn evs =
     \<lparr>inbound = evs, write_script = [], outbound = [], read_deadline = None,
      write_deadline = None, closed = False\<rparr>"

text \<open>The bytes a script delivers before its first error, and how many reads it can still serve.\<close>

fun script_data :: "in_event list \<Rightarrow> byte list" where
  "script_data [] = []"
| "script_data (InErr e # evs) = []"
| "script_data (InData b # evs) = b @ script_data evs"

fun script_work :: "in_event list \<Rightarrow> nat" where
  "script_work [] = 0"
| "script_work (InErr e # evs) = Suc (script_work evs)"
| "script_work (InData b # evs) = Suc (length b + script_work evs)"

lemma conn_Write_writable [simp]:
  "writable k \<Longrightarrow> conn_Write p k = (None, k\<lparr>outbound := outbound k @ p\<rparr>)"
  by (simp add: conn_Write_def writable_def)

lemma writable_simps [simp]:
  "writable (k\<lparr>write_deadline := d\<rparr>) = writable k"
  "writable (k\<lparr>read_deadline := d\<rparr>) = writable k"
  "writable (k\<lparr>outbound := b\<rparr>) = writable k"
  "writable (fresh_conn evs)"
  by (simp_all add: writable_def fresh_conn_def)

text \<open>Every write puts a prefix of the packet on the wire, and all of it when it succeeds.\<close>

lemma conn_Write_cases:
  obtains k' where "conn_Write p k = (None, k')" and "outbound k' = outbound k @ p"
  | n e k' where "conn_Write p k = (Some e, k')" and "outbound k' = outbound k @ take n p"
  by (fastforce simp: conn_Write_def intro: exI [of _ 0] split: if_splits list.splits out_event.splits)

lemma conn_Read_Data:
  assumes "conn_Read n k = (ReadData b, k')" and "0 < n"
  shows "script_data (inbound k) = b @ script_data (inbound k')"
    and "script_work (inbound k') < script_work (inbound k)"
    and "length b \<le> n"
  using assms
  by (auto simp: conn_Read_def split: list.splits in_event.splits if_splits)

lemma conn_Read_blocks_iff: "fst (conn_Read n k) = ReadBlocks \<longleftrightarrow> inbound k = []"
  by (auto simp: conn_Read_def split: list.splits in_event.splits)

lemma conn_Read_cong:
  "inbound k = inbound k' \<Longrightarrow>
     fst (conn_Read n k) = fst (conn_Read n k')
     \<and> inbound (snd (conn_Read n k)) = inbound (snd (conn_Read n k'))"
  by (auto simp: conn_Read_def split: list.splits in_event.splits)

lemma conn_Read_frame:
  "conn_Read n k = (r, k') \<Longrightarrow> outbound k' = outbound k \<and> write_script k' = write_script k
     \<and> closed k' = closed k \<and> read_deadline k' = read_deadline k \<and> write_deadline k' = write_deadline k"
  by (auto simp: conn_Read_def split: list.splits in_event.splits if_splits)

lemma conn_Read_deadline:
  "conn_Read n (k\<lparr>read_deadline := d\<rparr>) = (case conn_Read n k of (r, k') \<Rightarrow> (r, k'\<lparr>read_deadline := d\<rparr>))"
  by (auto simp: conn_Read_def split: list.splits in_event.splits)

lemma conn_Read_has_data:
  assumes "script_data (inbound k) \<noteq> []"
  shows "\<exists>b k'. conn_Read n k = (ReadData b, k')"
  using assms by (cases "inbound k" rule: script_data.cases) (auto simp: conn_Read_def)

text \<open>A connection on which no write is cut in the middle: it takes a whole packet or nothing of it.\<close>

fun whole_write :: "out_event \<Rightarrow> bool" where
  "whole_write OutOk = True"
| "whole_write (OutErr n e) = (n = 0)"

definition whole_writes :: "conn \<Rightarrow> bool" where
  "whole_writes k = list_all whole_write (write_script k)"

lemma conn_Write_whole:
  assumes "conn_Write p k = (err, k')" and "whole_writes k"
  shows "whole_writes k'" and "inbound k' = inbound k"
    and "outbound k' = outbound k @ p \<or> outbound k' = outbound k"
  using assms
  by (auto simp: conn_Write_def whole_writes_def split: if_splits list.splits out_event.splits)

lemma whole_writes_simps [simp]:
  "whole_writes (k\<lparr>write_deadline := d\<rparr>) = whole_writes k"
  "whole_writes (k\<lparr>read_deadline := d\<rparr>) = whole_writes k"
  "whole_writes (k\<lparr>inbound := evs\<rparr>) = whole_writes k"
  "whole_writes (k\<lparr>closed := b\<rparr>) = whole_writes k"
  "whole_writes (fresh_conn evs)"
  by (simp_all add: whole_writes_def fresh_conn_def)

end
