(* ===== verification/Framing.thy ===== *)
theory Framing
  imports Msg Net_Conn
begin

text \<open>
  The framing both ends of a connection use: four bytes of payload length, four bytes of type,
  the payload.  Server and agent each have their own reader loop \<open>GetMsg\<close>; the locale
  \<open>frame_reader\<close> states what one turn of such a loop does and derives, once, what the loop makes
  of a stream of packets, however the network cuts it into segments.
\<close>

section \<open>Packets and turns of the loop\<close>

text \<open>The bytes of a packet, as \<open>SendMsg\<close> builds them.\<close>

definition packet :: "u32 \<Rightarrow> byte list \<Rightarrow> byte list" where
  "packet ty p = BigEndian_PutUint32 (of_nat (length p)) @ BigEndian_PutUint32 ty @ p"

text \<open>How one turn of the loop in \<open>GetMsg\<close> ends.\<close>

datatype 's turn =
    Again 's
  | Return "Msg result" 's
  | Blocks 's
  | TurnPanics

text \<open>How a call of \<open>GetMsg\<close> ends, given one clock reading (and whatever else the environment
  supplies) per turn; \<open>Cut\<close> says that the given readings were used up.\<close>

datatype ('e, 's) got =
    Got "Msg result" 's "'e list"
  | Waiting 's
  | Crashed
  | Cut 's

definition mk_msg :: "u32 \<Rightarrow> byte list \<Rightarrow> Msg" where
  "mk_msg ty p = \<lparr>MsgType = ty, MsgData = p, MsgProto = None\<rparr>"

text \<open>The length field at the head of a buffer, 0 while fewer than four bytes are there.\<close>

definition head_length :: "byte list \<Rightarrow> u32 option" where
  "head_length b = (if length b \<ge> 4 then Option.bind (go_slice 0 4 b) BigEndian_Uint32 else Some 0)"

lemma head_length_eq: "head_length b = (if length b \<ge> 4 then BigEndian_Uint32 b else Some 0)"
  by (simp add: head_length_def go_slice_def)

lemma head_length_Some: "\<exists>v. head_length b = Some v"
  using BigEndian_Uint32_Some [of b] by (simp add: head_length_eq)

lemma go_slice_head:
  "4 \<le> length b \<Longrightarrow> Option.bind (go_slice 0 4 b) BigEndian_Uint32 = Some (the (head_length b))"
  using BigEndian_Uint32_Some [of b] by (auto simp: go_slice_def head_length_eq)

lemma length_packet [simp]: "length (packet ty p) = 8 + length p"
  by (simp add: packet_def)

lemma packet_head: "BigEndian_Uint32 (packet ty p @ rest) = Some (of_nat (length p))"
  by (simp add: packet_def)

lemma packet_type: "BigEndian_Uint32 (take 4 (drop 4 (packet ty p @ rest))) = Some ty"
  by (simp add: packet_def)

lemma packet_payload: "take (length p) (drop 8 (packet ty p @ rest)) = p"
  by (simp add: packet_def)

text \<open>
  The bytes a reader has still to consume before the first error of its connection, a bound on
  the reads that are left, and what a reader keeps true between its buffer and its length field.
\<close>

definition pending :: "byte list \<Rightarrow> conn \<Rightarrow> byte list" where
  "pending b k = b @ script_data (inbound k)"

definition conn_work :: "conn \<Rightarrow> nat" where
  "conn_work k = script_work (inbound k)"

definition frame_inv :: "byte list \<Rightarrow> u32 \<Rightarrow> bool" where
  "frame_inv b l \<longleftrightarrow> length b < 2 ^ 32 \<and> (length b \<ge> 4 \<longrightarrow> BigEndian_Uint32 b = Some l)"

lemma frame_inv_packet:
  assumes "frame_inv b l" and "pending b k = packet ty p @ rest" and "length p + 264 \<le> 2 ^ 32"
  shows "4 \<le> length b \<Longrightarrow> l = of_nat (length p)"
    and "4 \<le> length b \<Longrightarrow> unat l = length p"
    and "4 \<le> length b \<Longrightarrow> unat (l + 8) = length p + 8"
    and "4 \<le> length b \<Longrightarrow> l + 8 > of_nat (length b) \<longleftrightarrow> length b < length p + 8"
proof -
  assume 4: "4 \<le> length b"
  have "BigEndian_Uint32 b = BigEndian_Uint32 (pending b k)"
    using 4 by (simp add: pending_def BigEndian_Uint32_append)
  then show l: "l = of_nat (length p)"
    using 4 assms(1,2) by (simp add: frame_inv_def packet_head)
  then show u: "unat l = length p"
    using assms(3) by (simp add: unat_of_nat take_bit_nat_eq_self)
  then show u8: "unat (l + 8) = length p + 8"
    using assms(3) by (simp add: unat_word_ariths)
  have "unat (of_nat (length b) :: u32) = length b"
    using assms(1) by (simp add: frame_inv_def unat_of_nat take_bit_nat_eq_self)
  then show "l + 8 > of_nat (length b) \<longleftrightarrow> length b < length p + 8"
    by (simp add: word_less_nat_alt u8)
qed

text \<open>The slice expressions of the last branch of the loop, when they are in bounds.\<close>

lemma frame_slices:
  assumes "8 \<le> length rb" and "8 \<le> unat (8 + l :: u32)" and "unat (8 + l) \<le> length rb"
    and "length rb < 2 ^ 32"
  shows "Option.bind (go_slice 4 8 rb) BigEndian_Uint32 =
      Some (the (BigEndian_Uint32 (take 4 (drop 4 rb))))"
    and "go_slice (unat (8 + l)) (length rb) rb = Some (drop (unat (8 + l)) rb)"
    and "l = 0 \<Longrightarrow> (if of_nat (length rb) = 8 + l then Some []
      else go_slice (unat (8 + l)) (length rb) rb) = Some (drop (unat (8 + l)) rb)"
    and "go_slice 8 (unat (8 + l)) rb = Some (take (unat l) (drop 8 rb))"
proof -
  have "4 \<le> length (take 4 (drop 4 rb))" using assms(1) by simp
  then show "Option.bind (go_slice 4 8 rb) BigEndian_Uint32 =
      Some (the (BigEndian_Uint32 (take 4 (drop 4 rb))))"
    using BigEndian_Uint32_Some assms(1) by (fastforce simp: go_slice_def)
  show s: "go_slice (unat (8 + l)) (length rb) rb = Some (drop (unat (8 + l)) rb)"
    using assms(3) by (simp add: go_slice_def)
  have "length rb = 8" if "l = 0" "of_nat (length rb) = (8 :: u32)"
  proof -
    have "unat (of_nat (length rb) :: u32) = 8" using that(2) by simp
    then show ?thesis using assms(4) by (simp add: unat_of_nat take_bit_nat_eq_self)
  qed
  with s show "l = 0 \<Longrightarrow> (if of_nat (length rb) = 8 + l then Some []
      else go_slice (unat (8 + l)) (length rb) rb) = Some (drop (unat (8 + l)) rb)"
    by auto
  have "unat l < 2 ^ 32" using unsigned_less [of l, where ?'a = nat] by simp
  with assms(2) have "unat (8 + l) = 8 + unat l"
    by (auto simp: unat_word_ariths mod_if le_mod_geq split: if_splits)
  then show "go_slice 8 (unat (8 + l)) rb = Some (take (unat l) (drop 8 rb))"
    using assms(3) by (simp add: go_slice_def)
qed

section \<open>The reader loop\<close>

text \<open>The messages that up to \<open>n\<close> successive calls of a reader return.\<close>

fun deliver :: "('e list \<Rightarrow> 's \<Rightarrow> ('e, 's) got) \<Rightarrow> nat \<Rightarrow> 'e list \<Rightarrow> 's \<Rightarrow> Msg list" where
  "deliver get 0 es s = []"
| "deliver get (Suc n) es s =
     (case get es s of Got (Inr m) s' es' \<Rightarrow> m # deliver get n es' s' | _ \<Rightarrow> [])"

definition packets :: "(u32 \<times> byte list) list \<Rightarrow> byte list" where
  "packets ms = concat (map (\<lambda>(ty, p). packet ty p) ms)"

locale frame_reader =
  fixes step :: "'e \<Rightarrow> 's \<Rightarrow> 's turn"
    and get :: "'e list \<Rightarrow> 's \<Rightarrow> ('e, 's) got"
    and ok :: "'e \<Rightarrow> 's \<Rightarrow> bool"
    and buf :: "'s \<Rightarrow> byte list"
    and lth :: "'s \<Rightarrow> u32"
    and con :: "'s \<Rightarrow> conn"
  assumes get_Nil: "get [] s = Cut s"
    and get_Cons: "get (e # es) s =
      (case step e s of
         Again s' \<Rightarrow> get es s'
       | Return r s' \<Rightarrow> Got r s' es
       | Blocks s' \<Rightarrow> Waiting s'
       | TurnPanics \<Rightarrow> Crashed)"
    and step_read_data:
      "ok e s \<Longrightarrow> length (buf s) < 4 \<or> lth s + 8 > of_nat (length (buf s)) \<Longrightarrow>
       conn_Read 256 (con s) = (ReadData b, k) \<Longrightarrow>
       \<exists>s'. step e s = Again s' \<and> buf s' = buf s @ b \<and> inbound (con s') = inbound k \<and>
         (\<forall>e'. ok e' s' = ok e' s) \<and>
         Some (lth s') = (if length (buf s) < 4 \<and> length (buf s @ b) \<ge> 4
                          then head_length (buf s @ b) else Some (lth s))"
    and step_read_err:
      "ok e s \<Longrightarrow> length (buf s) < 4 \<or> lth s + 8 > of_nat (length (buf s)) \<Longrightarrow>
       conn_Read 256 (con s) = (ReadErr err, k) \<Longrightarrow>
       \<exists>s'. step e s = Return (Inl err) s' \<and> buf s' = buf s"
    and step_read_blocks:
      "ok e s \<Longrightarrow> length (buf s) < 4 \<or> lth s + 8 > of_nat (length (buf s)) \<Longrightarrow>
       conn_Read 256 (con s) = (ReadBlocks, k) \<Longrightarrow> \<exists>s'. step e s = Blocks s' \<and> buf s' = buf s"
    and step_complete:
      "ok e s \<Longrightarrow> 8 \<le> length (buf s) \<Longrightarrow> \<not> lth s + 8 > of_nat (length (buf s)) \<Longrightarrow>
       8 \<le> unat (8 + lth s) \<Longrightarrow> unat (8 + lth s) \<le> length (buf s) \<Longrightarrow>
       length (buf s) < 2 ^ 32 \<Longrightarrow>
       \<exists>s'. step e s =
           Return (Inr (mk_msg (the (BigEndian_Uint32 (take 4 (drop 4 (buf s)))))
             (take (unat (lth s)) (drop 8 (buf s))))) s' \<and>
         buf s' = drop (unat (8 + lth s)) (buf s) \<and> inbound (con s') = inbound (con s) \<and>
         (\<forall>e'. ok e' s' = ok e' s) \<and> Some (lth s') = head_length (buf s')"
    and step_overflow:
      "ok e s \<Longrightarrow> 4 \<le> length (buf s) \<Longrightarrow> \<not> lth s + 8 > of_nat (length (buf s)) \<Longrightarrow>
       unat (8 + lth s) < 8 \<Longrightarrow> lth s \<noteq> 0 \<Longrightarrow> step e s = TurnPanics"
    and step_again: "step e s = Again s' \<Longrightarrow> conn_work (con s') < conn_work (con s)"
begin

lemma step_reads:
  assumes inv: "frame_inv (buf s) (lth s)" and ok: "ok e s"
    and pend: "pending (buf s) (con s) = packet ty p @ rest" and small: "length p + 264 \<le> 2 ^ 32"
    and short: "length (buf s) < 8 + length p"
  shows "\<exists>s'. step e s = Again s' \<and> frame_inv (buf s') (lth s') \<and> (\<forall>e'. ok e' s' = ok e' s) \<and>
    pending (buf s') (con s') = packet ty p @ rest \<and> conn_work (con s') < conn_work (con s)"
proof -
  have cond: "length (buf s) < 4 \<or> lth s + 8 > of_nat (length (buf s))"
    using frame_inv_packet(4) [OF inv pend small] short by (metis add.commute not_le)
  have "script_data (inbound (con s)) \<noteq> []"
    using pend short by (metis append_Nil2 length_append length_packet pending_def
        trans_less_add1 less_irrefl)
  then obtain b k where rd: "conn_Read 256 (con s) = (ReadData b, k)"
    using conn_Read_has_data by blast
  note d = conn_Read_Data [OF rd]
  from step_read_data [OF ok cond rd] obtain s' where
    s': "step e s = Again s'" "buf s' = buf s @ b" "inbound (con s') = inbound k"
      "\<forall>e'. ok e' s' = ok e' s"
      "Some (lth s') = (if length (buf s) < 4 \<and> length (buf s @ b) \<ge> 4
                        then head_length (buf s @ b) else Some (lth s))"
    by blast
  have "frame_inv (buf s') (lth s')"
    using s' d(3) inv short small
    by (auto simp: frame_inv_def head_length_eq BigEndian_Uint32_append split: if_splits)
  moreover have "pending (buf s') (con s') = packet ty p @ rest"
    using s' d(1) pend by (simp add: pending_def)
  ultimately show ?thesis
    using s' d(2) ok by (auto simp: conn_work_def)
qed

lemma step_returns:
  assumes inv: "frame_inv (buf s) (lth s)" and ok: "ok e s"
    and pend: "pending (buf s) (con s) = packet ty p @ rest" and small: "length p + 264 \<le> 2 ^ 32"
    and full: "8 + length p \<le> length (buf s)"
  shows "\<exists>s'. step e s = Return (Inr (mk_msg ty p)) s' \<and> frame_inv (buf s') (lth s') \<and>
    (\<forall>e'. ok e' s' = ok e' s) \<and> pending (buf s') (con s') = rest \<and>
    conn_work (con s') = conn_work (con s)"
proof -
  note fl = frame_inv_packet [OF inv pend small]
  have l: "lth s = of_nat (length p)" "unat (lth s) = length p" "unat (8 + lth s) = 8 + length p"
    using fl full by (auto simp: add.commute)
  obtain r where r: "buf s = packet ty p @ r" "rest = r @ script_data (inbound (con s))"
    using pend full
    by (metis append_eq_append_conv_if append_take_drop_id length_packet pending_def)
  have c: "\<not> lth s + 8 > of_nat (length (buf s))" "length (buf s) < 2 ^ 32"
    using fl full inv by (auto simp: frame_inv_def)
  have "8 \<le> length (buf s)" "8 \<le> unat (8 + lth s)" "unat (8 + lth s) \<le> length (buf s)"
    using full l by auto
  from step_complete [OF ok this(1) c(1) this(2,3) c(2)] obtain s' where
    s': "step e s = Return (Inr (mk_msg (the (BigEndian_Uint32 (take 4 (drop 4 (buf s)))))
           (take (unat (lth s)) (drop 8 (buf s))))) s'"
      "buf s' = drop (unat (8 + lth s)) (buf s)" "inbound (con s') = inbound (con s)"
      "\<forall>e'. ok e' s' = ok e' s" "Some (lth s') = head_length (buf s')"
    by blast
  have b': "buf s' = r" using s'(2) l r(1) by simp
  have "step e s = Return (Inr (mk_msg ty p)) s'"
    using s'(1) by (simp only: l(2) r(1) packet_type packet_payload option.sel)
  moreover have "frame_inv (buf s') (lth s')"
    using s'(5) b' r(1) c(2) by (auto simp: frame_inv_def head_length_eq)
  ultimately show ?thesis
    using s' ok b' r(2) by (auto simp: pending_def conn_work_def)
qed

text \<open>One call of \<open>GetMsg\<close> returns the next packet of the stream and leaves the rest.\<close>

theorem get_packet:
  assumes "frame_inv (buf s) (lth s)" and "\<And>e. e \<in> set es \<Longrightarrow> ok e s"
    and "pending (buf s) (con s) = packet ty p @ rest" and "length p + 264 \<le> 2 ^ 32"
    and "conn_work (con s) < length es"
  shows "\<exists>s' es'. get es s = Got (Inr (mk_msg ty p)) s' es' \<and> frame_inv (buf s') (lth s') \<and>
    (\<forall>e. ok e s' = ok e s) \<and> set es' \<subseteq> set es \<and> pending (buf s') (con s') = rest \<and>
    length es + conn_work (con s') \<le> Suc (length es') + conn_work (con s)"
  using assms
proof (induction es arbitrary: s)
  case (Cons e es)
  have e: "ok e s" using Cons.prems(2) by simp
  show ?case
  proof (cases "length (buf s) < 8 + length p")
    case True
    from step_reads [OF Cons.prems(1) e Cons.prems(3,4) True] obtain s1 where
      s1: "step e s = Again s1" "frame_inv (buf s1) (lth s1)" "\<forall>e'. ok e' s1 = ok e' s"
        "pending (buf s1) (con s1) = packet ty p @ rest" "conn_work (con s1) < conn_work (con s)"
      by blast
    with Cons.prems have "\<exists>s' es'. get es s1 = Got (Inr (mk_msg ty p)) s' es' \<and>
      frame_inv (buf s') (lth s') \<and> (\<forall>e. ok e s' = ok e s1) \<and> set es' \<subseteq> set es \<and>
      pending (buf s') (con s') = rest \<and>
      length es + conn_work (con s') \<le> Suc (length es') + conn_work (con s1)"
      by (intro Cons.IH) auto
    with s1 show ?thesis by (fastforce simp: get_Cons)
  next
    case False
    then have "8 + length p \<le> length (buf s)" by simp
    from step_returns [OF Cons.prems(1) e Cons.prems(3,4) this] show ?thesis
      by (auto simp: get_Cons)
  qed
qed simp

text \<open>Successive calls deliver exactly the packets of the stream, in order.\<close>

theorem get_stream:
  assumes "frame_inv (buf s) (lth s)" and "\<And>e. e \<in> set es \<Longrightarrow> ok e s"
    and "pending (buf s) (con s) = packets ms @ rest"
    and "\<forall>(ty, p) \<in> set ms. length p + 264 \<le> 2 ^ 32"
    and "conn_work (con s) + length ms \<le> length es"
  shows "deliver get (length ms) es s = map (\<lambda>(ty, p). mk_msg ty p) ms"
  using assms
proof (induction ms arbitrary: s es)
  case (Cons x ms)
  obtain ty p where x: "x = (ty, p)" by force
  have "pending (buf s) (con s) = packet ty p @ (packets ms @ rest)"
    and "length p + 264 \<le> 2 ^ 32" and "conn_work (con s) < length es"
    using Cons.prems x by (simp_all add: packets_def)
  from get_packet [OF Cons.prems(1,2) this] obtain s' es' where
    g: "get es s = Got (Inr (mk_msg ty p)) s' es'" "frame_inv (buf s') (lth s')"
      "\<forall>e. ok e s' = ok e s" "set es' \<subseteq> set es" "pending (buf s') (con s') = packets ms @ rest"
      "length es + conn_work (con s') \<le> Suc (length es') + conn_work (con s)"
    by blast
  have "deliver get (length ms) es' s' = map (\<lambda>(ty, p). mk_msg ty p) ms"
    using Cons.prems g by (intro Cons.IH) auto
  with g(1) x show ?case by simp
qed simp

text \<open>A call ends: with the script of the connection used up it has returned, waits or panics.\<close>

theorem get_ends:
  assumes "conn_work (con s) < length es"
  shows "\<not> (\<exists>s'. get es s = Cut s')"
  using assms
proof (induction es arbitrary: s)
  case (Cons e es)
  show ?case
  proof (cases "step e s")
    case (Again s1)
    with step_again [OF Again] Cons.prems have "\<not> (\<exists>s'. get es s1 = Cut s')" by (intro Cons.IH) simp
    with Again show ?thesis by (simp add: get_Cons)
  qed (simp_all add: get_Cons)
qed simp

text \<open>A length field within eight of the top of its range makes the reader panic.\<close>

theorem get_overflow:
  assumes "ok e s" and "length (buf s) < 2 ^ 32" and "8 \<le> length (buf s)"
    and "2 ^ 32 - 8 \<le> unat (lth s)"
  shows "get (e # es) s = Crashed"
proof -
  have u: "unat (lth s) < 2 ^ 32" using unsigned_less [of "lth s", where ?'a = nat] by simp
  have a: "unat (8 + lth s) < 8" "unat (lth s + 8) < 8"
    using assms(4) u by (auto simp: unat_word_ariths mod_if le_mod_geq)
  have "\<not> lth s + 8 > of_nat (length (buf s))"
    using a(2) assms(2,3) by (simp add: word_less_nat_alt unat_of_nat take_bit_nat_eq_self)
  moreover have "lth s \<noteq> 0" using assms(4) by auto
  ultimately show ?thesis
    using step_overflow [of e s] a(1) assms(1,3) by (simp add: get_Cons)
qed

end

end
