(* ===== verification/Channel.thy ===== *)
theory Channel
  imports Framing "HOL-Library.Sublist"
begin

text \<open>
  One direction of a connection: a writer that appends packets, a network that hands over the
  bytes written so far piece by piece, and a frame reader.  \<open>flows\<close> ties the packets written, the
  number of bytes handed over, the messages read and the reader's buffer together; the lemmas show
  that writing, handing over and every turn of a reader keep it.
\<close>

section \<open>Packets of a bounded size\<close>

definition small :: "(u32 \<times> byte list) list \<Rightarrow> bool" where
  "small ms \<longleftrightarrow> list_all (\<lambda>(ty, p). length p + 264 \<le> 2 ^ 32) ms"

definition as_msgs :: "(u32 \<times> byte list) list \<Rightarrow> Msg list" where
  "as_msgs ms = map (\<lambda>(ty, p). mk_msg ty p) ms"

lemma small_simps [simp]:
  "small []" "small ((ty, p) # ms) \<longleftrightarrow> length p + 264 \<le> 2 ^ 32 \<and> small ms"
  "small (ms @ ms') \<longleftrightarrow> small ms \<and> small ms'"
  by (simp_all add: small_def)

lemma as_msgs_simps [simp]:
  "as_msgs [] = []" "as_msgs ((ty, p) # ms) = mk_msg ty p # as_msgs ms"
  "as_msgs (ms @ ms') = as_msgs ms @ as_msgs ms'" "length (as_msgs ms) = length ms"
  by (simp_all add: as_msgs_def)

lemma packets_simps [simp]:
  "packets [] = []" "packets ((ty, p) # ms) = packet ty p @ packets ms"
  "packets (ms @ ms') = packets ms @ packets ms'"
  by (simp_all add: packets_def)

lemma small_bound: "length (packets ms) + 256 \<le> 2 ^ 32 \<Longrightarrow> small ms"
  by (induction ms) (auto simp: packets_def)

section \<open>Turns of a reader in front of an unfinished stream\<close>

lemma frame_inv_stream:
  assumes "frame_inv b l" and "b @ rest = packets ms" and "small ms" and "4 \<le> length b"
  obtains ty p ms' where "ms = (ty, p) # ms'"
    and "l + 8 > of_nat (length b) \<longleftrightarrow> length b < length p + 8" and "length p + 264 \<le> 2 ^ 32"
proof (cases ms)
  case Nil
  with assms(2,4) show ?thesis by simp
next
  case (Cons x ms')
  obtain ty p where x: "x = (ty, p)" by force
  let ?k = "\<lparr>inbound = [InData rest], write_script = [], outbound = [], read_deadline = None,
    write_deadline = None, closed = False\<rparr>"
  have "pending b ?k = packet ty p @ packets ms'"
    using assms(2) Cons x by (simp add: pending_def)
  moreover have sm: "length p + 264 \<le> 2 ^ 32" using assms(3) Cons x by simp
  ultimately have "l + 8 > of_nat (length b) \<longleftrightarrow> length b < length p + 8"
    using frame_inv_packet(4) [OF assms(1)] assms(4) by blast
  with Cons x sm show ?thesis by (intro that) simp_all
qed

context frame_reader
begin

lemma step_stream_reads:
  assumes inv: "frame_inv (buf s) (lth s)" and ok: "ok e s"
    and str: "pending (buf s) (con s) @ fut = packets ms" and sm: "small ms"
    and cond: "length (buf s) < 4 \<or> lth s + 8 > of_nat (length (buf s))"
  shows "(\<exists>s'. step e s = Again s' \<and> frame_inv (buf s') (lth s') \<and>
       pending (buf s') (con s') = pending (buf s) (con s)) \<or>
    (\<exists>err s'. step e s = Return (Inl err) s') \<or> (\<exists>s'. step e s = Blocks s')"
proof (cases "conn_Read 256 (con s)")
  case (Pair rr k)
  show ?thesis
  proof (cases rr)
    case (ReadData b)
    with Pair have rd: "conn_Read 256 (con s) = (ReadData b, k)" by simp
    note d = conn_Read_Data [OF rd]
    have len: "length (buf s) + 256 < 2 ^ 32"
    proof (cases "length (buf s) < 4")
      case False
      then have 4: "4 \<le> length (buf s)" by simp
      have st: "buf s @ (script_data (inbound (con s)) @ fut) = packets ms"
        using str by (simp add: pending_def)
      obtain ty p ms' where "ms = (ty, p) # ms'"
        "lth s + 8 > of_nat (length (buf s)) \<longleftrightarrow> length (buf s) < length p + 8"
        "length p + 264 \<le> 2 ^ 32" by (rule frame_inv_stream [OF inv st sm 4])
      with cond False show ?thesis by simp
    qed simp
    from step_read_data [OF ok cond rd] obtain s' where
      s': "step e s = Again s'" "buf s' = buf s @ b" "inbound (con s') = inbound k"
        "Some (lth s') = (if length (buf s) < 4 \<and> length (buf s @ b) \<ge> 4
                          then head_length (buf s @ b) else Some (lth s))"
      by blast
    have "frame_inv (buf s') (lth s')"
      using s' d(3) inv len
      by (auto simp: frame_inv_def head_length_eq BigEndian_Uint32_append split: if_splits)
    moreover have "pending (buf s') (con s') = pending (buf s) (con s)"
      using s' d(1) by (simp add: pending_def)
    ultimately show ?thesis using s'(1) by blast
  qed (use Pair step_read_err [OF ok cond] step_read_blocks [OF ok cond] in blast)+
qed

lemma step_stream_returns:
  assumes inv: "frame_inv (buf s) (lth s)" and ok: "ok e s"
    and str: "pending (buf s) (con s) @ fut = packets ms" and sm: "small ms"
    and cond: "\<not> (length (buf s) < 4 \<or> lth s + 8 > of_nat (length (buf s)))"
  shows "\<exists>ty p ms' s'. ms = (ty, p) # ms' \<and> step e s = Return (Inr (mk_msg ty p)) s' \<and>
    frame_inv (buf s') (lth s') \<and> pending (buf s) (con s) = packet ty p @ pending (buf s') (con s')"
proof -
  have st: "buf s @ (script_data (inbound (con s)) @ fut) = packets ms" "4 \<le> length (buf s)"
    using str cond by (simp_all add: pending_def)
  obtain ty p ms' where m: "ms = (ty, p) # ms'" "length p + 264 \<le> 2 ^ 32"
    and "lth s + 8 > of_nat (length (buf s)) \<longleftrightarrow> length (buf s) < length p + 8"
    by (rule frame_inv_stream [OF inv st(1) sm st(2)])
  with cond have len: "length p + 8 \<le> length (buf s)" by simp
  have "length (packet ty p) \<le> length (pending (buf s) (con s))"
    using len by (simp add: pending_def)
  then have "take (length (packet ty p)) (pending (buf s) (con s)) =
      take (length (packet ty p)) (pending (buf s) (con s) @ fut)" by simp
  also have "\<dots> = packet ty p" unfolding str m(1) by simp
  finally have "take (length (packet ty p)) (pending (buf s) (con s)) = packet ty p" .
  then obtain rest where r: "pending (buf s) (con s) = packet ty p @ rest"
    by (metis append_take_drop_id)
  from step_returns [OF inv ok r m(2)] m(1) len r show ?thesis by (fastforce simp: add.commute)
qed

text \<open>
  A turn in front of a stream of small packets, however much of it has arrived: it reads on, returns
  the first packet, gives up or waits, and it never panics.
\<close>

lemma step_stream:
  assumes "frame_inv (buf s) (lth s)" and "ok e s"
    and "pending (buf s) (con s) @ fut = packets ms" and "small ms"
  obtains (Again) s' where "step e s = Again s'" and "frame_inv (buf s') (lth s')"
      and "pending (buf s') (con s') = pending (buf s) (con s)"
  | (Got) ty p ms' s' where "ms = (ty, p) # ms'" and "step e s = Return (Inr (mk_msg ty p)) s'"
      and "frame_inv (buf s') (lth s')"
      and "pending (buf s) (con s) = packet ty p @ pending (buf s') (con s')"
  | (Fails) err s' where "step e s = Return (Inl err) s'"
  | (Waits) s' where "step e s = Blocks s'"
  using step_stream_reads [OF assms] step_stream_returns [OF assms] by blast

end

section \<open>Channels\<close>

text \<open>
  \<open>flows ms n got b l k\<close>: of the packets \<open>ms\<close> the writer has put on the connection, \<open>n\<close> bytes have
  been handed over; the reader, with buffer \<open>b\<close>, length field \<open>l\<close> and connection \<open>k\<close>, has returned the
  messages \<open>got\<close>, and everything else that was handed over is in its buffer or waits to be read.
\<close>

definition flows ::
    "(u32 \<times> byte list) list \<Rightarrow> nat \<Rightarrow> Msg list \<Rightarrow> byte list \<Rightarrow> u32 \<Rightarrow> conn \<Rightarrow> bool" where
  "flows ms n got b l k \<longleftrightarrow>
     (\<exists>done rest. ms = done @ rest \<and> small ms \<and> n \<le> length (packets ms) \<and> got = as_msgs done \<and>
        frame_inv b l \<and> take n (packets ms) = packets done @ pending b k)"

text \<open>No error has been reported to the reader yet.\<close>

fun data_event :: "in_event \<Rightarrow> bool" where
  "data_event (InData b) = True"
| "data_event (InErr e) = False"

definition no_error :: "conn \<Rightarrow> bool" where
  "no_error k = list_all data_event (inbound k)"

definition hand_over :: "in_event \<Rightarrow> conn \<Rightarrow> conn" where
  "hand_over ev k = k\<lparr>inbound := inbound k @ [ev]\<rparr>"

lemma script_data_snoc:
  "list_all data_event evs \<Longrightarrow>
     script_data (evs @ [InData b]) = script_data evs @ b"
  "script_data (evs @ [InErr e]) = script_data evs"
  by (induction evs rule: script_data.induct) auto

lemma pending_hand_over:
  "no_error k \<Longrightarrow> pending b (hand_over (InData d) k) = pending b k @ d"
  "pending b (hand_over (InErr e) k) = pending b k"
  by (simp_all add: pending_def hand_over_def no_error_def script_data_snoc)

lemma flows_start: "frame_inv b l \<Longrightarrow> pending b k = [] \<Longrightarrow> flows [] 0 [] b l k"
  by (simp add: flows_def)

lemma flows_write:
  assumes "flows ms n got b l k" and "small ms'"
  shows "flows (ms @ ms') n got b l k"
proof -
  from assms(1) obtain don rest where "ms = don @ rest" "small ms" "n \<le> length (packets ms)"
    "got = as_msgs don" "frame_inv b l" "take n (packets ms) = packets don @ pending b k"
    by (auto simp only: flows_def)
  with assms(2) show ?thesis
    unfolding flows_def by (intro exI [of _ don] exI [of _ "rest @ ms'"]) auto
qed

lemma flows_hand_over:
  assumes "flows ms n got b l k" and "no_error k" and "n + j \<le> length (packets ms)"
  shows "flows ms (n + j) got b l (hand_over (InData (take j (drop n (packets ms)))) k)"
  using assms by (auto simp: flows_def pending_hand_over take_add)

lemma flows_fault: "flows ms n got b l k \<Longrightarrow> flows ms n got b l (hand_over (InErr e) k)"
  by (auto simp: flows_def pending_hand_over)

lemma flows_prefix: "flows ms n got b l k \<Longrightarrow> prefix got (as_msgs ms)"
  by (auto simp: flows_def prefix_def)

text \<open>When everything written has been handed over and nothing is left to read, all of it was read.\<close>

lemma flows_all:
  assumes "flows ms (length (packets ms)) got b l k" and "pending b k = []"
  shows "got = as_msgs ms"
proof -
  from assms obtain don rest where d: "ms = don @ rest" "got = as_msgs don"
    "packets don @ packets rest = packets don" by (auto simp: flows_def)
  then have "rest = []" by (cases rest) (auto simp: packet_def BigEndian_PutUint32_def)
  with d show ?thesis by simp
qed

lemma flows_cong:
  "flows ms n got b l k \<Longrightarrow> inbound k' = inbound k \<Longrightarrow> flows ms n got b l k'"
  by (simp add: flows_def pending_def)

text \<open>
  A channel whose writer only writes small packets with the property \<open>P\<close>.  Once the reader has ended
  (\<open>rd\<close> is false) only what it has read until then is left.
\<close>

definition channel ::
    "(u32 \<times> byte list \<Rightarrow> bool) \<Rightarrow> byte list \<Rightarrow> nat \<Rightarrow> Msg list \<Rightarrow> bool \<Rightarrow> byte list \<Rightarrow> u32 \<Rightarrow> conn \<Rightarrow> bool"
where
  "channel P out n got rd b l k \<longleftrightarrow>
     (\<exists>ms. out = packets ms \<and> small ms \<and> list_all P ms \<and> n \<le> length out \<and> prefix got (as_msgs ms) \<and>
        (rd \<longrightarrow> flows ms n got b l k))"

lemma channel_start: "frame_inv b l \<Longrightarrow> pending b k = [] \<Longrightarrow> channel P [] 0 [] rd b l k"
  unfolding channel_def by (rule exI [of _ "[]"]) (simp add: flows_start)

lemma channel_write:
  assumes "channel P out n got rd b l k" and "small ms'" and "list_all P ms'"
  shows "channel P (out @ packets ms') n got rd b l k"
proof -
  from assms(1) obtain ms where "out = packets ms" "small ms" "list_all P ms" "n \<le> length out"
    "prefix got (as_msgs ms)" "rd \<longrightarrow> flows ms n got b l k" by (auto simp: channel_def)
  with assms(2,3) show ?thesis
    unfolding channel_def by (intro exI [of _ "ms @ ms'"]) (auto simp: flows_write)
qed

lemma channel_hand_over:
  assumes "channel P out n got rd b l k" and "no_error k" and "n + j \<le> length out"
  shows "channel P out (n + j) got rd b l (hand_over (InData (take j (drop n out))) k)"
  using assms by (auto simp: channel_def flows_hand_over)

lemma channel_fault: "channel P out n got rd b l k \<Longrightarrow> channel P out n got rd b l (hand_over (InErr e) k)"
  by (auto simp: channel_def flows_fault)

lemma channel_mono:
  assumes "channel P out n got rd b l k" and "\<And>x. P x \<Longrightarrow> Q x" and "rd' \<Longrightarrow> rd"
    and "rd' \<Longrightarrow> inbound k' = inbound k" and "rd' \<Longrightarrow> b' = b" and "rd' \<Longrightarrow> l' = l"
  shows "channel Q out n got rd' b' l' k'"
proof -
  from assms(1) obtain ms where ms: "out = packets ms" "small ms" "list_all P ms" "n \<le> length out"
    "prefix got (as_msgs ms)" "rd \<longrightarrow> flows ms n got b l k" by (auto simp: channel_def)
  have "list_all Q ms" using ms(3) assms(2) by (simp add: list_all_iff)
  moreover have "flows ms n got b' l' k'" if rd'
    using assms(3-6) [OF that] ms(6) by (auto intro: flows_cong)
  ultimately show ?thesis using ms unfolding channel_def by blast
qed

lemma channel_prefix:
  assumes "channel P out n got rd b l k"
  obtains ms where "out = packets ms" and "small ms" and "list_all P ms" and "prefix got (as_msgs ms)"
  using assms by (auto simp: channel_def)

lemma channel_all:
  assumes "channel P out (length out) got True b l k" and "pending b k = []"
  obtains ms where "out = packets ms" and "small ms" and "list_all P ms" and "got = as_msgs ms"
  using assms by (auto simp: channel_def dest: flows_all)

lemma as_msgs_in:
  "m \<in> set (as_msgs ms) \<Longrightarrow> \<exists>ty p. (ty, p) \<in> set ms \<and> m = mk_msg ty p"
  by (auto simp: as_msgs_def)

context frame_reader
begin

text \<open>Every turn of the reader keeps the channel, adds what it returns to the messages read, and
  never panics.\<close>

lemma flows_turn:
  assumes "flows ms n got (buf s) (lth s) (con s)" and "ok e s"
  shows "step e s = Again s' \<Longrightarrow> flows ms n got (buf s') (lth s') (con s')"
    and "step e s = Return (Inr m) s' \<Longrightarrow> flows ms n (got @ [m]) (buf s') (lth s') (con s')"
    and "step e s \<noteq> TurnPanics"
proof -
  from assms(1) obtain don rest where d: "ms = don @ rest" "small rest" "got = as_msgs don"
    "frame_inv (buf s) (lth s)" "take n (packets ms) = packets don @ pending (buf s) (con s)"
    "n \<le> length (packets ms)" "small don"
    by (auto simp: flows_def)
  have "packets don @ (pending (buf s) (con s) @ drop n (packets ms)) = packets don @ packets rest"
    by (metis append.assoc append_take_drop_id d(1,5) packets_simps(3))
  then have str: "pending (buf s) (con s) @ drop n (packets ms) = packets rest" by simp
  note st = step_stream [OF d(4) assms(2) str d(2)]
  show "flows ms n got (buf s') (lth s') (con s')" if "step e s = Again s'"
    by (rule st) (use that d in \<open>auto simp: flows_def\<close>)
  show "flows ms n (got @ [m]) (buf s') (lth s') (con s')" if t: "step e s = Return (Inr m) s'"
  proof (rule st)
    fix ty p ms' s1
    assume 1: "rest = (ty, p) # ms'" "step e s = Return (Inr (mk_msg ty p)) s1"
      "frame_inv (buf s1) (lth s1)"
      "pending (buf s) (con s) = packet ty p @ pending (buf s1) (con s1)"
    with t d show ?thesis
      unfolding flows_def by (intro exI [of _ "don @ [(ty, p)]"] exI [of _ ms']) auto
  qed (use t in simp_all)
  show "step e s \<noteq> TurnPanics" by (rule st) auto
qed

lemma channel_turn:
  assumes "channel P out n got True (buf s) (lth s) (con s)" and "ok e s"
  shows "step e s = Again s' \<Longrightarrow> channel P out n got True (buf s') (lth s') (con s')"
    and "step e s = Return (Inr m) s' \<Longrightarrow> channel P out n (got @ [m]) True (buf s') (lth s') (con s')"
    and "step e s \<noteq> TurnPanics"
proof -
  from assms(1) obtain ms where ms: "out = packets ms" "small ms" "list_all P ms" "n \<le> length out"
    "flows ms n got (buf s) (lth s) (con s)" by (auto simp: channel_def)
  note t = flows_turn [OF ms(5) assms(2)]
  show "channel P out n got True (buf s') (lth s') (con s')" if "step e s = Again s'"
    using t(1) [OF that] ms unfolding channel_def by (auto dest: flows_prefix)
  show "channel P out n (got @ [m]) True (buf s') (lth s') (con s')" if "step e s = Return (Inr m) s'"
    using t(2) [OF that] ms unfolding channel_def by (auto dest: flows_prefix)
  show "step e s \<noteq> TurnPanics" by (rule t(3))
qed

text \<open>
  When everything written has been handed over without an error, every turn brings the reader closer
  to having read it all.
\<close>

lemma step_drains:
  assumes fl: "flows ms (length (packets ms)) got (buf s) (lth s) (con s)" and ok: "ok e s"
    and ne: "no_error (con s)" and open_: "got \<noteq> as_msgs ms"
  shows "\<exists>s'. (step e s = Again s' \<or> (\<exists>m. step e s = Return (Inr m) s')) \<and> no_error (con s') \<and>
    (\<forall>e'. ok e' s' = ok e' s) \<and>
    2 * conn_work (con s') + length (buf s') < 2 * conn_work (con s) + length (buf s)"
proof -
  from fl obtain don rest where d: "ms = don @ rest" "small rest" "got = as_msgs don"
    "frame_inv (buf s) (lth s)" "packets rest = pending (buf s) (con s)" by (auto simp: flows_def)
  have "rest \<noteq> []" using open_ d(1,3) by auto
  then obtain ty p ms' where r: "rest = (ty, p) # ms'" by (metis list.exhaust surj_pair)
  then have sm: "length p + 264 \<le> 2 ^ 32" and pend: "pending (buf s) (con s) = packet ty p @ packets ms'"
    using d(2,5) by auto
  show ?thesis
  proof (cases "length (buf s) < 8 + length p")
    case True
    have cond: "length (buf s) < 4 \<or> lth s + 8 > of_nat (length (buf s))"
      using frame_inv_packet(4) [OF d(4) pend sm] True by (metis add.commute not_le)
    have "script_data (inbound (con s)) \<noteq> []"
      using pend True by (metis append_Nil2 length_append length_packet pending_def
          trans_less_add1 less_irrefl)
    then obtain b k where rd: "conn_Read 256 (con s) = (ReadData b, k)"
      using conn_Read_has_data by blast
    have k: "no_error k" "length b + 2 * script_work (inbound k) < 2 * script_work (inbound (con s))"
      using rd ne by (auto simp: conn_Read_def no_error_def split: list.splits in_event.splits if_splits)
    from step_read_data [OF ok cond rd] obtain s' where
      "step e s = Again s'" "buf s' = buf s @ b" "inbound (con s') = inbound k" "\<forall>e'. ok e' s' = ok e' s"
      by blast
    with k show ?thesis by (intro exI [of _ s']) (auto simp: no_error_def conn_work_def)
  next
    case False
    then have c: "8 \<le> length (buf s)" "\<not> lth s + 8 > of_nat (length (buf s))"
      "unat (8 + lth s) = length p + 8" "length (buf s) < 2 ^ 32"
      using frame_inv_packet [OF d(4) pend sm] d(4) by (auto simp: add.commute frame_inv_def)
    have "8 \<le> unat (8 + lth s)" "unat (8 + lth s) \<le> length (buf s)" using c(3) False by auto
    from step_complete [OF ok c(1,2) this c(4)] obtain s' where
      "step e s = Return (Inr (mk_msg (the (BigEndian_Uint32 (take 4 (drop 4 (buf s)))))
         (take (unat (lth s)) (drop 8 (buf s))))) s'"
      "buf s' = drop (unat (8 + lth s)) (buf s)" "inbound (con s') = inbound (con s)"
      "\<forall>e'. ok e' s' = ok e' s" by blast
    with ne c(1,3) show ?thesis by (intro exI [of _ s']) (auto simp: no_error_def conn_work_def)
  qed
qed

end

end
