(* ===== verification/Go_Time.thy ===== *)
theory Go_Time
  imports Go_Base
begin

text \<open>
  What the program uses of Go's package \<open>time\<close>: instants as nanoseconds since the Unix epoch,
  \<open>UnixNano\<close> with its 64-bit wrap-around, \<open>time.Parse\<close> for the one layout
  \<open>2006-01-02 15:04:05\<close> (which reads the text as UTC), and \<open>time.ParseDuration\<close> on the text
  \<open>fmt.Sprintf("-%ds", n)\<close>.
\<close>

section \<open>Instants\<close>

definition wrap64 :: "int \<Rightarrow> int" where
  "wrap64 i = sint (word_of_int i :: 64 word)"

definition second :: int where
  "second = 1000000000"

text \<open>\<open>time.Duration(n) * time.Second\<close>.\<close>

definition seconds :: "int \<Rightarrow> int" where
  "seconds n = wrap64 (n * second)"

definition UnixNano :: "int \<Rightarrow> int \<Rightarrow> int" where
  "UnixNano sec nsec = wrap64 (sec * second + nsec)"

section \<open>The calendar\<close>

definition isLeap :: "int \<Rightarrow> bool" where
  "isLeap year \<longleftrightarrow> year mod 4 = 0 \<and> (year mod 100 \<noteq> 0 \<or> year mod 400 = 0)"

definition daysIn :: "int \<Rightarrow> int \<Rightarrow> int" where
  "daysIn m year =
     (if m = 2 then (if isLeap year then 29 else 28)
      else if m = 4 \<or> m = 6 \<or> m = 9 \<or> m = 11 then 30 else 31)"

definition days_before_month :: "int \<Rightarrow> int \<Rightarrow> int" where
  "days_before_month year m = sum_list (map (\<lambda>k. daysIn k year) [1..m - 1])"

text \<open>Days from 1970-01-01 to the given date of the Gregorian calendar.\<close>

definition unix_days :: "int \<Rightarrow> int \<Rightarrow> int \<Rightarrow> int" where
  "unix_days year m d =
     (let y = year - 1
      in 365 * y + y div 4 - y div 100 + y div 400 - 719162 + days_before_month year m + (d - 1))"

definition unix_seconds :: "int \<Rightarrow> int \<Rightarrow> int \<Rightarrow> int \<Rightarrow> int \<Rightarrow> int \<Rightarrow> int" where
  "unix_seconds year m d h mi s = unix_days year m d * 86400 + h * 3600 + mi * 60 + s"

text \<open>The zero \<open>Time\<close> (January 1, year 1, UTC), which \<open>time.Parse\<close> returns with an error.\<close>

definition zero_time :: int where
  "zero_time = unix_seconds 1 1 1 0 0 0"

section \<open>time.Parse\<close>

definition two_digits :: "char \<Rightarrow> char \<Rightarrow> int option" where
  "two_digits a b =
     (case (digit_val a, digit_val b) of (Some x, Some y) \<Rightarrow> Some (10 * x + y) | _ \<Rightarrow> None)"

text \<open>\<open>getnum(s, fixed)\<close>: one or two digits, exactly two when \<open>fixed\<close>.\<close>

fun getnum :: "bool \<Rightarrow> string \<Rightarrow> (int \<times> string) option" where
  "getnum fixed [] = None"
| "getnum fixed [a] = (if fixed then None else map_option (\<lambda>x. (x, [])) (digit_val a))"
| "getnum fixed (a # b # s) =
     (case digit_val a of
        None \<Rightarrow> None
      | Some x \<Rightarrow>
          (case digit_val b of
             Some y \<Rightarrow> Some (10 * x + y, s)
           | None \<Rightarrow> if fixed then None else Some (x, b # s)))"

fun get_year :: "string \<Rightarrow> (int \<times> string) option" where
  "get_year (a # b # c # d # s) =
     (case (two_digits a b, two_digits c d) of
        (Some x, Some y) \<Rightarrow> Some (100 * x + y, s) | _ \<Rightarrow> None)"
| "get_year _ = None"

definition skip_char :: "char \<Rightarrow> string \<Rightarrow> string option" where
  "skip_char c s = (case s of x # r \<Rightarrow> if x = c then Some r else None | [] \<Rightarrow> None)"

text \<open>A blank in the layout matches any number of blanks (none only at the end of the text).\<close>

definition skip_blank :: "string \<Rightarrow> string option" where
  "skip_blank s = (if s \<noteq> [] \<and> hd s \<noteq> CHR '' '' then None else Some (dropWhile (\<lambda>c. c = CHR '' '') s))"

definition ranged :: "int \<Rightarrow> int \<Rightarrow> (int \<times> string) option \<Rightarrow> (int \<times> string) option" where
  "ranged lo hi r =
     (case r of None \<Rightarrow> None | Some (x, s) \<Rightarrow> if lo \<le> x \<and> x \<le> hi then Some (x, s) else None)"

text \<open>A fraction behind the seconds is accepted though the layout has none.\<close>

definition get_fraction :: "string \<Rightarrow> (int \<times> string) option" where
  "get_fraction s =
     (let ds = takeWhile (\<lambda>c. digit_val c \<noteq> None) (tl s)
      in if s \<noteq> [] \<and> hd s = CHR ''.'' \<and> ds \<noteq> [] then
           (case parse_digits 0 ds of
              Inr ns \<Rightarrow>
                if ns < second then Some (ns * 10 ^ (9 - length ds), drop (Suc (length ds)) s) else None
            | Inl _ \<Rightarrow> None)
         else Some (0, s))"

text \<open>The result is the instant as Unix seconds and nanoseconds; \<open>None\<close> is an error.\<close>

definition time_Parse :: "string \<Rightarrow> (int \<times> int) option" where
  "time_Parse s0 =
     Option.bind (get_year s0) (\<lambda>(year, s1).
     Option.bind (skip_char CHR ''-'' s1) (\<lambda>s2.
     Option.bind (ranged 1 12 (getnum True s2)) (\<lambda>(month, s3).
     Option.bind (skip_char CHR ''-'' s3) (\<lambda>s4.
     Option.bind (getnum True s4) (\<lambda>(day, s5).
     Option.bind (skip_blank s5) (\<lambda>s6.
     Option.bind (ranged 0 23 (getnum False s6)) (\<lambda>(hour, s7).
     Option.bind (skip_char CHR '':'' s7) (\<lambda>s8.
     Option.bind (ranged 0 59 (getnum True s8)) (\<lambda>(mi, s9).
     Option.bind (skip_char CHR '':'' s9) (\<lambda>s10.
     Option.bind (ranged 0 59 (getnum True s10)) (\<lambda>(sec, s11).
     Option.bind (get_fraction s11) (\<lambda>(nsec, s12).
       if s12 \<noteq> [] \<or> day < 1 \<or> day > daysIn month year then None
       else Some (unix_seconds year month day hour mi sec, nsec)))))))))))))"

text \<open>\<open>t, _ := time.Parse(layout, s)\<close> followed by \<open>t.UnixNano()\<close>.\<close>

definition parse_UnixNano :: "string \<Rightarrow> int" where
  "parse_UnixNano s =
     (case time_Parse s of None \<Rightarrow> UnixNano zero_time 0 | Some (sec, nsec) \<Rightarrow> UnixNano sec nsec)"

section \<open>time.ParseDuration\<close>

text \<open>
  \<open>h, _ := time.ParseDuration(fmt.Sprintf("-%ds", n))\<close>: a negative \<open>n\<close> prints a second sign and
  an \<open>n\<close> whose nanoseconds exceed an \<open>int64\<close> overflows; both are errors, with \<open>h = 0\<close>.
\<close>

definition parse_neg_seconds :: "int \<Rightarrow> int" where
  "parse_neg_seconds n = (if 0 \<le> n \<and> n \<le> (2 ^ 63 - 1) div second then - (n * second) else 0)"

section \<open>Lemmas\<close>

lemma wrap64_id: "- (2 ^ 63) \<le> i \<Longrightarrow> i < 2 ^ 63 \<Longrightarrow> wrap64 i = i"
  by (simp add: wrap64_def sint_sbintrunc' signed_take_bit_int_eq_self)

lemma UnixNano_zero_time: "UnixNano zero_time 0 = - 6795364578871345152"
  by code_simp

lemma parse_neg_seconds_le: "parse_neg_seconds n \<le> 0"
  by (simp add: parse_neg_seconds_def second_def)

end
