(* ===== verification/Etcd.thy ===== *)
theory Etcd
  imports Go_Errors "HOL-Library.Sublist" "HOL-Library.List_Lexorder" "HOL-Library.Char_ord"
begin

text \<open>
  The etcd client (\<open>src/service/etcdclient/etcdmgt.go\<close>).  The etcd service and its client library
  are a parameter: the record \<open>etcd_api\<close> holds what the calls \<open>New\<close>, \<open>Status\<close>, \<open>Grant\<close>, \<open>Get\<close> with
  the option \<open>WithPrefix\<close>, \<open>Put\<close>, \<open>Put\<close> with a lease and \<open>KeepAlive\<close> do to a service state of any
  type.  What the documentation of etcd promises of them is the hypothesis \<open>etcd_documented\<close>.
\<close>

section \<open>The service\<close>

record 'e etcd_api =
  api_New :: "'e \<Rightarrow> string list \<Rightarrow> error option"
  api_Status :: "'e \<Rightarrow> string \<Rightarrow> error option"
  api_Grant :: "'e \<Rightarrow> int \<Rightarrow> int result \<times> 'e"
  api_GetPrefix :: "'e \<Rightarrow> string \<Rightarrow> (string \<times> string) list result"
  api_Put :: "'e \<Rightarrow> string \<Rightarrow> string \<Rightarrow> error option \<times> 'e"
  api_PutLease :: "'e \<Rightarrow> string \<Rightarrow> string \<Rightarrow> int \<Rightarrow> error option \<times> 'e"
  api_KeepAlive :: "'e \<Rightarrow> int \<Rightarrow> error option"

record EtcdClient =
  Ip :: string
  Leaseid :: int

section \<open>The client\<close>

text \<open>A failure of \<open>clientv3.New\<close> is ignored, and the next call uses a nil client.\<close>

definition ClientInit ::
    "'e etcd_api \<Rightarrow> string \<Rightarrow> string list \<Rightarrow> 'e \<Rightarrow> (EtcdClient \<times> 'e) run" where
  "ClientInit api ip endpoints e =
     (case api_New api e endpoints of
        Some err \<Rightarrow> Panics
      | None \<Rightarrow>
          (case go_index endpoints 0 of
             None \<Rightarrow> Panics
           | Some ep \<Rightarrow>
               (case api_Status api e ep of
                  Some err \<Rightarrow> Panics
                | None \<Rightarrow>
                    (case api_Grant api e 30 of
                       (Inl err, e') \<Rightarrow> Panics
                     | (Inr leaseID, e') \<Rightarrow> Returns (\<lparr>Ip = ip, Leaseid = leaseID\<rparr>, e')))))"

definition GetSingleCfg :: "'e etcd_api \<Rightarrow> 'e \<Rightarrow> string \<Rightarrow> string result" where
  "GetSingleCfg api e url =
     (case api_GetPrefix api e url of
        Inl err \<Rightarrow> Inl err
      | Inr kvs \<Rightarrow>
          if length kvs = 0 then
            Inl (New (utf8_lit [0x65, 0x74, 0x63, 0x64, 0xE5, 0x8F, 0x96, 0xE5, 0x80, 0xBC, 0xE4, 0xB8,
              0x8D, 0xE5, 0xAD, 0x98, 0xE5, 0x9C, 0xA8, 0xE8, 0xAF, 0xA5, 0x4B, 0x65, 0x79]))
          else Inr (snd (kvs ! 0)))"

text \<open>The callers that write \<open>v, _ := GetSingleCfg(url)\<close>.\<close>

definition cfg_value :: "'e etcd_api \<Rightarrow> 'e \<Rightarrow> string \<Rightarrow> string" where
  "cfg_value api e url = (case GetSingleCfg api e url of Inl err \<Rightarrow> [] | Inr v \<Rightarrow> v)"

text \<open>\<open>WatchCfg\<close>: each watch response is forwarded by the value of its first event.\<close>

fun WatchCfg :: "string list list \<Rightarrow> string list run" where
  "WatchCfg [] = Returns []"
| "WatchCfg (events # items) =
     (case go_index events 0 of
        None \<Rightarrow> Panics
      | Some v \<Rightarrow> (case WatchCfg items of Panics \<Rightarrow> Panics | Returns vs \<Rightarrow> Returns (v # vs)))"

definition discovery_key :: "string \<Rightarrow> string \<Rightarrow> string" where
  "discovery_key ip infoname = ''/server/'' @ ip @ ''/'' @ infoname"

definition ClientDiscovery ::
    "'e etcd_api \<Rightarrow> EtcdClient \<Rightarrow> string \<Rightarrow> string \<Rightarrow> string \<Rightarrow> 'e \<Rightarrow> 'e run" where
  "ClientDiscovery api c ip infoname infodata e =
     (case api_PutLease api e (discovery_key ip infoname) infodata (Leaseid c) of
        (Some err, e') \<Rightarrow> Panics
      | (None, e') \<Rightarrow>
          (case api_KeepAlive api e' (Leaseid c) of Some err \<Rightarrow> Panics | None \<Rightarrow> Returns e'))"

text \<open>
  The goroutine \<open>ClientDiscovery\<close> starts: it receives from the keep-alive channel for ever and
  reads the field \<open>ID\<close> of what it got.  A closed channel delivers a nil pointer (\<open>None\<close>); the test
  in the source is on the channel, which is never nil here.  The result is the list of logged ids.
\<close>

fun keepalive_loop :: "int option list \<Rightarrow> int list run" where
  "keepalive_loop [] = Returns []"
| "keepalive_loop (keepResp # evs) =
     (case keepResp of
        None \<Rightarrow> Panics
      | Some i \<Rightarrow> (case keepalive_loop evs of Panics \<Rightarrow> Panics | Returns is \<Rightarrow> Returns (i # is)))"

definition ClientPut :: "'e etcd_api \<Rightarrow> string \<Rightarrow> string \<Rightarrow> 'e \<Rightarrow> string result \<times> 'e" where
  "ClientPut api keyurl value e =
     (case api_Put api e keyurl value of
        (Some err, e') \<Rightarrow> (Inl err, e')
      | (None, e') \<Rightarrow> (Inr ''Success'', e'))"

section \<open>What etcd documents\<close>

text \<open>
  A range read by prefix returns the pairs whose key starts with the prefix, in ascending order
  of the keys; a successful put, with a lease or without, stores the value under the key and
  changes no other key; a failed put changes nothing.  \<open>kv\<close> is the key space of a service state.
  (The expiry of a lease is a later event of the service and not an effect of these calls.)
\<close>

definition etcd_documented :: "'e etcd_api \<Rightarrow> ('e \<Rightarrow> string \<rightharpoonup> string) \<Rightarrow> bool" where
  "etcd_documented api kv \<longleftrightarrow>
     (\<forall>e url kvs. api_GetPrefix api e url = Inr kvs \<longrightarrow>
        sorted (map fst kvs) \<and> distinct (map fst kvs) \<and>
        set kvs = {(k, v). kv e k = Some v \<and> prefix url k}) \<and>
     (\<forall>e k v r e'. api_Put api e k v = (r, e') \<longrightarrow>
        kv e' = (if r = None then (kv e)(k \<mapsto> v) else kv e)) \<and>
     (\<forall>e k v l r e'. api_PutLease api e k v l = (r, e') \<longrightarrow>
        kv e' = (if r = None then (kv e)(k \<mapsto> v) else kv e))"

lemma etcd_GetPrefix:
  assumes "etcd_documented api kv" and "api_GetPrefix api e url = Inr kvs"
  shows "sorted (map fst kvs)" and "distinct (map fst kvs)"
    and "set kvs = {(k, v). kv e k = Some v \<and> prefix url k}"
  using assms unfolding etcd_documented_def by blast+

lemma etcd_Put:
  assumes "etcd_documented api kv" and "api_Put api e k v = (r, e')"
  shows "kv e' = (if r = None then (kv e)(k \<mapsto> v) else kv e)"
  using assms unfolding etcd_documented_def by simp

lemma etcd_PutLease:
  assumes "etcd_documented api kv" and "api_PutLease api e k v l = (r, e')"
  shows "kv e' = (if r = None then (kv e)(k \<mapsto> v) else kv e)"
  using assms unfolding etcd_documented_def by simp

text \<open>A service in memory that does what is documented and never fails.  Its state is the
  list of the puts, the newest first.\<close>

definition mem_range :: "(string \<times> string) list \<Rightarrow> string \<Rightarrow> (string \<times> string) list" where
  "mem_range e url =
     map (\<lambda>k. (k, the (map_of e k))) (filter (prefix url) (sort (remdups (map fst e))))"

definition mem_api :: "(string \<times> string) list etcd_api" where
  "mem_api =
     \<lparr>api_New = (\<lambda>e eps. None), api_Status = (\<lambda>e ep. None), api_Grant = (\<lambda>e ttl. (Inr 1, e)),
      api_GetPrefix = (\<lambda>e url. Inr (mem_range e url)),
      api_Put = (\<lambda>e k v. (None, (k, v) # e)),
      api_PutLease = (\<lambda>e k v l. (None, (k, v) # e)),
      api_KeepAlive = (\<lambda>e l. None)\<rparr>"

lemma mem_range_keys: "map fst (mem_range e url) = filter (prefix url) (sort (remdups (map fst e)))"
  by (simp add: mem_range_def o_def)

lemma mem_range_set: "set (mem_range e url) = {(k, v). map_of e k = Some v \<and> prefix url k}"
proof -
  have "k \<in> set (sort (remdups (map fst e))) \<longleftrightarrow> map_of e k \<noteq> None" for k
    by (simp add: map_of_eq_None_iff)
  then show ?thesis by (auto simp: mem_range_def image_iff)
qed

lemma mem_api_documented: "etcd_documented mem_api map_of"
  by (simp add: etcd_documented_def mem_api_def mem_range_keys mem_range_set sorted_wrt_filter
      sorted_sort)

lemma prefix_le: "prefix xs ys \<Longrightarrow> xs \<le> (ys :: string)"
proof (induction xs arbitrary: ys)
  case (Cons x xs)
  then show ?case by (cases ys) (auto simp: prefix_Cons)
qed simp

lemma GetSingleCfg_eq:
  assumes "etcd_documented api kv" and "api_GetPrefix api e url = Inr kvs"
  shows "GetSingleCfg api e url = Inr v \<longleftrightarrow>
    (\<exists>k. kv e k = Some v \<and> prefix url k \<and> (\<forall>k'. kv e k' \<noteq> None \<longrightarrow> prefix url k' \<longrightarrow> k \<le> k'))"
proof -
  note d = etcd_GetPrefix [OF assms]
  have m: "(k, w) \<in> set kvs \<longleftrightarrow> kv e k = Some w \<and> prefix url k" for k w
    by (simp add: d(3))
  show ?thesis
  proof (cases kvs)
    case Nil
    with m assms(2) show ?thesis by (auto simp: GetSingleCfg_def)
  next
    case (Cons x xs)
    obtain k0 v0 where x: "x = (k0, v0)" by force
    have k0: "kv e k0 = Some v0" "prefix url k0" using m [of k0 v0] Cons x by auto
    have least: "k0 \<le> k'" if "kv e k' = Some w" "prefix url k'" for k' w
    proof -
      have "k' \<in> set (map fst kvs)" using m [of k' w] that by (force simp del: set_map simp: set_map image_iff)
      with d(1) Cons x show ?thesis by auto
    qed
    have k: "k = k0" if "kv e k = Some v" "prefix url k" "\<forall>k'. kv e k' \<noteq> None \<longrightarrow> prefix url k' \<longrightarrow> k \<le> k'"
      for k
      using least [OF that(1,2)] that(3) k0 by (metis order.antisym option.distinct(1))
    have g: "GetSingleCfg api e url = Inr v0" using Cons x assms(2) by (simp add: GetSingleCfg_def)
    have "kv e k0 = Some v \<longleftrightarrow> v0 = v" using k0 by simp
    with g k k0 least show ?thesis by (metis option.exhaust_sel sum.inject(2))
  qed
qed

lemma GetSingleCfg_present:
  assumes "etcd_documented api kv" and "api_GetPrefix api e url = Inr kvs" and "kv e url = Some v"
  shows "GetSingleCfg api e url = Inr v"
  using assms(3) by (auto simp: GetSingleCfg_eq [OF assms(1,2)] intro: prefix_le)

section \<open>Properties\<close>

text \<open>
  What a lookup of one key answers in general: the value of the least stored key that the
  given text is a prefix of.  So a key that is absent is answered with the value of another key
  when some stored key extends it.
\<close>

lemma GetSingleCfg_least:
  assumes "etcd_documented api kv" and "api_GetPrefix api e url = Inr kvs"
  shows "GetSingleCfg api e url = Inr v \<longleftrightarrow>
    (\<exists>k. kv e k = Some v \<and> prefix url k \<and> (\<forall>k'. kv e k' \<noteq> None \<longrightarrow> prefix url k' \<longrightarrow> k \<le> k'))"
  using assms by (rule GetSingleCfg_eq)

text \<open>
  A successful \<open>ClientPut\<close> is seen by the next lookup of the key, and a failed one leaves
  every key as it was.
\<close>

lemma ClientPut_GetSingleCfg:
  assumes "etcd_documented api kv" and "ClientPut api k v e = (r, e')"
    and "api_GetPrefix api e' k = Inr kvs"
  shows "case r of Inr s \<Rightarrow> s = ''Success'' \<and> GetSingleCfg api e' k = Inr v | Inl err \<Rightarrow> kv e' = kv e"
proof (cases "api_Put api e k v")
  case (Pair p e1)
  then have e1: "e1 = e'" "r = (case p of None \<Rightarrow> Inr ''Success'' | Some err \<Rightarrow> Inl err)"
    using assms(2) by (auto simp: ClientPut_def split: option.splits)
  with etcd_Put [OF assms(1) Pair] GetSingleCfg_present [OF assms(1,3), of v] show ?thesis
    by (auto split: option.splits)
qed

end
