(* ===== verification/Host_Exec.thy ===== *)
theory Host_Exec
  imports Etcd
begin

text \<open>
  What the agent runs on its host: shell commands (\<open>src/service/future/cmdrun.go\<close>), plugin
  scripts (\<open>pluginexec.go\<close>), the collection of plugin output (\<open>osothercollect.go\<close>) and of the
  basic facts of the host (\<open>osbasiccollect.go\<close>).  The operating system is a parameter: \<open>exec\<close>
  gives the standard output and the error of a program run with its arguments.
\<close>

type_synonym exec = "string \<Rightarrow> string list \<Rightarrow> string \<times> error option"

section \<open>Shell commands\<close>

definition WindowsCmdRun :: "exec \<Rightarrow> string \<Rightarrow> string result" where
  "WindowsCmdRun ex cmd =
     (case ex ''cmd'' [''/c'', cmd] of
        (out, Some err) \<Rightarrow> Inl err
      | (out, None) \<Rightarrow> Inr (strings_TrimSpace out))"

definition LinuxCmdRun :: "exec \<Rightarrow> string \<Rightarrow> string result" where
  "LinuxCmdRun ex s =
     (case ex ''/bin/bash'' [''-c'', s] of
        (out, Some err) \<Rightarrow> Inl err
      | (out, None) \<Rightarrow> Inr (strings_TrimSpace out))"

definition ExecShell :: "string \<Rightarrow> exec \<Rightarrow> string \<Rightarrow> string result" where
  "ExecShell goos ex cmd = (if goos = ''windows'' then WindowsCmdRun ex cmd else LinuxCmdRun ex cmd)"

section \<open>Plugin scripts\<close>

text \<open>The loop \<open>for _, argv := range argvs { cmdargv = cmdargv + argv }\<close>.\<close>

definition cmdargv :: "string list \<Rightarrow> string" where
  "cmdargv argvs = foldl (@) [] argvs"

definition backslash :: string where
  "backslash = [CHR 0x5C]"

definition windows_plugin_dir :: string where
  "windows_plugin_dir =
     ''D:'' @ backslash @ ''Coding'' @ backslash @ ''rinck_tcp'' @ backslash @ ''plugin'' @ backslash
     @ ''windows'' @ backslash"

text \<open>The error of the command is logged and then dropped.\<close>

definition WindowsScriptRun :: "exec \<Rightarrow> string \<Rightarrow> string list \<Rightarrow> string result" where
  "WindowsScriptRun ex scriptname argvs =
     (let fullcmd = (windows_plugin_dir @ scriptname) @ '' '' @ cmdargv argvs
      in case ex ''cmd'' [''/c'', fullcmd] of (out, err) \<Rightarrow> Inr (strings_TrimSpace out))"

definition LinuxScriptRun :: "exec \<Rightarrow> string \<Rightarrow> string list \<Rightarrow> string result run" where
  "LinuxScriptRun ex scriptname argvs =
     (let fullscriptpath = ''/etc/rinck/plugin/'' @ scriptname
      in case go_index (strings_Split scriptname CHR ''.'') 1 of
           None \<Rightarrow> Panics
         | Some scripttype \<Rightarrow>
             let fullcmd =
               (if scripttype = ''py''
                then ''`which python`'' @ '' '' @ fullscriptpath @ '' '' @ cmdargv argvs
                else fullscriptpath @ '' '' @ cmdargv argvs)
             in (case ex ''/bin/bash'' [''-c'', fullcmd] of
                   (out, Some err) \<Rightarrow> Returns (Inl err)
                 | (out, None) \<Rightarrow> Returns (Inr (strings_TrimSpace out))))"

definition ScriptExec :: "string \<Rightarrow> exec \<Rightarrow> string \<Rightarrow> string list \<Rightarrow> string result run" where
  "ScriptExec goos ex scriptname argvs =
     (if goos = ''windows'' then Returns (WindowsScriptRun ex scriptname argvs)
      else LinuxScriptRun ex scriptname argvs)"

section \<open>Collecting plugin output\<close>

text \<open>Every item is run through \<open>collect.py\<close> and its output registered in etcd.\<close>

fun MannualCollect ::
    "string \<Rightarrow> exec \<Rightarrow> 'e etcd_api \<Rightarrow> EtcdClient \<Rightarrow> string \<Rightarrow> string list \<Rightarrow> 'e \<Rightarrow> 'e run" where
  "MannualCollect goos ex api ec localip [] e = Returns e"
| "MannualCollect goos ex api ec localip (collectitem # items) e =
     (case ScriptExec goos ex ''collect.py'' [collectitem] of
        Panics \<Rightarrow> Panics
      | Returns r \<Rightarrow>
          let collectresult = (case r of Inl err \<Rightarrow> ''Error'' | Inr out \<Rightarrow> out)
          in (case ClientDiscovery api ec localip collectitem collectresult e of
                Panics \<Rightarrow> Panics
              | Returns e' \<Rightarrow> MannualCollect goos ex api ec localip items e'))"

section \<open>Basic facts of the host\<close>

record OsInfo =
  Os :: string
  Localip :: string
  Hostname :: string
  Cpu :: int
  Mem :: string

text \<open>
  What the host answers: the platform, the local address of a UDP socket, the host name, the
  number of processors, the Windows call for the memory (its result and \<open>ullTotalPhys\<close>).
\<close>

record host =
  GOOS :: string
  dial_local_addr :: "string result"
  os_Hostname :: "string result"
  GOMAXPROCS :: int
  memory_status :: "int \<times> u64"
  host_exec :: exec

definition GetOS :: "host \<Rightarrow> OsInfo \<Rightarrow> OsInfo" where
  "GetOS ho o1 = o1\<lparr>Os := GOOS ho\<rparr>"

definition GetLocalIp :: "host \<Rightarrow> OsInfo \<Rightarrow> OsInfo run" where
  "GetLocalIp ho o1 =
     (case dial_local_addr ho of
        Inl err \<Rightarrow> Panics
      | Inr addr \<Rightarrow>
          (case go_index (strings_Split addr CHR '':'') 0 of
             None \<Rightarrow> Panics
           | Some ip \<Rightarrow> Returns (o1\<lparr>Localip := ip\<rparr>)))"

definition GetHostname :: "host \<Rightarrow> OsInfo \<Rightarrow> OsInfo" where
  "GetHostname ho o1 =
     (case os_Hostname ho of
        Inl err \<Rightarrow> o1\<lparr>Hostname := Localip o1\<rparr>
      | Inr name \<Rightarrow> o1\<lparr>Hostname := name\<rparr>)"

definition GetCpu :: "host \<Rightarrow> OsInfo \<Rightarrow> OsInfo" where
  "GetCpu ho o1 = o1\<lparr>Cpu := GOMAXPROCS ho\<rparr>"

definition newline :: char where
  "newline = CHR 0x0A"

text \<open>The chain of splits that picks the number out of the output of \<open>lsmem\<close>.\<close>

definition lsmem_field :: "string \<Rightarrow> string option" where
  "lsmem_field out =
     Option.bind (go_index (strings_Split out newline) 0) (\<lambda>resp.
     Option.bind (go_index (strings_Split resp CHR '':'') 1) (\<lambda>resp1.
     Option.bind (go_index (strings_Split resp1 CHR '' '') 7) (\<lambda>resp2.
       go_index (strings_Split resp2 CHR ''G'') 0)))"

definition lsmem_command :: string where
  "lsmem_command = ''lsmem | grep '' @ [CHR 0x27] @ ''Total online memory'' @ [CHR 0x27]"

text \<open>
  On Windows \<open>o.Mem\<close> is always set from \<open>ullTotalPhys\<close>, also after a failed call; on Linux an
  error of the command sets \<open>o.Mem\<close> to 0 and the output is taken apart all the same.
\<close>

definition GetMem :: "host \<Rightarrow> OsInfo \<Rightarrow> OsInfo run" where
  "GetMem ho o1 =
     (if Os o1 = ''windows'' then
        (let mem = fst (memory_status ho); o2 = (if mem = 0 then o1\<lparr>Mem := ''0''\<rparr> else o1)
         in Returns (o2\<lparr>Mem := nat_text (unat (snd (memory_status ho)) div (1024 * 1024 * 1024))\<rparr>))
      else if Os o1 = ''linux'' then
        (case host_exec ho ''/bin/bash'' [''-c'', lsmem_command] of
           (out, err) \<Rightarrow>
             let o2 = (if err \<noteq> None then o1\<lparr>Mem := ''0''\<rparr> else o1)
             in (case lsmem_field out of
                   None \<Rightarrow> Panics
                 | Some resp3 \<Rightarrow> Returns (o2\<lparr>Mem := resp3\<rparr>)))
      else Returns (o1\<lparr>Mem := ''Unsupport OS''\<rparr>))"

definition ColInit :: "host \<Rightarrow> OsInfo \<Rightarrow> OsInfo run" where
  "ColInit ho o1 =
     (case GetLocalIp ho (GetOS ho o1) of
        Panics \<Rightarrow> Panics
      | Returns o2 \<Rightarrow> GetMem ho (GetCpu ho (GetHostname ho o2)))"

section \<open>Properties\<close>

text \<open>
  On Linux a plugin whose name has no dot makes the agent panic, and no other name does; on
  Windows nothing does.
\<close>

lemma ScriptExec_panics_iff:
  "ScriptExec goos ex scriptname argvs = Panics \<longleftrightarrow> goos \<noteq> ''windows'' \<and> CHR ''.'' \<notin> set scriptname"
proof -
  have "go_index (strings_Split scriptname CHR ''.'') 1 = None \<longleftrightarrow> CHR ''.'' \<notin> set scriptname"
    using count_list_0_iff [of scriptname "CHR ''.''"] by (auto simp: go_index_def length_strings_Split)
  then show ?thesis
    by (auto simp: ScriptExec_def LinuxScriptRun_def Let_def split: option.splits prod.splits)
qed

text \<open>
  A plugin cannot tell its arguments apart: they are joined without a separator, so any list
  of arguments is run as its concatenation.
\<close>

lemma ScriptExec_joins_arguments:
  "ScriptExec goos ex scriptname argvs = ScriptExec goos ex scriptname [concat argvs]"
proof -
  have "foldl (@) a xs = a @ concat xs" for a :: string and xs
    by (induction xs arbitrary: a) simp_all
  then have "cmdargv argvs = cmdargv [concat argvs]" by (simp add: cmdargv_def)
  then show ?thesis by (simp only: ScriptExec_def WindowsScriptRun_def LinuxScriptRun_def)
qed

lemma strings_Split_blanks:
  "strings_Split (replicate n c @ s) c = replicate n [] @ strings_Split s c"
  by (induction n) simp_all

lemma go_index_Split_first: "c \<notin> set w \<Longrightarrow> go_index (strings_Split (w @ c # s) c) 0 = Some w"
  by (simp add: go_index_def strings_Split_append)

lemma go_index_Split_second:
  "c \<notin> set w \<Longrightarrow> c \<notin> set v \<Longrightarrow> go_index (strings_Split (w @ c # v) c) 1 = Some v"
  by (simp add: go_index_def strings_Split_append strings_Split_single)

lemma go_index_Split_blanks:
  "c \<notin> set v \<Longrightarrow> go_index (strings_Split (replicate n c @ v) c) n = Some v"
  by (simp add: go_index_def strings_Split_blanks strings_Split_single nth_append)

text \<open>
  The memory of a Linux host is read as the number between the seven blanks and the letter G
  of the first line \<open>lsmem\<close> prints; when the command prints nothing (because it is missing or
  fails) the agent panics at start, though the source means to report 0.
\<close>

lemma lsmem_field_formats:
  assumes "set num \<inter> {CHR ''G'', CHR '' '', CHR '':'', newline} = {}"
    and "CHR '':'' \<notin> set label" and "newline \<notin> set label"
  shows "lsmem_field (label @ CHR '':'' # replicate 7 CHR '' '' @ num @ CHR ''G'' # newline # rest) = Some num
    \<and> lsmem_field [] = None"
proof -
  let ?v = "num @ CHR ''G'' # []"
  let ?l = "label @ CHR '':'' # replicate 7 CHR '' '' @ ?v"
  have 1: "go_index (strings_Split (?l @ newline # rest) newline) 0 = Some ?l"
    using assms by (intro go_index_Split_first) (auto simp: newline_def)
  have 2: "go_index (strings_Split ?l CHR '':'') 1 = Some (replicate 7 CHR '' '' @ ?v)"
    using assms by (intro go_index_Split_second) auto
  have 3: "go_index (strings_Split (replicate 7 CHR '' '' @ ?v) CHR '' '') 7 = Some ?v"
    using assms by (intro go_index_Split_blanks) auto
  have 4: "go_index (strings_Split ?v CHR ''G'') 0 = Some num"
    using assms by (intro go_index_Split_first) auto
  have "label @ CHR '':'' # replicate 7 CHR '' '' @ num @ CHR ''G'' # newline # rest = ?l @ newline # rest"
    by simp
  then have "lsmem_field (label @ CHR '':'' # replicate 7 CHR '' '' @ num @ CHR ''G'' # newline # rest) = Some num"
    by (simp only: lsmem_field_def 1 2 3 4 Option.bind.simps)
  moreover have "lsmem_field [] = None" by (simp add: lsmem_field_def go_index_def)
  ultimately show ?thesis by blast
qed

end
