(* ===== verification/Probe.thy ===== *)
theory Probe
  imports Etcd "HOL-Library.Signed_Division"
begin

text \<open>
  The network probes of the agent and where they store their results: InfluxDB
  (\<open>src/util/influx/influx.go\<close>), the ICMP probe (\<open>src/service/future/pingmesh.go\<close>) and the TCP
  probe (\<open>tcpmesh.go\<close>), with the result records of \<open>src/structs/agent.go\<close>.  The influx client, the
  resolver and the sockets are parameters.  One clock reading stamps the points of one run.
\<close>

section \<open>InfluxDB\<close>

datatype field_val = FInt int | FStr string

record point =
  pt_table :: string
  pt_tags :: "(string \<times> string) list"
  pt_fields :: "(string \<times> field_val) list"
  pt_time :: int

text \<open>
  The client library over a state of the database: \<open>Write\<close> gets the database and the point of the
  batch (\<open>None\<close> for the nil point that a failed \<open>NewPoint\<close> leaves).
\<close>

record 'x influx_api =
  ix_NewHTTPClient :: "string \<Rightarrow> string \<Rightarrow> string \<Rightarrow> error option"
  ix_NewBatchPoints :: "string \<Rightarrow> string \<Rightarrow> error option"
  ix_NewPoint :: "point \<Rightarrow> error option"
  ix_Write :: "'x \<Rightarrow> string \<Rightarrow> point option \<Rightarrow> error option \<times> 'x"

definition InfluxInit :: "'x influx_api \<Rightarrow> 'e etcd_api \<Rightarrow> 'e \<Rightarrow> unit result" where
  "InfluxInit ix api e =
     (let bind = cfg_value api e ''/server/cfg/influxdb/bind'';
          username = cfg_value api e ''/server/cfg/influxdb/username'';
          password = cfg_value api e ''/server/cfg/influxdb/password''
      in case ix_NewHTTPClient ix bind username password of
           Some err \<Rightarrow> Inl err
         | None \<Rightarrow> Inr ())"

text \<open>
  \<open>SimpleInsert\<close>: errors are logged only.  Without a batch the next call is a method of a nil
  interface; closing the client changes nothing the model has.
\<close>

definition SimpleInsert_point :: "'x influx_api \<Rightarrow> string \<Rightarrow> point \<Rightarrow> 'x \<Rightarrow> 'x run" where
  "SimpleInsert_point ix db pt x =
     (case ix_NewBatchPoints ix db ''s'' of
        Some err \<Rightarrow> Panics
      | None \<Rightarrow>
          Returns (snd (ix_Write ix x db (case ix_NewPoint ix pt of Some err \<Rightarrow> None | None \<Rightarrow> Some pt))))"

text \<open>The loop \<open>for result := range ch { ... influx.SimpleInsert(...) }\<close>.\<close>

fun insert_all :: "'x influx_api \<Rightarrow> string \<Rightarrow> point list \<Rightarrow> 'x \<Rightarrow> 'x run" where
  "insert_all ix db [] x = Returns x"
| "insert_all ix db (p # ps) x =
     (case SimpleInsert_point ix db p x of Panics \<Rightarrow> Panics | Returns x' \<Rightarrow> insert_all ix db ps x')"

section \<open>Ping\<close>

record Icmp =
  Type :: byte
  Code :: byte
  CheckSum :: u16
  Identifier :: u16
  SequenceNum :: u16

record PingMesh =
  ping_Dstip :: string
  Durtime :: int
  ping_Status :: string
  ping_Exectime :: string

text \<open>\<open>binary.Write(&buffer, binary.BigEndian, i)\<close>.\<close>

definition BigEndian_PutUint16 :: "u16 \<Rightarrow> byte list" where
  "BigEndian_PutUint16 v = [ucast (drop_bit 8 v), ucast v]"

definition icmp_bytes :: "Icmp \<Rightarrow> byte list" where
  "icmp_bytes i =
     [Type i, Code i] @ BigEndian_PutUint16 (CheckSum i) @ BigEndian_PutUint16 (Identifier i)
     @ BigEndian_PutUint16 (SequenceNum i)"

fun sum_words :: "u32 \<Rightarrow> byte list \<Rightarrow> u32" where
  "sum_words s (a # b # data) = sum_words (s + (push_bit 8 (ucast a) + ucast b)) data"
| "sum_words s [a] = s + ucast a"
| "sum_words s [] = s"

definition icmp_checksum :: "byte list \<Rightarrow> u16" where
  "icmp_checksum data = (let s = sum_words 0 data; s' = s + drop_bit 16 s in ucast (NOT s'))"

definition CheckReturnSum :: "byte list \<Rightarrow> Icmp \<Rightarrow> Icmp" where
  "CheckReturnSum data i = i\<lparr>CheckSum := icmp_checksum data\<rparr>"

definition ResetIcmp :: "Icmp \<Rightarrow> Icmp" where
  "ResetIcmp i0 =
     (let i = i0\<lparr>Type := 8, Code := 0, CheckSum := 0, Identifier := 0, SequenceNum := 1\<rparr>
      in CheckReturnSum (icmp_bytes i) i)"

text \<open>What one exchange with a host does, and the clock readings around it.\<close>

record ping_io =
  ping_dial :: "error option"
  ping_write :: "byte list \<Rightarrow> error option"
  ping_read :: "nat result"
  tStart :: int
  tEnd :: int
  ping_now :: string

definition SendICMPRequest ::
    "(string \<Rightarrow> ping_io) \<Rightarrow> string \<Rightarrow> Icmp \<Rightarrow> PingMesh \<times> error option \<times> Icmp" where
  "SendICMPRequest net destAddr i =
     (let io = net destAddr;
          fail = \<lparr>ping_Dstip = destAddr, Durtime = 0, ping_Status = ''Fail'', ping_Exectime = ping_now io\<rparr>
      in case ping_dial io of
           Some err \<Rightarrow> (fail, Some err, i)
         | None \<Rightarrow>
             let i' = ResetIcmp i
             in case ping_write io (icmp_bytes i') of
                  Some err \<Rightarrow> (fail, Some err, i')
                | None \<Rightarrow>
                    (case ping_read io of
                       Inl err \<Rightarrow> (fail, Some err, i')
                     | Inr receiveCnt \<Rightarrow>
                         (\<lparr>ping_Dstip = destAddr, Durtime = (tEnd io - tStart io) sdiv 1000000,
                           ping_Status = ''Good'', ping_Exectime = ping_now io\<rparr>, None, i')))"

fun ProcessPing :: "(string \<Rightarrow> ping_io) \<Rightarrow> string list \<Rightarrow> Icmp \<Rightarrow> PingMesh list \<times> Icmp" where
  "ProcessPing net [] i = ([], i)"
| "ProcessPing net (ip # ipList) i =
     (case SendICMPRequest net ip i of
        (pingresult, _, i') \<Rightarrow>
          (case ProcessPing net ipList i' of (rs, i'') \<Rightarrow> (pingresult # rs, i'')))"

text \<open>The loop over the domains: the first name that does not resolve ends the whole run.\<close>

fun resolve_all :: "(string \<Rightarrow> string result) \<Rightarrow> string list \<Rightarrow> string list result" where
  "resolve_all resolve [] = Inr []"
| "resolve_all resolve (domain # domains) =
     (case resolve domain of
        Inl err \<Rightarrow> Inl err
      | Inr ip \<Rightarrow> (case resolve_all resolve domains of Inl err \<Rightarrow> Inl err | Inr ips \<Rightarrow> Inr (ip # ips)))"

definition ping_point :: "string \<Rightarrow> int \<Rightarrow> PingMesh \<Rightarrow> point" where
  "ping_point srcip now r =
     \<lparr>pt_table = ''pingresult'', pt_tags = [(''dst'', ping_Dstip r), (''src'', srcip)],
      pt_fields = [(''ttl'', FInt (Durtime r)), (''status'', FStr (ping_Status r))], pt_time = now\<rparr>"

definition StartPing ::
    "'x influx_api \<Rightarrow> 'e etcd_api \<Rightarrow> 'e \<Rightarrow> (string \<Rightarrow> string result) \<Rightarrow> (string \<Rightarrow> ping_io) \<Rightarrow> int
      \<Rightarrow> string list \<Rightarrow> string \<Rightarrow> Icmp \<Rightarrow> 'x \<Rightarrow> (Icmp \<times> 'x) run" where
  "StartPing ix api e resolve net now domainList srcip i x =
     (case InfluxInit ix api e of
        Inl err \<Rightarrow> Returns (i, x)
      | Inr _ \<Rightarrow>
          (case resolve_all resolve domainList of
             Inl err \<Rightarrow> Returns (i, x)
           | Inr ipList \<Rightarrow>
               (case ProcessPing net ipList i of
                  (rs, i') \<Rightarrow>
                    (case insert_all ix ''pingmesh'' (map (ping_point srcip now) rs) x of
                       Panics \<Rightarrow> Panics
                     | Returns x' \<Rightarrow> Returns (i', x')))))"

section \<open>TCP\<close>

record TcpMesh =
  tcp_Dstip :: string
  tcp_Status :: string
  tcp_Exectime :: string
  Port :: string

record tcp_io =
  tcp_dial :: "error option"
  tcp_now :: string

definition SendTcpRequest ::
    "(string \<Rightarrow> tcp_io) \<Rightarrow> string \<Rightarrow> string \<Rightarrow> TcpMesh \<times> error option" where
  "SendTcpRequest net destAddr destPort =
     (let io = net destAddr
      in case tcp_dial io of
           Some err \<Rightarrow>
             (\<lparr>tcp_Dstip = destAddr, tcp_Status = ''Fail'', tcp_Exectime = tcp_now io, Port = destPort\<rparr>,
              Some err)
         | None \<Rightarrow>
             (\<lparr>tcp_Dstip = destAddr, tcp_Status = ''Good'', tcp_Exectime = tcp_now io, Port = destPort\<rparr>,
              None))"

text \<open>The port is what stands between the first and the second colon.\<close>

fun ProcessTcp :: "(string \<Rightarrow> tcp_io) \<Rightarrow> string list \<Rightarrow> TcpMesh list run" where
  "ProcessTcp net [] = Returns []"
| "ProcessTcp net (ip # ipList) =
     (case go_index (strings_Split ip CHR '':'') 1 of
        None \<Rightarrow> Panics
      | Some port \<Rightarrow>
          (case ProcessTcp net ipList of
             Panics \<Rightarrow> Panics
           | Returns rs \<Rightarrow> Returns (fst (SendTcpRequest net ip port) # rs)))"

fun tcp_targets :: "(string \<Rightarrow> string result) \<Rightarrow> string list \<Rightarrow> string list result run" where
  "tcp_targets resolve [] = Returns (Inr [])"
| "tcp_targets resolve (domainport # domains) =
     (case go_index (strings_Split domainport CHR '':'') 0 of
        None \<Rightarrow> Panics
      | Some domain \<Rightarrow>
          (case go_index (strings_Split domainport CHR '':'') 1 of
             None \<Rightarrow> Panics
           | Some port \<Rightarrow>
               (case resolve domain of
                  Inl err \<Rightarrow> Returns (Inl err)
                | Inr ip \<Rightarrow>
                    (case tcp_targets resolve domains of
                       Panics \<Rightarrow> Panics
                     | Returns (Inl err) \<Rightarrow> Returns (Inl err)
                     | Returns (Inr ips) \<Rightarrow> Returns (Inr ((ip @ '':'' @ port) # ips))))))"

definition tcp_point :: "string \<Rightarrow> int \<Rightarrow> TcpMesh \<Rightarrow> point" where
  "tcp_point srcip now r =
     \<lparr>pt_table = ''ncresult'', pt_tags = [(''dst'', tcp_Dstip r), (''src'', srcip)],
      pt_fields = [(''port'', FStr (Port r)), (''status'', FStr (tcp_Status r))], pt_time = now\<rparr>"

definition StartTcp ::
    "'x influx_api \<Rightarrow> 'e etcd_api \<Rightarrow> 'e \<Rightarrow> (string \<Rightarrow> string result) \<Rightarrow> (string \<Rightarrow> tcp_io) \<Rightarrow> int
      \<Rightarrow> string list \<Rightarrow> string \<Rightarrow> 'x \<Rightarrow> 'x run" where
  "StartTcp ix api e resolve net now domainList srcip x =
     (case InfluxInit ix api e of
        Inl err \<Rightarrow> Returns x
      | Inr _ \<Rightarrow>
          (case tcp_targets resolve domainList of
             Panics \<Rightarrow> Panics
           | Returns (Inl err) \<Rightarrow> Returns x
           | Returns (Inr ipList) \<Rightarrow>
               (case ProcessTcp net ipList of
                  Panics \<Rightarrow> Panics
                | Returns rs \<Rightarrow> insert_all ix ''pingmesh'' (map (tcp_point srcip now) rs) x)))"

section \<open>The checksum\<close>

text \<open>The sum of the 16-bit words of a packet, as a number.\<close>

fun words_sum :: "byte list \<Rightarrow> nat" where
  "words_sum (a # b # data) = 256 * unat a + unat b + words_sum data"
| "words_sum [a] = unat a"
| "words_sum [] = 0"

lemma unat_ucast_u32: "unat (ucast (a :: byte) :: u32) = unat a"
proof -
  have "unat a < 2 ^ 32" using unat_byte_less [of a] by simp
  then show ?thesis by (simp add: unsigned_ucast_eq take_bit_nat_eq_self)
qed

lemma unat_pair: "unat (push_bit 8 (ucast a) + ucast b :: u32) = 256 * unat (a :: byte) + unat (b :: byte)"
proof -
  note a = unat_byte_less [of a] and b = unat_byte_less [of b]
  have "push_bit 8 (ucast a) = (256 * ucast a :: u32)" by (simp add: push_bit_eq_mult mult.commute)
  then show ?thesis using a b by (simp add: unat_word_ariths unat_ucast_u32)
qed

lemma unat_sum_words:
  "unat s + words_sum data < 2 ^ 32 \<Longrightarrow> unat (sum_words s data) = unat s + words_sum data"
proof (induction s data rule: sum_words.induct)
  case (1 s a b data)
  then have "unat (s + (push_bit 8 (ucast a) + ucast b)) = unat s + (256 * unat a + unat b)"
    by (simp only: unat_word_ariths(1) [of s] unat_pair) simp
  with 1 show ?case by (simp del: unat_plus_simple)
next
  case (2 s a)
  then show ?case by (simp add: unat_word_ariths unat_ucast_u32)
qed simp

lemma unat_icmp_checksum:
  assumes "words_sum data < 2 ^ 32"
  shows "unat (icmp_checksum data) =
    65535 - (words_sum data mod 65536 + words_sum data div 65536) mod 65536"
proof -
  let ?s = "sum_words 0 data" and ?S = "words_sum data"
  have s: "unat ?s = ?S" using unat_sum_words [of 0 data] assms by simp
  have "unat (drop_bit 16 ?s) = ?S div 65536" by (simp add: unat_drop_bit_eq flip: s) (simp add: drop_bit_eq_div)
  then have t: "unat (?s + drop_bit 16 ?s) mod 65536 = (?S mod 65536 + ?S div 65536) mod 65536"
    by (simp add: unat_word_ariths s mod_mod_cancel mod_add_left_eq)
  have "unat (ucast (NOT x) :: u16) = 65535 - unat x mod 65536" for x :: u32
  proof -
    have "ucast (NOT x) = (NOT (ucast x) :: u16)" by (rule bit_word_eqI) (simp add: bit_simps)
    moreover have "unat (ucast x :: u16) = unat x mod 65536" by (simp add: unsigned_ucast_eq take_bit_eq_mod)
    moreover have "unat (NOT y) = 65535 - unat y" for y :: u16
    proof -
      have "NOT y = - 1 - y" by (simp add: not_eq_complement)
      moreover have "unat (- 1 :: u16) = 65535"
        by (simp add: unsigned_minus_1_eq_mask mask_eq_exp_minus_1)
      moreover have "unat y < 65536" using unsigned_less [of y, where ?'a = nat] by simp
      ultimately show ?thesis by (simp add: unat_sub_if')
    qed
    ultimately show ?thesis by simp
  qed
  with t show ?thesis by (simp add: icmp_checksum_def Let_def)
qed

lemma checksum_arith:
  fixes s :: nat
  assumes "s < 2 ^ 32"
  shows "(s + (65535 - (s mod 65536 + s div 65536) mod 65536)) mod 65535 = 0 \<longleftrightarrow>
    s mod 65536 + s div 65536 < 65536"
proof -
  have "(65536 * h + l + (65535 - (l + h) mod 65536)) mod 65535 = 0 \<longleftrightarrow> l + h < 65536"
    if "l < 65536" "h < 65536" for l h :: nat
  proof (cases "l + h < 65536")
    case True
    then have "65536 * h + l + (65535 - (l + h) mod 65536) = 65535 * (h + 1)" by simp
    then have "(65536 * h + l + (65535 - (l + h) mod 65536)) mod 65535 = 0" by (simp only: mod_mult_self1_is_0)
    with True show ?thesis by simp
  next
    case False
    then have "(l + h) mod 65536 = l + h - 65536" using that by (simp add: mod_if)
    then have "65536 * h + l + (65535 - (l + h) mod 65536) = 1 + 65535 * (h + 2)" using that False by simp
    then have "(65536 * h + l + (65535 - (l + h) mod 65536)) mod 65535 = 1" by (simp only: mod_mult_self2) simp
    with False show ?thesis by simp
  qed
  from this [of "s mod 65536" "s div 65536"] assms show ?thesis by simp
qed

section \<open>Properties\<close>

text \<open>
  The checksum makes the one's complement sum of the data's words and the checksum zero
  (modulo 65535), as a receiver requires, exactly when adding the carries once is enough; the
  source does not add them again.
\<close>

lemma icmp_checksum_verifies_iff:
  assumes "words_sum data < 2 ^ 32"
  shows "(words_sum data + unat (CheckSum (CheckReturnSum data i))) mod 65535 = 0 \<longleftrightarrow>
    words_sum data mod 65536 + words_sum data div 65536 < 65536"
  using checksum_arith [OF assms] unat_icmp_checksum [OF assms] by (simp add: CheckReturnSum_def)

text \<open>
  Every echo request the agent sends is the same well-formed packet, whatever was sent
  before: type 8, code 0, sequence number 1, and a checksum that verifies.
\<close>

lemma ResetIcmp_packet:
  "icmp_bytes (ResetIcmp i) = [8, 0, 0xF7, 0xFE, 0, 0, 0, 1] \<and>
   words_sum (icmp_bytes (ResetIcmp i)) mod 65535 = 0"
proof -
  let ?z = "\<lparr>Type = 8, Code = 0, CheckSum = 0, Identifier = 0, SequenceNum = 1\<rparr> :: Icmp"
  have "ResetIcmp i = ?z\<lparr>CheckSum := icmp_checksum (icmp_bytes ?z)\<rparr>"
    by (simp add: ResetIcmp_def CheckReturnSum_def Let_def icmp_bytes_def)
  moreover have "icmp_bytes (?z\<lparr>CheckSum := icmp_checksum (icmp_bytes ?z)\<rparr>) =
      [8, 0, 0xF7, 0xFE, 0, 0, 0, 1]" by code_simp
  ultimately show ?thesis by simp
qed

lemma ProcessPing_results:
  "fst (ProcessPing net ips i) = map (\<lambda>ip. fst (SendICMPRequest net ip i)) ips"
proof (induction ips arbitrary: i)
  case (Cons ip ips)
  have r: "ResetIcmp j = ResetIcmp i" for j :: Icmp
    by (simp add: ResetIcmp_def Let_def icmp_bytes_def CheckReturnSum_def)
  have "fst (SendICMPRequest net a j) = fst (SendICMPRequest net a i)" for a j
    unfolding SendICMPRequest_def Let_def r [of j] by (simp split: option.splits sum.splits)
  then have eq: "map (\<lambda>ip. fst (SendICMPRequest net ip j)) ips = map (\<lambda>ip. fst (SendICMPRequest net ip i)) ips"
    for j by simp
  obtain p err j where s: "SendICMPRequest net ip i = (p, err, j)" by (rule prod_cases3)
  obtain rs k where r: "ProcessPing net ips j = (rs, k)" by force
  have "fst (ProcessPing net ips j) = map (\<lambda>ip. fst (SendICMPRequest net ip j)) ips" by (rule Cons)
  also have "\<dots> = map (\<lambda>ip. fst (SendICMPRequest net ip i)) ips" by (rule eq)
  finally show ?case using s r by simp
qed simp

lemma resolve_all_fails: "\<exists>d \<in> set ds. isl (resolve d) \<Longrightarrow> \<exists>err. resolve_all resolve ds = Inl err"
proof (induction ds)
  case (Cons d ds)
  then show ?case by (cases "resolve d") (auto split: sum.splits)
qed simp

lemma resolve_all_ok:
  "\<not> (\<exists>d \<in> set ds. isl (resolve d)) \<Longrightarrow> resolve_all resolve ds = Inr (map (\<lambda>d. projr (resolve d)) ds)"
  by (induction ds) (auto split: sum.splits)

text \<open>
  A ping run stores one point per configured domain, in their order, when every name
  resolves; when one name does not resolve nothing at all is stored.
\<close>

lemma StartPing_points:
  assumes "InfluxInit ix api e = Inr ()" and "ix_NewBatchPoints ix ''pingmesh'' ''s'' = None"
    and "\<And>p. ix_NewPoint ix p = None"
  shows "\<exists>i'. StartPing ix api e resolve net now ds src i x = Returns (i',
          if \<exists>d \<in> set ds. isl (resolve d) then x
          else fold (\<lambda>d x. snd (ix_Write ix x ''pingmesh''
                 (Some (ping_point src now (fst (SendICMPRequest net (projr (resolve d)) i)))))) ds x)"
proof -
  have ins: "insert_all ix ''pingmesh'' ps x = Returns (fold (\<lambda>p x. snd (ix_Write ix x ''pingmesh'' (Some p))) ps x)"
    for ps x
    by (induction ps arbitrary: x) (simp_all add: SimpleInsert_point_def assms(2,3))
  show ?thesis
  proof (cases "\<exists>d \<in> set ds. isl (resolve d)")
    case True
    then have "\<exists>err. resolve_all resolve ds = Inl err" by (rule resolve_all_fails)
    with True assms(1) show ?thesis by (auto simp: StartPing_def)
  next
    case False
    then have r: "resolve_all resolve ds = Inr (map (\<lambda>d. projr (resolve d)) ds)" by (rule resolve_all_ok)
    obtain i' where "ProcessPing net (map (\<lambda>d. projr (resolve d)) ds) i =
        (map (\<lambda>d. fst (SendICMPRequest net (projr (resolve d)) i)) ds, i')"
      using ProcessPing_results [of net "map (\<lambda>d. projr (resolve d)) ds" i]
      by (cases "ProcessPing net (map (\<lambda>d. projr (resolve d)) ds) i") (simp add: o_def)
    with False r assms(1) show ?thesis by (simp add: StartPing_def ins fold_map o_def)
  qed
qed

text \<open>A database in memory that keeps the points it is given.\<close>

definition mem_influx :: "(string \<times> point) list influx_api" where
  "mem_influx =
     \<lparr>ix_NewHTTPClient = (\<lambda>_ _ _. None), ix_NewBatchPoints = (\<lambda>_ _. None), ix_NewPoint = (\<lambda>_. None),
      ix_Write = (\<lambda>x db p. case p of None \<Rightarrow> (Some (ExtError ''nil point''), x)
                                   | Some q \<Rightarrow> (None, x @ [(db, q)]))\<rparr>"

lemma mem_influx_simps [simp]:
  "ix_NewBatchPoints mem_influx db prec = None" "ix_NewPoint mem_influx p = None"
  "ix_Write mem_influx x db (Some q) = (None, x @ [(db, q)])"
  by (simp_all add: mem_influx_def)

lemma tcp_targets_colon:
  "CHR '':'' \<notin> set d \<Longrightarrow> tcp_targets resolve (d # ds) = Panics"
  by (simp add: strings_Split_single go_index_def)

text \<open>
  A TCP probe run panics on an empty or malformed first target: an entry without a colon,
  which is what a missing configuration value gives, ends the agent.
\<close>

lemma StartTcp_panics_without_port:
  assumes "InfluxInit ix api e = Inr ()" and "CHR '':'' \<notin> set d"
  shows "StartTcp ix api e resolve net now (d # ds) src x = Panics"
  using assms tcp_targets_colon [of d resolve ds] by (simp add: StartTcp_def del: tcp_targets.simps)

end
