(* ===== verification/Capdump.thy ===== *)
theory Capdump
  imports Etcd Net_Conn
begin

text \<open>
  Online packet capture (\<open>src/service/future/capdump.go\<close>).  The capture library is a parameter:
  whether a device can be opened, and the packets it delivers, each with the state of etcd at that
  moment.  The connection to the dump server is dialled through a parameter too.
\<close>

record CapDump =
  Handle :: "bool option"
  Iface :: string
  Filter :: string

text \<open>The pointer \<open>Handle\<close> is nil, or points to a handle that is open (\<open>True\<close>) or closed.\<close>

definition CaptureInit :: "(string \<Rightarrow> error option) \<Rightarrow> string \<Rightarrow> string \<Rightarrow> CapDump \<Rightarrow> CapDump" where
  "CaptureInit openLive iface flt c =
     c\<lparr>Iface := iface, Filter := flt, Handle := (if openLive iface = None then Some True else None)\<rparr>"

definition CloseCapture :: "CapDump \<Rightarrow> CapDump" where
  "CloseCapture c = c\<lparr>Handle := map_option (\<lambda>_. False) (Handle c)\<rparr>"

text \<open>\<open>binary.LittleEndian.PutUint32(b, v)\<close> on a slice: fewer than four bytes panic.\<close>

definition put_le :: "byte list \<Rightarrow> u32 \<Rightarrow> byte list option" where
  "put_le b v = (if length b < 4 then None else Some (LittleEndian_PutUint32 v @ drop 4 b))"

definition pcap_url :: "string \<Rightarrow> string" where
  "pcap_url localip = ''/server/'' @ localip @ ''/pcapswitch''"

text \<open>The loop over the packets; the result is the connection and the capture when it is left.\<close>

fun capture_loop ::
    "'e etcd_api \<Rightarrow> string \<Rightarrow> (byte list \<times> 'e) list \<Rightarrow> conn option \<Rightarrow> CapDump \<Rightarrow> (conn option \<times> CapDump) run"
where
  "capture_loop api localip [] k c = Returns (k, c)"
| "capture_loop api localip ((data, e) # packets) k c =
     (case k of
        None \<Rightarrow> Returns (None, c)
      | Some k0 \<Rightarrow>
          if cfg_value api e (pcap_url localip) = ''OFF'' then
            Returns (Some (conn_Close k0), CloseCapture c)
          else let result = LittleEndian_PutUint32 (of_nat (length data))
            in case conn_Write result k0 of
                 (Some err, k1) \<Rightarrow> Returns (Some k1, c)
               | (None, k1) \<Rightarrow>
                   (case Option.bind (go_slice 2 (length result) result) (\<lambda>b. put_le b 1) of
                      None \<Rightarrow> Panics
                    | Some b \<Rightarrow>
                        (case conn_Write [0] k1 of
                           (Some err, k2) \<Rightarrow> Returns (Some k2, c)
                         | (None, k2) \<Rightarrow>
                             (case conn_Write data k2 of
                                (Some err, k3) \<Rightarrow> Returns (Some k3, c)
                              | (None, k3) \<Rightarrow> capture_loop api localip packets (Some k3) c))))"

text \<open>
  \<open>CaptureStart\<close>: a failed dial leaves a nil connection, a failed filter is only logged, a nil
  handle panics when its filter is set.
\<close>

definition CaptureStart ::
    "'e etcd_api \<Rightarrow> 'e \<Rightarrow> (string \<Rightarrow> conn result) \<Rightarrow> (byte list \<times> 'e) list \<Rightarrow> string \<Rightarrow> CapDump
      \<Rightarrow> (conn option \<times> CapDump) run" where
  "CaptureStart api e dial packets localip c =
     (let dumpserver = cfg_value api e ''/server/cfg/common/dumpserver'';
          k = (case dial dumpserver of Inl err \<Rightarrow> None | Inr k \<Rightarrow> Some k)
      in if Handle c = None then Panics else capture_loop api localip packets k c)"

section \<open>Properties\<close>

lemma put_le_result: "Option.bind (go_slice 2 (length (LittleEndian_PutUint32 v))
    (LittleEndian_PutUint32 v)) (\<lambda>b. put_le b 1) = None"
  by (simp add: LittleEndian_PutUint32_def go_slice_def put_le_def)

text \<open>
  Packet capture never gets past its first packet: as soon as a packet arrives while the
  switch is not OFF and its length could be sent, the agent panics, because the type is stored
  into the last two bytes of the length.
\<close>

lemma capture_panics_on_first_packet:
  assumes "Handle c \<noteq> None" and "dial (cfg_value api e ''/server/cfg/common/dumpserver'') = Inr k"
    and "cfg_value api e' (pcap_url localip) \<noteq> ''OFF''"
    and "fst (conn_Write (LittleEndian_PutUint32 (of_nat (length data))) k) = None"
  shows "CaptureStart api e dial ((data, e') # packets) localip c = Panics"
  using assms
  by (cases "conn_Write (LittleEndian_PutUint32 (of_nat (length data))) k")
    (simp add: CaptureStart_def put_le_result Let_def)

end
