(* ===== verification/Agent.thy ===== *)
theory Agent
  imports Channel Go_Time Host_Exec Probe Capdump
begin

text \<open>
  The agent (\<open>src/service/agent/agent.go\<close>): its state, the reader loop (the second implementation
  of the framing), the sender, the handlers of the server's commands, and the six loops that run
  side by side while the agent is connected, one turn at a time.  The sleeps between turns and
  the log output are not modelled.
\<close>

record Agent =
  a_Conn :: "conn option"
  a_Valid :: bool
  a_ReadBuf :: "byte list"
  a_ReadMsgPayloadLth :: u32
  PingSwitch :: string
  TcpSwitch :: string
  PcapSwitch :: string
  LocalIp :: string

definition ResetAgent :: "string \<Rightarrow> Agent \<Rightarrow> Agent" where
  "ResetAgent localip a =
     \<lparr>a_Conn = None, a_Valid = True, a_ReadBuf = [], a_ReadMsgPayloadLth = 0, PingSwitch = ''OFF'',
      TcpSwitch = ''OFF'', PcapSwitch = ''OFF'', LocalIp = localip\<rparr>"

text \<open>The zero value of the struct, then \<open>ResetAgent\<close>.\<close>

definition NewAgent :: "string \<Rightarrow> Agent" where
  "NewAgent localip =
     ResetAgent localip
       \<lparr>a_Conn = None, a_Valid = False, a_ReadBuf = [], a_ReadMsgPayloadLth = 0, PingSwitch = [],
        TcpSwitch = [], PcapSwitch = [], LocalIp = []\<rparr>"

section \<open>Reading\<close>

definition a_set_read_deadline :: "int option \<Rightarrow> Agent \<Rightarrow> Agent" where
  "a_set_read_deadline d a = a\<lparr>a_Conn := map_option (\<lambda>k. k\<lparr>read_deadline := d\<rparr>) (a_Conn a)\<rparr>"

definition agent_state_error :: error where
  "agent_state_error =
     New (utf8_lit [0x41, 0x67, 0x65, 0x6E, 0x74, 0xE7, 0x8A, 0xB6, 0xE6, 0x80, 0x81, 0xE9, 0x94, 0x99,
       0xE8, 0xAF, 0xAF, 0x2C, 0xE9, 0x80, 0x80, 0xE5, 0x87, 0xBA, 0xE5, 0xBE, 0xAA, 0xE7, 0x8E, 0xAF,
       0xEF, 0xBC, 0x8C, 0xE7, 0xAD, 0x89, 0xE5, 0xBE, 0x85, 0xE4, 0xB8, 0x8B, 0xE6, 0xAC, 0xA1, 0xE9,
       0x87, 0x8D, 0xE8, 0xBF, 0x9E])"

definition agent_take_message :: "Agent \<Rightarrow> Agent turn" where
  "agent_take_message a0 =
     (let a = a_set_read_deadline None a0; rb = a_ReadBuf a;
          msgLength = 8 + a_ReadMsgPayloadLth a
      in case Option.bind (go_slice 4 8 rb) BigEndian_Uint32 of
           None \<Rightarrow> TurnPanics
         | Some ty \<Rightarrow>
             if a_ReadMsgPayloadLth a = 0 then
               (case (if of_nat (length rb) = msgLength then Some []
                      else go_slice (unat msgLength) (length rb) rb) of
                  None \<Rightarrow> TurnPanics
                | Some rb' \<Rightarrow>
                    (case head_length rb' of
                       None \<Rightarrow> TurnPanics
                     | Some l \<Rightarrow>
                         Return (Inr (mk_msg ty [])) (a\<lparr>a_ReadBuf := rb', a_ReadMsgPayloadLth := l\<rparr>)))
             else
               (case go_slice 8 (unat msgLength) rb of
                  None \<Rightarrow> TurnPanics
                | Some payload \<Rightarrow>
                    (case go_slice (unat msgLength) (length rb) rb of
                       None \<Rightarrow> TurnPanics
                     | Some rb' \<Rightarrow>
                         (case head_length rb' of
                            None \<Rightarrow> TurnPanics
                          | Some l \<Rightarrow>
                              Return (Inr (mk_msg ty payload))
                                (a\<lparr>a_ReadBuf := rb', a_ReadMsgPayloadLth := l\<rparr>)))))"

text \<open>
  One turn of the loop in \<open>GetMsg\<close>.  The read timeout is looked up in etcd at every turn, so a
  turn is given the state of etcd and a clock reading.  A nil connection panics.
\<close>

definition agent_GetMsg_turn :: "'e etcd_api \<Rightarrow> 'e \<times> int \<Rightarrow> Agent \<Rightarrow> Agent turn" where
  "agent_GetMsg_turn api env a0 =
     (case env of
        (e, now) \<Rightarrow>
          if a_Valid a0 = False then Return (Inl agent_state_error) a0
          else
            let rtimeout = fst (Atoi (cfg_value api e ''/server/cfg/common/readtimeout''));
                a = a_set_read_deadline (Some (now + seconds rtimeout)) a0
            in case a_Conn a of
                 None \<Rightarrow> TurnPanics
               | Some k0 \<Rightarrow>
                   if length (a_ReadBuf a) < 4 then
                     (case conn_Read 256 k0 of
                        (ReadBlocks, k) \<Rightarrow> Blocks (a\<lparr>a_Conn := Some k\<rparr>)
                      | (ReadErr err, k) \<Rightarrow> Return (Inl err) (a\<lparr>a_Conn := Some k\<rparr>)
                      | (ReadData b, k) \<Rightarrow>
                          let a' = a_set_read_deadline None
                                     (a\<lparr>a_Conn := Some k, a_ReadBuf := a_ReadBuf a @ b\<rparr>)
                          in if length (a_ReadBuf a') \<ge> 4 then
                               (case Option.bind (go_slice 0 4 (a_ReadBuf a')) BigEndian_Uint32 of
                                  None \<Rightarrow> TurnPanics
                                | Some l \<Rightarrow> Again (a'\<lparr>a_ReadMsgPayloadLth := l\<rparr>))
                             else Again a')
                   else if a_ReadMsgPayloadLth a + 8 > of_nat (length (a_ReadBuf a)) then
                     (case conn_Read 256 k0 of
                        (ReadBlocks, k) \<Rightarrow> Blocks (a\<lparr>a_Conn := Some k\<rparr>)
                      | (ReadErr err, k) \<Rightarrow> Return (Inl err) (a\<lparr>a_Conn := Some k\<rparr>)
                      | (ReadData b, k) \<Rightarrow>
                          Again (a_set_read_deadline None
                            (a\<lparr>a_Conn := Some k, a_ReadBuf := a_ReadBuf a @ b\<rparr>)))
                   else agent_take_message a)"

fun agent_GetMsg :: "'e etcd_api \<Rightarrow> ('e \<times> int) list \<Rightarrow> Agent \<Rightarrow> ('e \<times> int, Agent) got" where
  "agent_GetMsg api [] a = Cut a"
| "agent_GetMsg api (env # envs) a =
     (case agent_GetMsg_turn api env a of
        Again a' \<Rightarrow> agent_GetMsg api envs a'
      | Return r a' \<Rightarrow> Got r a' envs
      | Blocks a' \<Rightarrow> Waiting a'
      | TurnPanics \<Rightarrow> Crashed)"

section \<open>Sending\<close>

definition agent_packet :: "Msg \<Rightarrow> byte list" where
  "agent_packet m =
     (let protoMsgBytes = (case MsgProto m of None \<Rightarrow> [] | Some pb \<Rightarrow> fst (proto_Marshal pb))
      in BigEndian_PutUint32 (of_nat (length protoMsgBytes)) @ BigEndian_PutUint32 (MsgType m)
         @ protoMsgBytes)"

definition agent_SendMsg :: "'e etcd_api \<Rightarrow> 'e \<times> int \<Rightarrow> Msg \<Rightarrow> Agent \<Rightarrow> Agent run" where
  "agent_SendMsg api env m a =
     (case env of
        (e, now) \<Rightarrow>
          let wtimeout = fst (Atoi (cfg_value api e ''/server/cfg/common/writetimeout''))
          in case a_Conn a of
               None \<Rightarrow> Panics
             | Some k0 \<Rightarrow>
                 (case conn_Write (agent_packet m) (k0\<lparr>write_deadline := Some (now + seconds wtimeout)\<rparr>) of
                    (err, k) \<Rightarrow>
                      let a' = a\<lparr>a_Conn := Some k\<rparr>
                      in Returns (if err \<noteq> None then a'\<lparr>a_Valid := False\<rparr> else a')))"

section \<open>Handlers\<close>

text \<open>
  The machine the agent runs on: platform, program runs, file creation, and what of a written
  content reaches a created file (all of it, unless the disk is full).
\<close>

record machine =
  m_GOOS :: string
  m_exec :: exec
  m_Create :: "string \<Rightarrow> error option"
  m_Write :: "string \<Rightarrow> byte list \<Rightarrow> byte list"

type_synonym files = "string \<rightharpoonup> byte list"

definition HandleHeartBeatRspMsg :: "Msg \<Rightarrow> Agent \<Rightarrow> Agent" where
  "HandleHeartBeatRspMsg serverMsg a = a"

definition HandleShellRunMsg ::
    "'e etcd_api \<Rightarrow> machine \<Rightarrow> 'e \<times> int \<Rightarrow> Msg \<Rightarrow> Agent \<Rightarrow> Agent run" where
  "HandleShellRunMsg api mc env serverMsg a =
     (case Unmarshal ShellRun_info ShellRun_zero (MsgData serverMsg) of
        (shellRunMsg, Some err) \<Rightarrow> Returns a
      | (shellRunMsg, None) \<Rightarrow>
          (case ExecShell (m_GOOS mc) (m_exec mc) (Runcmd shellRunMsg) of
             Inl err \<Rightarrow> Returns a
           | Inr shellResult \<Rightarrow>
               agent_SendMsg api env
                 \<lparr>MsgType = ShellRun_Rsp, MsgData = [],
                  MsgProto = Some (PB_ShellRunRsp (ShellRunRsp_zero\<lparr>RuncmdRsp := shellResult,
                    shellrsp_Taskid := shell_Taskid shellRunMsg\<rparr>))\<rparr> a))"

definition HandleScriptRunMsg ::
    "'e etcd_api \<Rightarrow> machine \<Rightarrow> 'e \<times> int \<Rightarrow> Msg \<Rightarrow> Agent \<Rightarrow> Agent run" where
  "HandleScriptRunMsg api mc env serverMsg a =
     (case Unmarshal ScriptRun_info ScriptRun_zero (MsgData serverMsg) of
        (scriptRunMsg, Some err) \<Rightarrow> Returns a
      | (scriptRunMsg, None) \<Rightarrow>
          (case ScriptExec (m_GOOS mc) (m_exec mc) (Scriptname scriptRunMsg) (Argvs scriptRunMsg) of
             Panics \<Rightarrow> Panics
           | Returns (Inl err) \<Rightarrow> Returns a
           | Returns (Inr scriptResult) \<Rightarrow>
               agent_SendMsg api env
                 \<lparr>MsgType = ScriptRun_Rsp, MsgData = [],
                  MsgProto = Some (PB_ScriptRunRsp (ScriptRunRsp_zero\<lparr>RunRsp := scriptResult,
                    scriptrsp_Taskid := script_Taskid scriptRunMsg\<rparr>))\<rparr> a))"

definition HandleFileTransMsg :: "machine \<Rightarrow> Msg \<Rightarrow> files \<Rightarrow> files" where
  "HandleFileTransMsg mc serverMsg fs =
     (case Unmarshal FileTrans_info FileTrans_zero (MsgData serverMsg) of
        (fileTransMsg, Some err) \<Rightarrow> fs
      | (fileTransMsg, None) \<Rightarrow>
          (case m_Create mc (DstFilename fileTransMsg) of
             Some err \<Rightarrow> fs
           | None \<Rightarrow>
               fs(DstFilename fileTransMsg \<mapsto>
                    m_Write mc (DstFilename fileTransMsg)
                      (to_bytes (to_string (FileContent fileTransMsg))))))"

definition agent_unknown_type :: "u32 \<Rightarrow> error" where
  "agent_unknown_type ty =
     New (utf8_lit [0xE6, 0x9C, 0xAA, 0xE7, 0x9F, 0xA5, 0xE7, 0x9A, 0x84, 0xE6, 0xB6, 0x88, 0xE6, 0x81, 0xAF,
            0xE7, 0xB1, 0xBB, 0xE5, 0x9E, 0x8B, 0x2C, 0x20] @ nat_text (unat ty))"

definition agent_HandleMsg ::
    "'e etcd_api \<Rightarrow> machine \<Rightarrow> 'e \<times> int \<Rightarrow> Msg \<Rightarrow> Agent \<times> files \<Rightarrow> (error option \<times> Agent \<times> files) run" where
  "agent_HandleMsg api mc env serverMsg st =
     (case st of
        (a, fs) \<Rightarrow>
          if MsgType serverMsg = HeartBeat_Rsp then
            Returns (None, HandleHeartBeatRspMsg serverMsg a, fs)
          else if MsgType serverMsg = ShellRun_Msg then
            (case HandleShellRunMsg api mc env serverMsg a of
               Panics \<Rightarrow> Panics | Returns a' \<Rightarrow> Returns (None, a', fs))
          else if MsgType serverMsg = FileTrans_Msg then
            Returns (None, a, HandleFileTransMsg mc serverMsg fs)
          else if MsgType serverMsg = ScriptRun_Msg then
            (case HandleScriptRunMsg api mc env serverMsg a of
               Panics \<Rightarrow> Panics | Returns a' \<Rightarrow> Returns (None, a', fs))
          else Returns (Some (agent_unknown_type (MsgType serverMsg)), a, fs))"

section \<open>The loops\<close>

text \<open>
  A turn of a loop returns whether the loop goes on, and the new state.  \<open>Heartbeat\<close> formats the
  local time; the text is given.
\<close>

definition Heartbeat_turn ::
    "'e etcd_api \<Rightarrow> 'e \<times> int \<Rightarrow> string \<Rightarrow> Agent \<Rightarrow> (bool \<times> Agent) run" where
  "Heartbeat_turn api env localtime a =
     (if a_Valid a = False then Returns (False, a)
      else
        let heartbeatMsg = \<lparr>MsgType = HeartBeat_Msg, MsgData = [],
              MsgProto = Some (PB_Heartbeat (Heartbeat_zero\<lparr>Status := ''GOOD'', Synctime := localtime\<rparr>))\<rparr>
        in case agent_SendMsg api env heartbeatMsg a of
             Panics \<Rightarrow> Panics
           | Returns a' \<Rightarrow> if a_Valid a' = False then Returns (False, a') else Returns (True, a'))"

text \<open>\<open>Listen\<close>: reading may wait for ever, which is the value \<open>None\<close>.\<close>

definition Listen_turn ::
    "'e etcd_api \<Rightarrow> machine \<Rightarrow> ('e \<times> int) list \<Rightarrow> 'e \<times> int \<Rightarrow> Agent \<times> files
      \<Rightarrow> (bool \<times> Agent \<times> files) run option" where
  "Listen_turn api mc envs env st =
     (case st of
        (a, fs) \<Rightarrow>
          if a_Valid a = False then Some (Returns (False, a, fs))
          else case agent_GetMsg api envs a of
            Got (Inl err) a' _ \<Rightarrow> Some (Returns (False, a'\<lparr>a_Valid := False\<rparr>, fs))
          | Got (Inr m) a' _ \<Rightarrow>
              (case agent_HandleMsg api mc env m (a', fs) of
                 Panics \<Rightarrow> Some Panics
               | Returns (_, a'', fs') \<Rightarrow> Some (Returns (True, a'', fs')))
          | Crashed \<Rightarrow> Some Panics
          | Waiting _ \<Rightarrow> None
          | Cut _ \<Rightarrow> None)"

definition PingDetct_turn ::
    "'e etcd_api \<Rightarrow> 'e \<Rightarrow> 'x influx_api \<Rightarrow> (string \<Rightarrow> string result) \<Rightarrow> (string \<Rightarrow> ping_io) \<Rightarrow> int
      \<Rightarrow> Agent \<times> Icmp \<times> 'x \<Rightarrow> (bool \<times> Agent \<times> Icmp \<times> 'x) run" where
  "PingDetct_turn api e ix resolve net now st =
     (case st of
        (a, i, x) \<Rightarrow>
          if a_Valid a = False then Returns (False, a, i, x)
          else
            let url = ''/server/'' @ LocalIp a @ ''/pingswitch'';
                a' = a\<lparr>PingSwitch := cfg_value api e url\<rparr>
            in if PingSwitch a' = ''OFF'' then Returns (True, a', i, x)
               else
                 let domainList = strings_Split (cfg_value api e ''/server/cfg/common/pingiprange'') CHR '',''
                 in case StartPing ix api e resolve net now domainList (LocalIp a') i x of
                      Panics \<Rightarrow> Panics
                    | Returns (i', x') \<Rightarrow> Returns (True, a', i', x'))"

definition TcpDetct_turn ::
    "'e etcd_api \<Rightarrow> 'e \<Rightarrow> 'x influx_api \<Rightarrow> (string \<Rightarrow> string result) \<Rightarrow> (string \<Rightarrow> tcp_io) \<Rightarrow> int
      \<Rightarrow> Agent \<times> 'x \<Rightarrow> (bool \<times> Agent \<times> 'x) run" where
  "TcpDetct_turn api e ix resolve net now st =
     (case st of
        (a, x) \<Rightarrow>
          if a_Valid a = False then Returns (False, a, x)
          else
            let url = ''/server/'' @ LocalIp a @ ''/tcpswitch'';
                a' = a\<lparr>TcpSwitch := cfg_value api e url\<rparr>
            in if TcpSwitch a' = ''OFF'' then Returns (True, a', x)
               else
                 let domainList = strings_Split (cfg_value api e ''/server/cfg/common/nciprange'') CHR '',''
                 in case StartTcp ix api e resolve net now domainList (LocalIp a') x of
                      Panics \<Rightarrow> Panics
                    | Returns x' \<Rightarrow> Returns (True, a', x'))"

definition PcapDump_turn ::
    "'e etcd_api \<Rightarrow> 'e \<Rightarrow> (string \<Rightarrow> error option) \<Rightarrow> (string \<Rightarrow> conn result) \<Rightarrow> (byte list \<times> 'e) list
      \<Rightarrow> Agent \<times> CapDump \<Rightarrow> (bool \<times> Agent \<times> CapDump) run" where
  "PcapDump_turn api e openLive dial pkts st =
     (case st of
        (a, c) \<Rightarrow>
          if a_Valid a = False then Returns (False, a, c)
          else
            let a' = a\<lparr>PcapSwitch := cfg_value api e (''/server/'' @ LocalIp a @ ''/pcapswitch'')\<rparr>
            in if PcapSwitch a' = ''OFF'' then Returns (True, a', c)
               else
                 let iface = cfg_value api e (''/server/'' @ LocalIp a' @ ''/pcapiface'');
                     flt = cfg_value api e (''/server/'' @ LocalIp a' @ ''/pcapfilter'')
                 in case CaptureStart api e dial pkts (LocalIp a') (CaptureInit openLive iface flt c) of
                      Panics \<Rightarrow> Panics
                    | Returns (k, c') \<Rightarrow> Returns (True, a', c'))"

text \<open>\<open>DataCollect\<close> looks at \<open>Valid\<close> again when the collection is done; \<open>valid'\<close> is what the other
  loops have made of it in the meantime.\<close>

definition DataCollect_turn ::
    "'e etcd_api \<Rightarrow> machine \<Rightarrow> EtcdClient \<Rightarrow> string \<Rightarrow> bool \<Rightarrow> Agent \<times> 'e \<Rightarrow> (bool \<times> Agent \<times> 'e) run" where
  "DataCollect_turn api mc ec osip valid' st =
     (case st of
        (a, e) \<Rightarrow>
          if a_Valid a = False then Returns (False, a, e)
          else
            let items = strings_Split (cfg_value api e ''/server/cfg/common/collectitems'') CHR '',''
            in case MannualCollect (m_GOOS mc) (m_exec mc) api ec osip items e of
                 Panics \<Rightarrow> Panics
               | Returns e' \<Rightarrow>
                   let a' = a\<lparr>a_Valid := valid'\<rparr>
                   in if a_Valid a' = False then Returns (False, a', e') else Returns (True, a', e'))"

text \<open>\<open>StartAgent\<close> up to the start of the loops: \<open>False\<close> when the server cannot be reached.\<close>

definition StartAgent_dial ::
    "'e etcd_api \<Rightarrow> 'e \<Rightarrow> (string \<Rightarrow> conn result) \<Rightarrow> Agent \<Rightarrow> bool \<times> Agent" where
  "StartAgent_dial api e dial a =
     (case dial (cfg_value api e ''/server/cfg/common/agentbind'') of
        Inl err \<Rightarrow> (False, a)
      | Inr k \<Rightarrow> (True, a\<lparr>a_Conn := Some k\<rparr>))"

section \<open>The reader satisfies the contract of the framing\<close>

definition agent_ok :: "'e \<times> int \<Rightarrow> Agent \<Rightarrow> bool" where
  "agent_ok env a \<longleftrightarrow> a_Valid a \<and> a_Conn a \<noteq> None"

definition agent_conn :: "Agent \<Rightarrow> conn" where
  "agent_conn a = the (a_Conn a)"

lemma agent_ok_cong:
  "a_Valid a' = a_Valid a \<Longrightarrow> (a_Conn a' = None) = (a_Conn a = None) \<Longrightarrow> agent_ok env a' = agent_ok env' a"
  by (simp add: agent_ok_def)

text \<open>A turn that reads, whichever of the two reading branches it takes.\<close>

lemma agent_turn_read:
  assumes "a_Valid a" and "a_Conn a = Some k0"
    and "length (a_ReadBuf a) < 4 \<or> a_ReadMsgPayloadLth a + 8 > of_nat (length (a_ReadBuf a))"
  shows "\<exists>d. agent_GetMsg_turn api env a =
    (case conn_Read 256 k0 of
       (ReadBlocks, k) \<Rightarrow> Blocks (a\<lparr>a_Conn := Some (k\<lparr>read_deadline := d\<rparr>)\<rparr>)
     | (ReadErr err, k) \<Rightarrow> Return (Inl err) (a\<lparr>a_Conn := Some (k\<lparr>read_deadline := d\<rparr>)\<rparr>)
     | (ReadData b, k) \<Rightarrow>
         Again (a\<lparr>a_Conn := Some (k\<lparr>read_deadline := None\<rparr>), a_ReadBuf := a_ReadBuf a @ b,
           a_ReadMsgPayloadLth :=
             if length (a_ReadBuf a) < 4 \<and> length (a_ReadBuf a @ b) \<ge> 4
             then the (head_length (a_ReadBuf a @ b)) else a_ReadMsgPayloadLth a\<rparr>))"
proof -
  obtain e now where env: "env = (e, now)" by force
  let ?d = "Some (now + seconds (fst (Atoi (cfg_value api e ''/server/cfg/common/readtimeout''))))"
  show ?thesis
    using assms go_slice_head
    by (intro exI [of _ ?d])
      (auto simp: env agent_GetMsg_turn_def Let_def a_set_read_deadline_def conn_Read_deadline
        split: prod.splits read_result.splits option.splits)
qed

lemma agent_turn_full:
  assumes "a_Valid a" and "a_Conn a = Some k0" and "4 \<le> length (a_ReadBuf a)"
    and "\<not> a_ReadMsgPayloadLth a + 8 > of_nat (length (a_ReadBuf a))"
  shows "\<exists>d. agent_GetMsg_turn api env a = agent_take_message (a_set_read_deadline d a)"
  using assms by (auto simp: agent_GetMsg_turn_def Let_def a_set_read_deadline_def split: prod.splits)

interpretation agent_reader: frame_reader "agent_GetMsg_turn api" "agent_GetMsg api" agent_ok
  a_ReadBuf a_ReadMsgPayloadLth agent_conn for api :: "'e etcd_api"
proof (unfold_locales, goal_cases)
  case (1 s)
  then show ?case by simp
next
  case (2 e es s)
  then show ?case by simp
next
  case (3 e s b k)
  then obtain k0 where k: "a_Valid s" "a_Conn s = Some k0" "conn_Read 256 k0 = (ReadData b, k)"
    by (auto simp: agent_ok_def agent_conn_def)
  from agent_turn_read [OF k(1,2) 3(2), of api e] k(3) head_length_Some [of "a_ReadBuf s @ b"]
  show ?case using k by (auto simp: agent_conn_def agent_ok_def)
next
  case (4 e s err k)
  then obtain k0 where k: "a_Valid s" "a_Conn s = Some k0" "conn_Read 256 k0 = (ReadErr err, k)"
    by (auto simp: agent_ok_def agent_conn_def)
  from agent_turn_read [OF k(1,2) 4(2), of api e] k(3) show ?case by auto
next
  case (5 e s k)
  then obtain k0 where k: "a_Valid s" "a_Conn s = Some k0" "conn_Read 256 k0 = (ReadBlocks, k)"
    by (auto simp: agent_ok_def agent_conn_def)
  from agent_turn_read [OF k(1,2) 5(2), of api e] k(3) show ?case by auto
next
  case (6 e s)
  note sl = frame_slices [OF 6(2,4,5,6)]
  obtain k0 where k: "a_Valid s" "a_Conn s = Some k0" using 6(1) by (auto simp: agent_ok_def)
  have "4 \<le> length (a_ReadBuf s)" using 6(2) by simp
  from agent_turn_full [OF k this 6(3), of api e] obtain d where
    t: "agent_GetMsg_turn api e s = agent_take_message (a_set_read_deadline d s)" by blast
  obtain l where l: "head_length (drop (unat (8 + a_ReadMsgPayloadLth s)) (a_ReadBuf s)) = Some l"
    using head_length_Some by blast
  from 6 sl l k show ?case
    by (cases "a_ReadMsgPayloadLth s = 0")
      (auto simp: t agent_take_message_def a_set_read_deadline_def agent_conn_def agent_ok_def Let_def
        split: if_splits)
next
  case (7 e s)
  then obtain k0 where k: "a_Valid s" "a_Conn s = Some k0" by (auto simp: agent_ok_def)
  from agent_turn_full [OF k 7(2,3), of api e] obtain d where
    t: "agent_GetMsg_turn api e s = agent_take_message (a_set_read_deadline d s)" by blast
  from 7 show ?case
    by (auto simp: t agent_take_message_def a_set_read_deadline_def Let_def go_slice_def
        split: option.splits)
next
  case (8 e s s')
  then show ?case
    by (auto simp: agent_GetMsg_turn_def agent_take_message_def Let_def a_set_read_deadline_def
        conn_work_def conn_Read_deadline agent_conn_def dest: conn_Read_Data(2)
        split: if_splits prod.splits read_result.splits option.splits)
qed

section \<open>Properties\<close>

lemma agent_packet_eq:
  "agent_packet m = packet (MsgType m) (case MsgProto m of None \<Rightarrow> [] | Some pb \<Rightarrow> fst (proto_Marshal pb))"
  by (simp add: agent_packet_def packet_def Let_def)

lemma agent_SendMsg_Valid: "agent_SendMsg api env m a = Returns a' \<Longrightarrow> a_Valid a' \<Longrightarrow> a_Valid a"
  by (auto simp: agent_SendMsg_def Let_def split: prod.splits option.splits if_splits)

lemma agent_HandleMsg_Valid:
  "agent_HandleMsg api mc env m (a, fs) = Returns (err, a', fs') \<Longrightarrow> a_Valid a' \<Longrightarrow> a_Valid a"
  by (auto simp: agent_HandleMsg_def HandleShellRunMsg_def HandleScriptRunMsg_def
      HandleHeartBeatRspMsg_def dest: agent_SendMsg_Valid
      split: if_splits run.splits prod.splits option.splits sum.splits)

lemma agent_turn_Valid:
  "agent_GetMsg_turn api env a = Again a' \<Longrightarrow> a_Valid a' = a_Valid a"
  "agent_GetMsg_turn api env a = Return r a' \<Longrightarrow> a_Valid a' = a_Valid a"
  by (auto simp: agent_GetMsg_turn_def agent_take_message_def Let_def a_set_read_deadline_def
      split: if_splits prod.splits read_result.splits option.splits)

lemma agent_GetMsg_Valid: "agent_GetMsg api envs a = Got r a' envs' \<Longrightarrow> a_Valid a' = a_Valid a"
  by (induction envs arbitrary: a) (auto dest: agent_turn_Valid split: turn.splits)

text \<open>
  The agent's reader has the same guarantee as the server's: it delivers exactly the packets
  of the byte stream, in order, however the network cuts the stream.
\<close>

lemma agent_GetMsg_stream:
  assumes "a_Conn a = Some k" and "a_Valid a" and "frame_inv (a_ReadBuf a) (a_ReadMsgPayloadLth a)"
    and "a_ReadBuf a @ script_data (inbound k) = packets ms @ rest"
    and "\<forall>(ty, p) \<in> set ms. length p + 264 \<le> 2 ^ 32"
    and "conn_work k + length ms \<le> length envs"
  shows "deliver (agent_GetMsg api) (length ms) envs a = map (\<lambda>(ty, p). mk_msg ty p) ms"
  using assms
  by (intro agent_reader.get_stream) (auto simp: pending_def agent_ok_def agent_conn_def)

text \<open>
  Once the agent is marked invalid, each of the six loops ends at its next turn and changes
  nothing, so that \<open>StartAgent\<close> returns and the agent is reset.
\<close>

lemma agent_loops_stop:
  assumes "\<not> a_Valid a"
  shows "Heartbeat_turn api env t a = Returns (False, a) \<and>
    Listen_turn api mc envs env (a, fs) = Some (Returns (False, a, fs)) \<and>
    PingDetct_turn api e ix resolve net now (a, i, x) = Returns (False, a, i, x) \<and>
    TcpDetct_turn api e ix resolve tnet now (a, x) = Returns (False, a, x) \<and>
    PcapDump_turn api e openLive dial pkts (a, c) = Returns (False, a, c) \<and>
    DataCollect_turn api mc ec osip valid' (a, e) = Returns (False, a, e)"
  using assms
  by (simp add: Heartbeat_turn_def Listen_turn_def PingDetct_turn_def TcpDetct_turn_def
      PcapDump_turn_def DataCollect_turn_def)

text \<open>
  A turn of \<open>Listen\<close> goes on only after a message was read and handled, and it ends the loop
  with an invalid agent when reading fails; a turn of \<open>Heartbeat\<close> goes on only when the packet
  was written.
\<close>

lemma agent_turns_end_invalid:
  "(Listen_turn api mc envs env (a, fs) = Some (Returns (goes_on, a', fs')) \<and> \<not> goes_on \<longrightarrow> \<not> a_Valid a') \<and>
   (Heartbeat_turn api env t a = Returns (goes_on', a'') \<longrightarrow> goes_on' = a_Valid a'')"
  by (auto simp: Listen_turn_def Heartbeat_turn_def Let_def
      split: if_splits got.splits sum.splits run.splits prod.splits)

end
