(* ===== verification/Config.thy ===== *)
theory Config
  imports Go_Errors
begin

text \<open>
  The configuration (\<open>src/util/config/config.go\<close>).  \<open>CfgInit\<close> stores one and the same Go map
  under every section it finds, so the model has an explicit store of maps: \<open>items\<close> holds
  references, \<open>maps\<close> the contents.  The INI reader is the parameter \<open>goconfig\<close>: what
  \<open>LoadConfigFile\<close>, \<open>GetSectionList\<close>, \<open>GetKeyList\<close> and \<open>GetValue\<close> return; the library that
  provides it is in \<open>Goconfig\<close>.
\<close>

type_synonym map_ref = nat

record Conf =
  items :: "string \<rightharpoonup> map_ref"
  maps :: "map_ref \<Rightarrow> (string \<rightharpoonup> string)"

record 'f goconfig =
  ini_Load :: "string \<Rightarrow> 'f result"
  ini_Sections :: "'f \<Rightarrow> string list"
  ini_Keys :: "'f \<Rightarrow> string \<Rightarrow> string list"
  ini_Value :: "'f \<Rightarrow> string \<Rightarrow> string \<Rightarrow> string result"

text \<open>The inner loop: \<open>secvalue[b], err = cfg.GetValue(v, b)\<close>, then \<open>c.items[v] = secvalue\<close>.\<close>

fun cfg_keys :: "'f goconfig \<Rightarrow> 'f \<Rightarrow> map_ref \<Rightarrow> string \<Rightarrow> string list \<Rightarrow> Conf \<Rightarrow> Conf run" where
  "cfg_keys gc f secvalue v [] c = Returns c"
| "cfg_keys gc f secvalue v (b # keys) c =
     (case ini_Value gc f v b of
        Inl err \<Rightarrow> Panics
      | Inr x \<Rightarrow>
          cfg_keys gc f secvalue v keys
            (c\<lparr>maps := (maps c)(secvalue := (maps c secvalue)(b \<mapsto> x)),
               items := (items c)(v \<mapsto> secvalue)\<rparr>))"

fun cfg_sections :: "'f goconfig \<Rightarrow> 'f \<Rightarrow> map_ref \<Rightarrow> string list \<Rightarrow> Conf \<Rightarrow> Conf run" where
  "cfg_sections gc f secvalue [] c = Returns c"
| "cfg_sections gc f secvalue (v # secs) c =
     (case cfg_keys gc f secvalue v (ini_Keys gc f v) c of
        Panics \<Rightarrow> Panics
      | Returns c' \<Rightarrow> cfg_sections gc f secvalue secs c')"

definition CfgInit :: "'f goconfig \<Rightarrow> string \<Rightarrow> Conf run" where
  "CfgInit gc filename =
     (let secvalue = 0; c = \<lparr>items = Map.empty, maps = (\<lambda>_. Map.empty)\<rparr>
      in case ini_Load gc filename of
           Inl err \<Rightarrow> Panics
         | Inr f \<Rightarrow> cfg_sections gc f secvalue (ini_Sections gc f) c)"

text \<open>Indexing a nil map or a missing key yields the empty string.\<close>

definition GetStr :: "Conf \<Rightarrow> string \<Rightarrow> string \<Rightarrow> string" where
  "GetStr c section seckey =
     (case items c section of
        None \<Rightarrow> []
      | Some r \<Rightarrow> (case maps c r seckey of None \<Rightarrow> [] | Some x \<Rightarrow> x))"

definition GetBool :: "Conf \<Rightarrow> string \<Rightarrow> string \<Rightarrow> bool" where
  "GetBool c section seckey \<longleftrightarrow>
     GetStr c section seckey = ''true'' \<or> GetStr c section seckey = ''1''"

definition GetInt :: "Conf \<Rightarrow> string \<Rightarrow> string \<Rightarrow> int" where
  "GetInt c section seckey = fst (Atoi (GetStr c section seckey))"

section \<open>What a loaded configuration answers\<close>

text \<open>Every pair of the file, in file order; \<open>None\<close> where \<open>GetValue\<close> fails.\<close>

definition cfg_pairs :: "'f goconfig \<Rightarrow> 'f \<Rightarrow> string list \<Rightarrow> (string \<times> string) list" where
  "cfg_pairs gc f secs =
     concat (map (\<lambda>v. map (\<lambda>b. (b, projr (ini_Value gc f v b))) (ini_Keys gc f v)) secs)"

definition cfg_readable :: "'f goconfig \<Rightarrow> 'f \<Rightarrow> bool" where
  "cfg_readable gc f \<longleftrightarrow>
     list_all (\<lambda>v. list_all (\<lambda>b. \<not> isl (ini_Value gc f v b)) (ini_Keys gc f v)) (ini_Sections gc f)"

lemma cfg_keys_eq:
  "cfg_keys gc f r v keys c =
     (if list_all (\<lambda>b. \<not> isl (ini_Value gc f v b)) keys then
        Returns \<lparr>items = (if keys = [] then items c else (items c)(v \<mapsto> r)),
                 maps = (maps c)(r := maps c r ++ map_of (rev (map (\<lambda>b. (b, projr (ini_Value gc f v b))) keys)))\<rparr>
      else Panics)"
proof (induction keys arbitrary: c)
  case (Cons b keys)
  show ?case
  proof (cases "ini_Value gc f v b")
    case (Inr x)
    then show ?thesis
      by (simp add: Cons map_add_def fun_eq_iff split: option.splits)
  qed simp
qed simp

lemma cfg_sections_eq:
  assumes "list_all (\<lambda>v. list_all (\<lambda>b. \<not> isl (ini_Value gc f v b)) (ini_Keys gc f v)) secs"
  shows "cfg_sections gc f r secs c =
    Returns \<lparr>items = (\<lambda>s. if s \<in> set secs \<and> ini_Keys gc f s \<noteq> [] then Some r else items c s),
             maps = (maps c)(r := maps c r ++ map_of (rev (cfg_pairs gc f secs)))\<rparr>"
  using assms
proof (induction secs arbitrary: c)
  case (Cons v secs)
  then show ?case
    by (auto simp: cfg_keys_eq cfg_pairs_def fun_eq_iff map_add_def map_of_append split: option.splits)
qed (simp add: cfg_pairs_def)

lemma cfg_sections_panics:
  assumes "\<not> list_all (\<lambda>v. list_all (\<lambda>b. \<not> isl (ini_Value gc f v b)) (ini_Keys gc f v)) secs"
  shows "cfg_sections gc f r secs c = Panics"
  using assms by (induction secs arbitrary: c) (auto simp: cfg_keys_eq)

lemma CfgInit_eq:
  assumes "ini_Load gc fn = Inr f"
  shows "CfgInit gc fn =
    (if cfg_readable gc f then
       Returns \<lparr>items = (\<lambda>s. if s \<in> set (ini_Sections gc f) \<and> ini_Keys gc f s \<noteq> []
                           then Some 0 else None),
                maps = (\<lambda>_. Map.empty)(0 := map_of (rev (cfg_pairs gc f (ini_Sections gc f))))\<rparr>
     else Panics)"
  using assms
  by (auto simp: CfgInit_def Let_def cfg_readable_def cfg_sections_eq cfg_sections_panics)

text \<open>A concrete reader, the file being the list of its sections: used by the witnesses.\<close>

type_synonym ini = "(string \<times> (string \<times> string) list) list"

definition list_reader :: "ini \<Rightarrow> ini goconfig" where
  "list_reader file =
     \<lparr>ini_Load = (\<lambda>_. Inr file),
      ini_Sections = map fst,
      ini_Keys = (\<lambda>f s. case map_of f s of None \<Rightarrow> [] | Some kvs \<Rightarrow> map fst kvs),
      ini_Value = (\<lambda>f s k. case map_of f s of
                    None \<Rightarrow> Inl (ExtError ''section'')
                  | Some kvs \<Rightarrow> (case map_of kvs k of None \<Rightarrow> Inl (ExtError ''key'') | Some v \<Rightarrow> Inr v))\<rparr>"

definition sample_ini :: ini where
  "sample_ini = [(''tcp'', [(''readtimeout'', ''20''), (''heartbeattimeout'', ''60'')]),
                 (''mysql'', [(''USER_NAME'', ''root'')])]"

definition sample_conf :: Conf where
  "sample_conf =
     (case CfgInit (list_reader sample_ini) ''conf/default.ini'' of Returns c \<Rightarrow> c
      | Panics \<Rightarrow> \<lparr>items = Map.empty, maps = (\<lambda>_. Map.empty)\<rparr>)"

lemmas sample_config_defs = list_reader_def sample_ini_def cfg_readable_def cfg_pairs_def

lemma CfgInit_sample: "CfgInit (list_reader sample_ini) ''conf/default.ini'' = Returns sample_conf"
  by (simp add: sample_conf_def CfgInit_def Let_def sample_config_defs)

section \<open>Properties\<close>

text \<open>
  Loading a configuration ends the program exactly when the file cannot be loaded or one of
  its keys has no readable value; otherwise every key is stored.
\<close>

lemma CfgInit_panics_iff:
  "CfgInit gc fn = Panics \<longleftrightarrow>
     (case ini_Load gc fn of Inl e \<Rightarrow> True | Inr f \<Rightarrow> \<not> cfg_readable gc f)"
  by (auto simp: CfgInit_eq split: sum.splits) (simp add: CfgInit_def)

text \<open>
  What a loaded configuration answers, for every section and key: a section with at least one
  key answers with the last value the key has anywhere in the file, whatever section it stands
  in, because all sections share one map; a section without keys answers the empty string.
\<close>

lemma CfgInit_GetStr:
  assumes "ini_Load gc fn = Inr f" and "CfgInit gc fn = Returns c"
  shows "GetStr c s k =
    (if s \<in> set (ini_Sections gc f) \<and> ini_Keys gc f s \<noteq> []
     then (case map_of (rev (cfg_pairs gc f (ini_Sections gc f))) k of None \<Rightarrow> [] | Some x \<Rightarrow> x)
     else [])"
  using assms by (auto simp: CfgInit_eq GetStr_def split: if_splits)

text \<open>
  When a key name occurs in one section only, and once, the configuration answers with the
  value the file gives it there.
\<close>

lemma CfgInit_GetStr_unique:
  assumes "ini_Load gc fn = Inr f" and "CfgInit gc fn = Returns c"
    and "s \<in> set (ini_Sections gc f)" and "k \<in> set (ini_Keys gc f s)"
    and "\<And>t. t \<in> set (ini_Sections gc f) \<Longrightarrow> k \<in> set (ini_Keys gc f t) \<Longrightarrow> t = s"
  shows "ini_Value gc f s k = Inr (GetStr c s k)"
proof -
  let ?ps = "cfg_pairs gc f (ini_Sections gc f)"
  have r: "cfg_readable gc f" using assms(1,2) CfgInit_eq [of gc fn f] by (auto split: if_splits)
  have "(k, projr (ini_Value gc f s k)) \<in> set (rev ?ps)"
    using assms(3,4) by (auto simp: cfg_pairs_def)
  then have "k \<in> fst ` set (rev ?ps)" by (rule image_eqI [rotated]) simp
  then have "map_of (rev ?ps) k \<noteq> None" by (simp only: map_of_eq_None_iff) simp
  then obtain x where x: "map_of (rev ?ps) k = Some x" by blast
  then have "(k, x) \<in> set ?ps" by (auto dest: map_of_SomeD)
  then have "x = projr (ini_Value gc f s k)" using assms(5) by (auto simp: cfg_pairs_def)
  with x have m: "map_of (rev ?ps) k = Some (projr (ini_Value gc f s k))" by simp
  have "\<not> isl (ini_Value gc f s k)"
    using r assms(3,4) by (auto simp: cfg_readable_def list_all_iff)
  then have "ini_Value gc f s k = Inr (projr (ini_Value gc f s k))" by simp
  moreover have "GetStr c s k = projr (ini_Value gc f s k)"
    using assms(1-4) CfgInit_eq [of gc fn f] r m by (auto simp: GetStr_def)
  ultimately show ?thesis by simp
qed

end
