(* ===== verification/Tcp_Client.thy ===== *)
theory Tcp_Client
  imports Channel Config Go_Time
begin

text \<open>
  The server's side of one connection (\<open>src/service/server/client.go\<close>): the record \<open>TcpClient\<close>, the
  heartbeat check, the reader loop and the sender.  One clock reading is given to each turn of
  the loop.  The mutex \<open>SendLock\<close> makes \<open>SendMsg\<close> one step; log output is not modelled.
\<close>

record TcpClient =
  ClientID :: string
  Conn :: conn
  Valid :: bool
  ReadBuf :: "byte list"
  ReadMsgPayloadLth :: u32
  LastHeartbeatSyncTime :: string

definition no_heartbeat :: string where
  "no_heartbeat = ''1970-01-01 00:00:00''"

definition NewClient :: "conn \<Rightarrow> string \<Rightarrow> TcpClient" where
  "NewClient k clientid =
     \<lparr>ClientID = clientid, Conn = k, Valid = True, ReadBuf = [], ReadMsgPayloadLth = 0,
      LastHeartbeatSyncTime = no_heartbeat\<rparr>"

definition SetLastHeartBeatSyncTime :: "string \<Rightarrow> TcpClient \<Rightarrow> TcpClient" where
  "SetLastHeartBeatSyncTime t c = c\<lparr>LastHeartbeatSyncTime := t\<rparr>"

definition JudgeValid :: "Conf \<Rightarrow> int \<Rightarrow> TcpClient \<Rightarrow> bool" where
  "JudgeValid cf now c =
     (if Valid c = False then False
      else if LastHeartbeatSyncTime c = no_heartbeat then True
      else let h = parse_neg_seconds (GetInt cf ''tcp'' ''heartbeattimeout'');
               nextTimeout = wrap64 (now + h);
               lastSync = parse_UnixNano (LastHeartbeatSyncTime c)
           in \<not> nextTimeout > lastSync)"

definition SetValid :: "bool \<Rightarrow> TcpClient \<Rightarrow> TcpClient" where
  "SetValid v c = c\<lparr>Valid := v\<rparr>"

definition set_read_deadline :: "int option \<Rightarrow> TcpClient \<Rightarrow> TcpClient" where
  "set_read_deadline d c = c\<lparr>Conn := (Conn c)\<lparr>read_deadline := d\<rparr>\<rparr>"

text \<open>The error text ``<client> is invalid''.\<close>

definition invalid_client_error :: "string \<Rightarrow> error" where
  "invalid_client_error clientid = New (clientid @ utf8_lit [0x20, 0xE6, 0x97, 0xA0, 0xE6, 0x95, 0x88])"

text \<open>
  The last branch of the loop: a whole packet is in the buffer.  The slice expressions check
  their bounds as Go does.  (Go bounds \<open>ReadBuf[4:8]\<close> by the capacity of the slice; it can be longer
  than the slice itself only when the length field has wrapped around, and then the next slice
  expression panics as well.)
\<close>

definition take_message :: "TcpClient \<Rightarrow> TcpClient turn" where
  "take_message c0 =
     (let c = set_read_deadline None c0; rb = ReadBuf c;
          msgLength = 8 + ReadMsgPayloadLth c
      in case Option.bind (go_slice 4 8 rb) BigEndian_Uint32 of
           None \<Rightarrow> TurnPanics
         | Some ty \<Rightarrow>
             if ReadMsgPayloadLth c = 0 then
               (case (if of_nat (length rb) = msgLength then Some []
                      else go_slice (unat msgLength) (length rb) rb) of
                  None \<Rightarrow> TurnPanics
                | Some rb' \<Rightarrow>
                    (case head_length rb' of
                       None \<Rightarrow> TurnPanics
                     | Some l \<Rightarrow>
                         Return (Inr (mk_msg ty [])) (c\<lparr>ReadBuf := rb', ReadMsgPayloadLth := l\<rparr>)))
             else
               (case go_slice 8 (unat msgLength) rb of
                  None \<Rightarrow> TurnPanics
                | Some payload \<Rightarrow>
                    (case go_slice (unat msgLength) (length rb) rb of
                       None \<Rightarrow> TurnPanics
                     | Some rb' \<Rightarrow>
                         (case head_length rb' of
                            None \<Rightarrow> TurnPanics
                          | Some l \<Rightarrow>
                              Return (Inr (mk_msg ty payload))
                                (c\<lparr>ReadBuf := rb', ReadMsgPayloadLth := l\<rparr>)))))"

text \<open>One turn of the loop in \<open>GetMsg\<close>.\<close>

definition GetMsg_turn :: "Conf \<Rightarrow> int \<Rightarrow> TcpClient \<Rightarrow> TcpClient turn" where
  "GetMsg_turn cf now c0 =
     (if JudgeValid cf now c0 = False then Return (Inl (invalid_client_error (ClientID c0))) c0
      else
        let c = set_read_deadline (Some (now + seconds (GetInt cf ''tcp'' ''readtimeout''))) c0
        in if length (ReadBuf c) < 4 then
             (case conn_Read 256 (Conn c) of
                (ReadBlocks, k) \<Rightarrow> Blocks (c\<lparr>Conn := k\<rparr>)
              | (ReadErr err, k) \<Rightarrow> Return (Inl err) (c\<lparr>Conn := k\<rparr>)
              | (ReadData b, k) \<Rightarrow>
                  let c' = set_read_deadline None (c\<lparr>Conn := k, ReadBuf := ReadBuf c @ b\<rparr>)
                  in if length (ReadBuf c') \<ge> 4 then
                       (case Option.bind (go_slice 0 4 (ReadBuf c')) BigEndian_Uint32 of
                          None \<Rightarrow> TurnPanics
                        | Some l \<Rightarrow> Again (c'\<lparr>ReadMsgPayloadLth := l\<rparr>))
                     else Again c')
           else if ReadMsgPayloadLth c + 8 > of_nat (length (ReadBuf c)) then
             (case conn_Read 256 (Conn c) of
                (ReadBlocks, k) \<Rightarrow> Blocks (c\<lparr>Conn := k\<rparr>)
              | (ReadErr err, k) \<Rightarrow> Return (Inl err) (c\<lparr>Conn := k\<rparr>)
              | (ReadData b, k) \<Rightarrow>
                  Again (set_read_deadline None (c\<lparr>Conn := k, ReadBuf := ReadBuf c @ b\<rparr>)))
           else take_message c)"

fun GetMsg :: "Conf \<Rightarrow> int list \<Rightarrow> TcpClient \<Rightarrow> (int, TcpClient) got" where
  "GetMsg cf [] c = Cut c"
| "GetMsg cf (now # ts) c =
     (case GetMsg_turn cf now c of
        Again c' \<Rightarrow> GetMsg cf ts c'
      | Return r c' \<Rightarrow> Got r c' ts
      | Blocks c' \<Rightarrow> Waiting c'
      | TurnPanics \<Rightarrow> Crashed)"

text \<open>
  The packet of a message: the protobuf encoding behind length and type.  An encoding error is
  only logged, and the bytes that came with it are sent.
\<close>

definition msg_bytes :: "Msg \<Rightarrow> byte list" where
  "msg_bytes m = (case MsgProto m of None \<Rightarrow> [] | Some pb \<Rightarrow> fst (proto_Marshal pb))"

definition msg_packet :: "Msg \<Rightarrow> byte list" where
  "msg_packet m =
     (let protoMsgBytes = msg_bytes m
      in BigEndian_PutUint32 (of_nat (length protoMsgBytes)) @ BigEndian_PutUint32 (MsgType m)
         @ protoMsgBytes)"

definition SendMsg :: "Conf \<Rightarrow> int \<Rightarrow> Msg \<Rightarrow> TcpClient \<Rightarrow> TcpClient" where
  "SendMsg cf now m c =
     (let k = (Conn c)\<lparr>write_deadline := Some (now + seconds (GetInt cf ''tcp'' ''writetimeout''))\<rparr>
      in case conn_Write (msg_packet m) k of
           (err, k') \<Rightarrow>
             let c' = c\<lparr>Conn := k'\<rparr> in if err \<noteq> None then SetValid False c' else c')"

section \<open>The reader satisfies the contract of the framing\<close>

lemma msg_packet_eq: "msg_packet m = packet (MsgType m) (msg_bytes m)"
  by (simp add: msg_packet_def packet_def Let_def)

lemma JudgeValid_frame [simp]:
  "JudgeValid cf now (c\<lparr>Conn := k\<rparr>) = JudgeValid cf now c"
  "JudgeValid cf now (c\<lparr>ReadBuf := b\<rparr>) = JudgeValid cf now c"
  "JudgeValid cf now (c\<lparr>ReadMsgPayloadLth := l\<rparr>) = JudgeValid cf now c"
  "JudgeValid cf now (set_read_deadline d c) = JudgeValid cf now c"
  by (simp_all add: JudgeValid_def set_read_deadline_def Let_def)

lemma set_read_deadline_simps [simp]:
  "ReadBuf (set_read_deadline d c) = ReadBuf c"
  "ReadMsgPayloadLth (set_read_deadline d c) = ReadMsgPayloadLth c"
  "inbound (Conn (set_read_deadline d c)) = inbound (Conn c)"
  "ClientID (set_read_deadline d c) = ClientID c"
  by (simp_all add: set_read_deadline_def)

text \<open>A turn that reads, whichever of the two reading branches it takes.\<close>

lemma GetMsg_turn_read:
  assumes "JudgeValid cf now c"
    and "length (ReadBuf c) < 4 \<or> ReadMsgPayloadLth c + 8 > of_nat (length (ReadBuf c))"
  shows "GetMsg_turn cf now c =
    (let c1 = set_read_deadline (Some (now + seconds (GetInt cf ''tcp'' ''readtimeout''))) c
     in case conn_Read 256 (Conn c1) of
          (ReadBlocks, k) \<Rightarrow> Blocks (c1\<lparr>Conn := k\<rparr>)
        | (ReadErr err, k) \<Rightarrow> Return (Inl err) (c1\<lparr>Conn := k\<rparr>)
        | (ReadData b, k) \<Rightarrow>
            Again ((set_read_deadline None (c1\<lparr>Conn := k, ReadBuf := ReadBuf c @ b\<rparr>))
              \<lparr>ReadMsgPayloadLth :=
                 if length (ReadBuf c) < 4 \<and> length (ReadBuf c @ b) \<ge> 4
                 then the (head_length (ReadBuf c @ b)) else ReadMsgPayloadLth c\<rparr>))"
  using assms go_slice_head
  by (auto simp: GetMsg_turn_def Let_def set_read_deadline_def split: prod.splits read_result.splits)

lemma GetMsg_turn_full:
  assumes "JudgeValid cf now c" and "4 \<le> length (ReadBuf c)"
    and "\<not> ReadMsgPayloadLth c + 8 > of_nat (length (ReadBuf c))"
  shows "GetMsg_turn cf now c =
    take_message (set_read_deadline (Some (now + seconds (GetInt cf ''tcp'' ''readtimeout''))) c)"
  using assms by (simp add: GetMsg_turn_def Let_def)

interpretation client_reader: frame_reader "GetMsg_turn cf" "GetMsg cf" "JudgeValid cf" ReadBuf
  ReadMsgPayloadLth Conn for cf :: Conf
proof (unfold_locales, goal_cases)
  case (1 s)
  then show ?case by simp
next
  case (2 e es s)
  then show ?case by simp
next
  case (3 e s b k)
  then show ?case
    using head_length_Some [of "ReadBuf s @ b"]
    by (auto simp: GetMsg_turn_read set_read_deadline_def conn_Read_deadline Let_def)
next
  case (4 e s err k)
  then show ?case
    by (simp add: GetMsg_turn_read set_read_deadline_def conn_Read_deadline Let_def)
next
  case (5 e s k)
  then show ?case
    by (simp add: GetMsg_turn_read set_read_deadline_def conn_Read_deadline Let_def)
next
  case (6 e s)
  note sl = frame_slices [OF 6(2,4,5,6)]
  obtain l where l: "head_length (drop (unat (8 + ReadMsgPayloadLth s)) (ReadBuf s)) = Some l"
    using head_length_Some by blast
  from 6 sl l show ?case
    by (cases "ReadMsgPayloadLth s = 0")
      (auto simp: GetMsg_turn_full take_message_def Let_def split: if_splits)
next
  case (7 e s)
  then show ?case
    by (auto simp: GetMsg_turn_full take_message_def Let_def go_slice_def split: option.splits)
next
  case (8 e s s')
  then show ?case
    by (auto simp: GetMsg_turn_def take_message_def Let_def set_read_deadline_def conn_work_def
        conn_Read_deadline dest: conn_Read_Data(2)
        split: if_splits prod.splits read_result.splits option.splits)
qed

section \<open>Properties\<close>

lemma JudgeValid_NewClient [simp]: "JudgeValid cf now (NewClient k clientid)"
  by (simp add: JudgeValid_def NewClient_def)

lemma frame_inv_Nil [simp]: "frame_inv [] l"
  by (simp add: frame_inv_def)

lemma NewClient_simps [simp]:
  "ReadBuf (NewClient k clientid) = []" "ReadMsgPayloadLth (NewClient k clientid) = 0"
  "Conn (NewClient k clientid) = k" "Valid (NewClient k clientid)"
  "ClientID (NewClient k clientid) = clientid"
  by (simp_all add: NewClient_def)

text \<open>
  C5. The reader of the server delivers exactly the packets of the byte stream, in their order,
  with type and payload unchanged, however the network cuts the stream into segments and
  whatever part of a packet an earlier call has left in the buffer.  \<open>conn_work\<close> bounds the reads
  the script can serve, so enough clock readings are given.
\<close>

theorem GetMsg_stream:
  assumes "frame_inv (ReadBuf c) (ReadMsgPayloadLth c)"
    and "\<And>now. now \<in> set ts \<Longrightarrow> JudgeValid cf now c"
    and "ReadBuf c @ script_data (inbound (Conn c)) = packets ms @ rest"
    and "\<forall>(ty, p) \<in> set ms. length p + 264 \<le> 2 ^ 32"
    and "conn_work (Conn c) + length ms \<le> length ts"
  shows "deliver (GetMsg cf) (length ms) ts c = map (\<lambda>(ty, p). mk_msg ty p) ms"
  using assms by (intro client_reader.get_stream) (auto simp: pending_def)

theorem GetMsg_stream_witness:
  "deliver (GetMsg sample_conf) 2 (replicate 30 0)
     (NewClient (fresh_conn [InData [0, 0], InData [0, 1, 0, 0, 0], InData [4, 7, 0, 0, 0, 0, 0, 0, 0, 2]])
        ''10.0.0.1'')
   = [mk_msg 4 [7], mk_msg 2 []]"
proof -
  let ?evs = "[InData [0, 0], InData [0, 1, 0, 0, 0], InData [4, 7, 0, 0, 0, 0, 0, 0, 0, 2]]"
  let ?c = "NewClient (fresh_conn ?evs) ''10.0.0.1''"
  have "packets [(4, [7]), (2, [])] = script_data ?evs" by code_simp
  moreover have "inbound (fresh_conn ?evs) = ?evs" by (simp add: fresh_conn_def)
  ultimately have "deliver (GetMsg sample_conf) (length [(4 :: u32, [7 :: byte]), (2, [])])
      (replicate 30 0) ?c = map (\<lambda>(ty, p). mk_msg ty p) [(4, [7]), (2, [])]"
    by (intro GetMsg_stream [where rest = "[]"]) (simp_all add: conn_work_def)
  moreover have "length [(4 :: u32, [7 :: byte]), (2, [])] = 2" by simp
  ultimately show ?thesis by (simp only:) simp
qed



lemma GetMsg_crash:
  assumes "2 ^ 32 - 8 \<le> unat l" and "4 \<le> length t" and "length t \<le> 252"
  shows "GetMsg cf (t1 # t2 # ts)
    (NewClient (fresh_conn (InData (BigEndian_PutUint32 l @ t) # evs)) clientid) = Crashed"
proof -
  let ?b = "BigEndian_PutUint32 l @ t"
  let ?c = "NewClient (fresh_conn (InData ?b # evs)) clientid"
  obtain c' where c': "GetMsg_turn cf t1 ?c = Again c'" "ReadBuf c' = ?b" "ReadMsgPayloadLth c' = l"
    "JudgeValid cf t2 c'"
    using assms(2,3)
    by (simp add: GetMsg_turn_read fresh_conn_def conn_Read_def set_read_deadline_def Let_def
        head_length_eq)
  have "GetMsg cf (t2 # ts) c' = Crashed"
    using assms c' by (intro client_reader.get_overflow) auto
  with c'(1) show ?thesis by simp
qed

text \<open>
  A peer that announces a payload within eight bytes of the largest 32-bit length crashes
  the server: \<open>ReadMsgPayloadLth+8\<close> wraps around and the slice expression behind it panics.
\<close>

lemma GetMsg_length_wraps:
  assumes "2 ^ 32 - 8 \<le> unat l" and "4 \<le> length t" and "length t \<le> 252"
  shows "GetMsg cf (t1 # t2 # ts)
    (NewClient (fresh_conn (InData (BigEndian_PutUint32 l @ t) # evs)) clientid) = Crashed"
  using assms by (rule GetMsg_crash)

lemma JudgeValid_until:
  assumes "Valid c" and "LastHeartbeatSyncTime c \<noteq> no_heartbeat"
    and "time_Parse (LastHeartbeatSyncTime c) = Some (sec, nsec)"
    and "\<bar>sec * second + nsec\<bar> < 2 ^ 62" and "0 \<le> now" and "now < 2 ^ 62"
    and "0 \<le> GetInt cf ''tcp'' ''heartbeattimeout''"
    and "GetInt cf ''tcp'' ''heartbeattimeout'' * second < 2 ^ 62"
  shows "JudgeValid cf now c \<longleftrightarrow>
    now \<le> sec * second + nsec + GetInt cf ''tcp'' ''heartbeattimeout'' * second"
proof -
  let ?n = "GetInt cf ''tcp'' ''heartbeattimeout''"
  have h: "parse_neg_seconds ?n = - (?n * second)"
    using assms(7,8) by (simp add: parse_neg_seconds_def second_def)
  have "wrap64 (now - ?n * second) = now - ?n * second"
    using assms(5-8) by (intro wrap64_id) (simp_all add: second_def)
  moreover have "UnixNano sec nsec = sec * second + nsec"
    using assms(4) by (simp add: UnixNano_def wrap64_id)
  ultimately show ?thesis
    using assms(1-3) h by (auto simp: JudgeValid_def Let_def parse_UnixNano_def)
qed

text \<open>
  C24. A client that has sent a heartbeat is valid exactly as long as no more than
  \<open>heartbeattimeout\<close> seconds have passed since the time it named, which is read as UTC.
\<close>

theorem JudgeValid_deadline:
  assumes "Valid c" and "LastHeartbeatSyncTime c \<noteq> no_heartbeat"
    and "time_Parse (LastHeartbeatSyncTime c) = Some (sec, nsec)"
    and "\<bar>sec * second + nsec\<bar> < 2 ^ 62" and "0 \<le> now" and "now < 2 ^ 62"
    and "0 \<le> GetInt cf ''tcp'' ''heartbeattimeout''"
    and "GetInt cf ''tcp'' ''heartbeattimeout'' * second < 2 ^ 62"
  shows "JudgeValid cf now c \<longleftrightarrow>
    now \<le> sec * second + nsec + GetInt cf ''tcp'' ''heartbeattimeout'' * second"
  using assms by (rule JudgeValid_until)

lemma sample_heartbeattimeout: "GetInt sample_conf ''tcp'' ''heartbeattimeout'' = 60"
  by code_simp

theorem JudgeValid_deadline_witness:
  "JudgeValid sample_conf (946684860 * second)
     (SetLastHeartBeatSyncTime ''2000-01-01 00:00:00'' (NewClient (fresh_conn []) ''10.0.0.1''))
   \<and> \<not> JudgeValid sample_conf (946684860 * second + 1)
     (SetLastHeartBeatSyncTime ''2000-01-01 00:00:00'' (NewClient (fresh_conn []) ''10.0.0.1''))"
proof -
  let ?c = "SetLastHeartBeatSyncTime ''2000-01-01 00:00:00'' (NewClient (fresh_conn []) ''10.0.0.1'')"
  have t: "time_Parse ''2000-01-01 00:00:00'' = Some (946684800, 0)" by code_simp
  have "Valid ?c" "LastHeartbeatSyncTime ?c = ''2000-01-01 00:00:00''"
    by (simp_all add: SetLastHeartBeatSyncTime_def)
  then show ?thesis
    using JudgeValid_deadline [of ?c 946684800 0 "946684860 * second" sample_conf]
      JudgeValid_deadline [of ?c 946684800 0 "946684860 * second + 1" sample_conf]
    by (simp add: t sample_heartbeattimeout no_heartbeat_def second_def)
qed

text \<open>
  A heartbeat whose time text does not have the layout the server expects makes the client
  invalid at once, whatever timeout is configured: the parse error is ignored and the zero time
  is compared.
\<close>

lemma JudgeValid_unparsable:
  assumes "LastHeartbeatSyncTime c \<noteq> no_heartbeat" and "time_Parse (LastHeartbeatSyncTime c) = None"
    and "0 \<le> now" and "now < 2 ^ 62" and "GetInt cf ''tcp'' ''heartbeattimeout'' * second < 2 ^ 62"
  shows "\<not> JudgeValid cf now c"
proof -
  let ?h = "parse_neg_seconds (GetInt cf ''tcp'' ''heartbeattimeout'')"
  have h: "- (2 ^ 62) < ?h" "?h \<le> 0"
    using assms(5) by (auto simp: parse_neg_seconds_def second_def)
  then have "wrap64 (now + ?h) = now + ?h"
    using assms(3,4) by (intro wrap64_id) simp_all
  then show ?thesis
    using assms h by (simp add: JudgeValid_def Let_def parse_UnixNano_def UnixNano_zero_time)
qed

text \<open>
  Sending: the packet goes out as a whole and the client stays as it was, or the write fails,
  at most a prefix went out, and the client is marked invalid, so that its reader ends.
\<close>

lemma SendMsg_outcome:
  "(outbound (Conn (SendMsg cf now m c)) = outbound (Conn c) @ packet (MsgType m) (msg_bytes m)
      \<and> Valid (SendMsg cf now m c) = Valid c)
   \<or> ((\<exists>n. outbound (Conn (SendMsg cf now m c)) =
            outbound (Conn c) @ take n (packet (MsgType m) (msg_bytes m)))
      \<and> \<not> JudgeValid cf now' (SendMsg cf now m c))"
  by (rule conn_Write_cases [of "msg_packet m" "(Conn c)\<lparr>write_deadline :=
        Some (now + seconds (GetInt cf ''tcp'' ''writetimeout''))\<rparr>"])
    (auto simp: SendMsg_def SetValid_def JudgeValid_def Let_def msg_packet_eq)

end
