(* ===== verification/Mysql.thy ===== *)
theory Mysql
  imports Config
begin

text \<open>
  The database helper (\<open>src/util/mysql/mysql.go\<close>).  What the database answers is the parameter
  \<open>sql_api\<close> over a database state of any type; the session around it counts the transactions,
  statements and row sets that Go's \<open>database/sql\<close> holds open, since each open transaction keeps
  one of the ten connections of the pool.
\<close>

section \<open>database/sql\<close>

datatype sqlval = SqlNull | SqlInt int | SqlText string

type_synonym row = "sqlval list"

text \<open>A result set: its rows, and the error that ended the iteration early, if any.\<close>

type_synonym rowset = "row list \<times> error option"

record 'd sql_api =
  sql_Open :: "string \<Rightarrow> error option"
  sql_Ping :: "'d \<Rightarrow> error option"
  sql_Begin :: "'d \<Rightarrow> error option"
  sql_Prepare :: "'d \<Rightarrow> string \<Rightarrow> error option"
  sql_Query :: "'d \<Rightarrow> string \<Rightarrow> sqlval list \<Rightarrow> rowset result"
  sql_Exec :: "'d \<Rightarrow> string \<Rightarrow> sqlval list \<Rightarrow> (int \<times> int) result \<times> 'd"
  sql_Commit :: "'d \<Rightarrow> error option \<times> 'd"
  sql_Rollback :: "'d \<Rightarrow> 'd"

record 'd session =
  sdb :: 'd
  open_txs :: nat
  open_stmts :: nat
  open_rows :: nat

definition db_Begin :: "'d sql_api \<Rightarrow> 'd session \<Rightarrow> error option \<times> 'd session" where
  "db_Begin api s =
     (case sql_Begin api (sdb s) of
        Some err \<Rightarrow> (Some err, s)
      | None \<Rightarrow> (None, s\<lparr>open_txs := Suc (open_txs s)\<rparr>))"

definition tx_Prepare :: "'d sql_api \<Rightarrow> string \<Rightarrow> 'd session \<Rightarrow> error option \<times> 'd session" where
  "tx_Prepare api sql s =
     (case sql_Prepare api (sdb s) sql of
        Some err \<Rightarrow> (Some err, s)
      | None \<Rightarrow> (None, s\<lparr>open_stmts := Suc (open_stmts s)\<rparr>))"

definition stmt_Query ::
    "'d sql_api \<Rightarrow> string \<Rightarrow> sqlval list \<Rightarrow> 'd session \<Rightarrow> rowset result \<times> 'd session" where
  "stmt_Query api sql args s =
     (case sql_Query api (sdb s) sql args of
        Inl err \<Rightarrow> (Inl err, s)
      | Inr rs \<Rightarrow> (Inr rs, s\<lparr>open_rows := Suc (open_rows s)\<rparr>))"

definition stmt_Exec ::
    "'d sql_api \<Rightarrow> string \<Rightarrow> sqlval list \<Rightarrow> 'd session \<Rightarrow> (int \<times> int) result \<times> 'd session" where
  "stmt_Exec api sql args s =
     (case sql_Exec api (sdb s) sql args of (r, d) \<Rightarrow> (r, s\<lparr>sdb := d\<rparr>))"

definition rows_Close :: "'d session \<Rightarrow> 'd session" where
  "rows_Close s = s\<lparr>open_rows := open_rows s - 1\<rparr>"

definition stmt_Close :: "'d session \<Rightarrow> 'd session" where
  "stmt_Close s = s\<lparr>open_stmts := open_stmts s - 1\<rparr>"

definition tx_Rollback :: "'d sql_api \<Rightarrow> 'd session \<Rightarrow> 'd session" where
  "tx_Rollback api s = s\<lparr>sdb := sql_Rollback api (sdb s), open_txs := open_txs s - 1\<rparr>"

text \<open>A transaction is over after \<open>Commit\<close>, whether it succeeds or not.\<close>

definition tx_Commit :: "'d sql_api \<Rightarrow> 'd session \<Rightarrow> error option \<times> 'd session" where
  "tx_Commit api s =
     (case sql_Commit api (sdb s) of (r, d) \<Rightarrow> (r, s\<lparr>sdb := d, open_txs := open_txs s - 1\<rparr>))"

lemmas session_defs = db_Begin_def tx_Prepare_def stmt_Query_def stmt_Exec_def rows_Close_def
  stmt_Close_def tx_Rollback_def tx_Commit_def

text \<open>\<open>Scan\<close> into a \<open>*string\<close> and into an \<open>*int\<close>.\<close>

definition scan_string :: "sqlval \<Rightarrow> string result" where
  "scan_string v =
     (case v of
        SqlNull \<Rightarrow> Inl (ExtError ''converting NULL to string is unsupported'')
      | SqlInt i \<Rightarrow> Inr (Itoa i)
      | SqlText s \<Rightarrow> Inr s)"

definition scan_int :: "sqlval \<Rightarrow> int result" where
  "scan_int v =
     (case v of
        SqlNull \<Rightarrow> Inl (ExtError ''converting NULL to int is unsupported'')
      | SqlInt i \<Rightarrow> Inr i
      | SqlText s \<Rightarrow>
          (case Atoi s of
             (i, None) \<Rightarrow> Inr i
           | (_, Some e) \<Rightarrow> Inl (ExtError ''converting driver.Value type to a int'')))"

section \<open>The helper\<close>

text \<open>\<open>initialized\<close> tells whether the field \<open>db\<close> holds a pool.\<close>

record MySQLUtil =
  initialized :: bool

definition CloseConn :: "MySQLUtil \<Rightarrow> MySQLUtil" where
  "CloseConn m = (if initialized m then m\<lparr>initialized := False\<rparr> else m)"

definition connStr :: "Conf \<Rightarrow> string" where
  "connStr cf =
     GetStr cf ''mysql'' ''USER_NAME'' @ '':'' @ GetStr cf ''mysql'' ''USER_PASS''
     @ ''@tcp('' @ GetStr cf ''mysql'' ''ADDR_PORT'' @ '')/'' @ GetStr cf ''mysql'' ''DATA_BASE''
     @ ''?autocommit=0&collation=utf8_general_ci&parseTime=true''"

text \<open>An error of \<open>sql.Open\<close> is only logged, and the next call uses a nil pool.\<close>

definition DbInit :: "'d sql_api \<Rightarrow> Conf \<Rightarrow> 'd \<Rightarrow> MySQLUtil \<Rightarrow> MySQLUtil run" where
  "DbInit api cf d m0 =
     (let m = CloseConn m0
      in case sql_Open api (connStr cf) of
           Some err \<Rightarrow> Panics
         | None \<Rightarrow>
             (case sql_Ping api d of
                Some err \<Rightarrow> Panics
              | None \<Rightarrow> Returns (m\<lparr>initialized := True\<rparr>)))"

text \<open>\<open>GetConn\<close> returns the pool, or nil.\<close>

definition GetConn :: "MySQLUtil \<Rightarrow> bool" where
  "GetConn m = (if initialized m = False then False else True)"

text \<open>\<open>GetTx\<close> returns a transaction (\<open>True\<close>) or nil.\<close>

definition GetTx :: "'d sql_api \<Rightarrow> MySQLUtil \<Rightarrow> 'd session \<Rightarrow> bool \<times> 'd session" where
  "GetTx api m s =
     (if initialized m = False then (False, s)
      else case db_Begin api s of (Some err, s') \<Rightarrow> (False, s') | (None, s') \<Rightarrow> (True, s'))"

text \<open>
  \<open>SimpleQuery\<close> reads at most one row into its result arguments: \<open>scan\<close> is the conversion they
  ask for, and the third component is what was read.
\<close>

definition SimpleQuery ::
    "'d sql_api \<Rightarrow> MySQLUtil \<Rightarrow> string \<Rightarrow> sqlval list \<Rightarrow> (row \<Rightarrow> 'r result) \<Rightarrow> 'd session
      \<Rightarrow> (int \<times> error option \<times> 'r option) \<times> 'd session" where
  "SimpleQuery api m sql args scan s =
     (if initialized m = False then ((-1, Some DBError, None), s)
      else case GetTx api m s of
        (False, s1) \<Rightarrow> ((-1, Some DBError, None), s1)
      | (True, s1) \<Rightarrow>
          (case tx_Prepare api sql s1 of
             (Some err, s2) \<Rightarrow> ((-1, Some DBError, None), tx_Rollback api s2)
           | (None, s2) \<Rightarrow>
               (case stmt_Query api sql args s2 of
                  (Inl err, s3) \<Rightarrow> ((-1, Some DBError, None), stmt_Close s3)
                | (Inr (rows, rowsErr), s3) \<Rightarrow>
                    (case rows of
                       r # _ \<Rightarrow>
                         (case scan r of
                            Inl err \<Rightarrow>
                              ((-1, Some DBError, None), tx_Rollback api (stmt_Close (rows_Close s3)))
                          | Inr x \<Rightarrow>
                              ((1, None, Some x), snd (tx_Commit api (stmt_Close (rows_Close s3)))))
                     | [] \<Rightarrow>
                         (case rowsErr of
                            Some err \<Rightarrow>
                              ((-1, Some DBError, None), tx_Rollback api (stmt_Close (rows_Close s3)))
                          | None \<Rightarrow>
                              ((0, None, None), snd (tx_Commit api (stmt_Close (rows_Close s3)))))))))"

text \<open>
  The loop \<open>for rows.Next() { err := rows.Scan(...) ... append }\<close> of \<open>AllNoArgQuery\<close> and of the
  data access object.  An error that ends the iteration is not looked at.
\<close>

fun scan_rows :: "(row \<Rightarrow> 'r result) \<Rightarrow> row list \<Rightarrow> 'r list result" where
  "scan_rows scan [] = Inr []"
| "scan_rows scan (r # rows) =
     (case scan r of
        Inl err \<Rightarrow> Inl err
      | Inr x \<Rightarrow> (case scan_rows scan rows of Inl err \<Rightarrow> Inl err | Inr xs \<Rightarrow> Inr (x # xs)))"

text \<open>\<open>AllNoArgQuery\<close> appends to its own copy of the slice, which it drops.\<close>

definition AllNoArgQuery ::
    "'d sql_api \<Rightarrow> MySQLUtil \<Rightarrow> string \<Rightarrow> (row \<Rightarrow> 'r result) \<Rightarrow> 'd session
      \<Rightarrow> (int \<times> error option) \<times> 'd session" where
  "AllNoArgQuery api m sql scan s =
     (if initialized m = False then ((-1, Some DBError), s)
      else case GetTx api m s of
        (False, s1) \<Rightarrow> ((-1, Some DBError), s1)
      | (True, s1) \<Rightarrow>
          (case tx_Prepare api sql s1 of
             (Some err, s2) \<Rightarrow> ((-1, Some DBError), tx_Rollback api s2)
           | (None, s2) \<Rightarrow>
               (case stmt_Query api sql [] s2 of
                  (Inl err, s3) \<Rightarrow> ((-1, Some DBError), stmt_Close s3)
                | (Inr (rows, rowsErr), s3) \<Rightarrow>
                    (case scan_rows scan rows of
                       Inl err \<Rightarrow> ((-1, Some DBError), tx_Rollback api (stmt_Close (rows_Close s3)))
                     | Inr xs \<Rightarrow> ((1, None), snd (tx_Commit api (stmt_Close (rows_Close s3))))))))"

definition SimpleInsert ::
    "'d sql_api \<Rightarrow> MySQLUtil \<Rightarrow> string \<Rightarrow> sqlval list \<Rightarrow> 'd session \<Rightarrow> (int \<times> error option) \<times> 'd session"
where
  "SimpleInsert api m sql args s =
     (if initialized m = False then ((-1, Some DBError), s)
      else case GetTx api m s of
        (False, s1) \<Rightarrow> ((-1, Some DBError), s1)
      | (True, s1) \<Rightarrow>
          (case tx_Prepare api sql s1 of
             (Some err, s2) \<Rightarrow> ((-1, Some DBError), tx_Rollback api s2)
           | (None, s2) \<Rightarrow>
               (case stmt_Exec api sql args s2 of
                  (Inl err, s3) \<Rightarrow> ((-1, Some DBError), tx_Rollback api (stmt_Close s3))
                | (Inr (insertID, affected), s3) \<Rightarrow>
                    (case tx_Commit api (stmt_Close s3) of
                       (Some err, s4) \<Rightarrow> ((-1, Some DBError), s4)
                     | (None, s4) \<Rightarrow> ((insertID, None), s4)))))"

definition SimpleUpdate ::
    "'d sql_api \<Rightarrow> MySQLUtil \<Rightarrow> string \<Rightarrow> sqlval list \<Rightarrow> 'd session \<Rightarrow> (int \<times> error option) \<times> 'd session"
where
  "SimpleUpdate api m sql args s =
     (if initialized m = False then ((-1, Some DBError), s)
      else case GetTx api m s of
        (False, s1) \<Rightarrow> ((-1, Some DBError), s1)
      | (True, s1) \<Rightarrow>
          (case tx_Prepare api sql s1 of
             (Some err, s2) \<Rightarrow> ((-1, Some DBError), tx_Rollback api s2)
           | (None, s2) \<Rightarrow>
               (case stmt_Exec api sql args s2 of
                  (Inl err, s3) \<Rightarrow> ((-1, Some DBError), tx_Rollback api (stmt_Close s3))
                | (Inr (insertID, affected), s3) \<Rightarrow>
                    (case tx_Commit api (stmt_Close s3) of
                       (Some err, s4) \<Rightarrow> ((-1, Some DBError), s4)
                     | (None, s4) \<Rightarrow> ((affected, None), s4)))))"

section \<open>What stays open\<close>

definition handles :: "'d session \<Rightarrow> nat \<times> nat \<times> nat" where
  "handles s = (open_txs s, open_stmts s, open_rows s)"

text \<open>The query that a read-only helper would issue fails, after its transaction was opened.\<close>

definition query_fails :: "'d sql_api \<Rightarrow> MySQLUtil \<Rightarrow> string \<Rightarrow> sqlval list \<Rightarrow> 'd \<Rightarrow> bool" where
  "query_fails api m sql args d \<longleftrightarrow>
     initialized m \<and> sql_Begin api d = None \<and> sql_Prepare api d sql = None \<and>
     isl (sql_Query api d sql args)"

lemma SimpleQuery_handles:
  "handles (snd (SimpleQuery api m sql args scan s)) =
     (if query_fails api m sql args (sdb s)
      then (Suc (open_txs s), open_stmts s, open_rows s) else handles s)"
  by (auto simp: SimpleQuery_def GetTx_def session_defs handles_def query_fails_def
      split: option.splits sum.splits prod.splits list.splits)

lemma AllNoArgQuery_handles:
  "handles (snd (AllNoArgQuery api m sql scan s)) =
     (if query_fails api m sql [] (sdb s)
      then (Suc (open_txs s), open_stmts s, open_rows s) else handles s)"
  by (auto simp: AllNoArgQuery_def GetTx_def session_defs handles_def query_fails_def
      split: option.splits sum.splits prod.splits list.splits)

lemma SimpleUpdate_handles: "handles (snd (SimpleUpdate api m sql args s)) = handles s"
  by (auto simp: SimpleUpdate_def GetTx_def session_defs handles_def
      split: option.splits sum.splits prod.splits)

lemma SimpleInsert_handles: "handles (snd (SimpleInsert api m sql args s)) = handles s"
  by (auto simp: SimpleInsert_def GetTx_def session_defs handles_def
      split: option.splits sum.splits prod.splits)

section \<open>Properties\<close>

text \<open>
  C39. The writing helpers leave no transaction, statement or row set behind, on every path; the
  reading helpers leave their transaction open exactly when the query itself fails, so ten such
  failures use up the pool.
\<close>

theorem mysql_handles:
  "handles (snd (SimpleUpdate api m sql args s)) = handles s \<and>
   handles (snd (SimpleInsert api m sql args s)) = handles s \<and>
   open_txs (snd (SimpleQuery api m sql args scan s)) =
     open_txs s + (if query_fails api m sql args (sdb s) then 1 else 0) \<and>
   open_txs (snd (AllNoArgQuery api m sql scan s)) =
     open_txs s + (if query_fails api m sql [] (sdb s) then 1 else 0)"
  using SimpleQuery_handles [of api m sql args scan s] AllNoArgQuery_handles [of api m sql scan s]
    SimpleUpdate_handles [of api m sql args s] SimpleInsert_handles [of api m sql args s]
  by (simp add: handles_def split: if_splits)

text \<open>
  \<open>SimpleUpdate\<close> reports the number of affected rows exactly when the statement was executed
  and committed; in every other case it reports -1 and a database error.
\<close>

lemma SimpleUpdate_outcome:
  "fst (SimpleUpdate api m sql args s) =
     (case sql_Exec api (sdb s) sql args of
        (Inr (insertID, affected), d) \<Rightarrow>
          if initialized m \<and> sql_Begin api (sdb s) = None \<and> sql_Prepare api (sdb s) sql = None
             \<and> fst (sql_Commit api d) = None
          then (affected, None) else (-1, Some DBError)
      | _ \<Rightarrow> (-1, Some DBError))"
  by (auto simp: SimpleUpdate_def GetTx_def session_defs
      split: option.splits sum.splits prod.splits)

end
