(* ===== verification/Agent_Dao.thy ===== *)
theory Agent_Dao
  imports Mysql
begin

text \<open>
  The table of agents: the record \<open>AgentInfo\<close> (\<open>src/structs/agent.go\<close>), the data access object
  (\<open>src/dao/agentdao/agentmgt.go\<close>) and the controller on top of it
  (\<open>src/controller/agentctrl/agentmgt.go\<close>).
\<close>

record AgentInfo =
  Agentip :: string
  Alive :: int
  Dpswitch :: int

text \<open>\<open>rows.Scan(&result.Agentip, &result.Alive, &result.Dpswitch)\<close>.\<close>

fun scan_AgentInfo :: "row \<Rightarrow> AgentInfo result" where
  "scan_AgentInfo [a, b, c] =
     (case scan_string a of
        Inl err \<Rightarrow> Inl err
      | Inr ip \<Rightarrow>
          (case scan_int b of
             Inl err \<Rightarrow> Inl err
           | Inr al \<Rightarrow>
               (case scan_int c of
                  Inl err \<Rightarrow> Inl err
                | Inr dp \<Rightarrow> Inr \<lparr>Agentip = ip, Alive = al, Dpswitch = dp\<rparr>)))"
| "scan_AgentInfo _ = Inl (ExtError ''expected destination arguments in Scan'')"

definition agent_select :: string where
  "agent_select = ''select agentip,alive,dpswitch from agent_status;''"

definition dao_GetAgentInfo ::
    "'d sql_api \<Rightarrow> MySQLUtil \<Rightarrow> 'd session \<Rightarrow> AgentInfo list result \<times> 'd session" where
  "dao_GetAgentInfo api m s =
     (case GetTx api m s of
        (False, s1) \<Rightarrow> (Inl DBError, s1)
      | (True, s1) \<Rightarrow>
          (case tx_Prepare api agent_select s1 of
             (Some err, s2) \<Rightarrow> (Inl DBError, tx_Rollback api s2)
           | (None, s2) \<Rightarrow>
               (case stmt_Query api agent_select [] s2 of
                  (Inl err, s3) \<Rightarrow> (Inl DBError, stmt_Close s3)
                | (Inr (rows, rowsErr), s3) \<Rightarrow>
                    (case scan_rows scan_AgentInfo rows of
                       Inl err \<Rightarrow> (Inl DBError, tx_Rollback api (stmt_Close (rows_Close s3)))
                     | Inr resultlist \<Rightarrow>
                         (Inr resultlist, snd (tx_Commit api (stmt_Close (rows_Close s3))))))))"

definition agent_update :: string where
  "agent_update = ''update agent_status set alive = ? where agentip = ?;''"

definition dao_UpdateAgentAlive ::
    "'d sql_api \<Rightarrow> MySQLUtil \<Rightarrow> int \<Rightarrow> string \<Rightarrow> 'd session \<Rightarrow> (int \<times> error option) \<times> 'd session" where
  "dao_UpdateAgentAlive api m alivestate agentip s =
     (case SimpleUpdate api m agent_update [SqlInt alivestate, SqlText agentip] s of
        ((updateid, err), s') \<Rightarrow>
          if err \<noteq> None \<or> updateid = -1 then ((-1, Some DBError), s') else ((updateid, None), s'))"

definition GetAgentInfo ::
    "'d sql_api \<Rightarrow> MySQLUtil \<Rightarrow> 'd session \<Rightarrow> AgentInfo list result \<times> 'd session" where
  "GetAgentInfo api m s =
     (case dao_GetAgentInfo api m s of
        (Inl err, s') \<Rightarrow> (Inl GetRsyncTaskError, s')
      | (Inr tasklist, s') \<Rightarrow> (Inr tasklist, s'))"

definition UpdateAgentAlive ::
    "'d sql_api \<Rightarrow> MySQLUtil \<Rightarrow> int \<Rightarrow> string \<Rightarrow> 'd session \<Rightarrow> error option \<times> 'd session" where
  "UpdateAgentAlive api m alivestate agentip s =
     (case dao_UpdateAgentAlive api m alivestate agentip s of
        ((_, Some err), s') \<Rightarrow> (Some GetRsyncTaskError, s')
      | ((_, None), s') \<Rightarrow> (None, s'))"

section \<open>A database in memory\<close>

text \<open>
  A database with the one table, as a list of its rows: what the two statements of the data
  access object mean.  Work is done in place; a roll back undoes nothing, and none is needed
  because nothing fails.
\<close>

type_synonym agent_table = "(string \<times> int \<times> int) list"

definition table_rows :: "agent_table \<Rightarrow> row list" where
  "table_rows t = map (\<lambda>(ip, al, dp). [SqlText ip, SqlInt al, SqlInt dp]) t"

definition table_set :: "int \<Rightarrow> string \<Rightarrow> agent_table \<Rightarrow> agent_table" where
  "table_set al ip t = map (\<lambda>(ip', al', dp). (ip', if ip' = ip then al else al', dp)) t"

definition mem_sql :: "agent_table sql_api" where
  "mem_sql =
     \<lparr>sql_Open = (\<lambda>_. None), sql_Ping = (\<lambda>_. None), sql_Begin = (\<lambda>_. None),
      sql_Prepare = (\<lambda>_ _. None),
      sql_Query = (\<lambda>t sql args. Inr (if sql = agent_select then table_rows t else [], None)),
      sql_Exec = (\<lambda>t sql args.
        case args of
          [SqlInt al, SqlText ip] \<Rightarrow>
            (Inr (0, int (length (filter (\<lambda>(ip', _). ip' = ip) t))), table_set al ip t)
        | _ \<Rightarrow> (Inr (0, 0), t)),
      sql_Commit = (\<lambda>t. (None, t)), sql_Rollback = (\<lambda>t. t)\<rparr>"

definition open_session :: "'d \<Rightarrow> 'd session" where
  "open_session d = \<lparr>sdb = d, open_txs = 0, open_stmts = 0, open_rows = 0\<rparr>"

section \<open>Lemmas\<close>

lemma GetAgentInfo_handles:
  "handles (snd (GetAgentInfo api m s)) =
     (if query_fails api m agent_select [] (sdb s)
      then (Suc (open_txs s), open_stmts s, open_rows s) else handles s)"
  by (auto simp: GetAgentInfo_def dao_GetAgentInfo_def GetTx_def session_defs handles_def
      query_fails_def split: option.splits sum.splits prod.splits)

lemma UpdateAgentAlive_handles: "handles (snd (UpdateAgentAlive api m al ip s)) = handles s"
  using SimpleUpdate_handles [of api m agent_update "[SqlInt al, SqlText ip]" s]
  by (auto simp: UpdateAgentAlive_def dao_UpdateAgentAlive_def split: option.splits prod.splits)

lemma scan_rows_Inr_iff:
  "scan_rows scan rows = Inr xs \<longleftrightarrow> list_all2 (\<lambda>r x. scan r = Inr x) rows xs"
proof (induction rows arbitrary: xs)
  case (Cons r rows)
  then show ?case
    by (cases "scan r"; cases "scan_rows scan rows") (auto simp: list_all2_Cons1 Cons [symmetric])
qed auto

section \<open>Properties\<close>

text \<open>
  The list of agents is read in full: when \<open>GetAgentInfo\<close> returns a list, it has one entry
  for every row the query delivered, in order, each converted from its row.  (It also returns
  the rows read so far when the iteration broke off, because the source never asks
  \<open>rows.Err()\<close>.)
\<close>

lemma GetAgentInfo_rows:
  assumes "initialized m" and "sql_Begin api (sdb s) = None"
    and "sql_Prepare api (sdb s) agent_select = None"
    and "sql_Query api (sdb s) agent_select [] = Inr (rows, rowsErr)"
  shows "fst (GetAgentInfo api m s) = Inr xs \<longleftrightarrow> list_all2 (\<lambda>r x. scan_AgentInfo r = Inr x) rows xs"
  using assms
  by (auto simp: GetAgentInfo_def dao_GetAgentInfo_def GetTx_def session_defs scan_rows_Inr_iff
      [symmetric] split: sum.splits prod.splits)

end
