(* ===== verification/Tcp_Server.thy ===== *)
theory Tcp_Server
  imports Tcp_Client Etcd Agent_Dao
begin

text \<open>
  The TCP server (\<open>src/service/server/server.go\<close>): its table of clients, the handlers of the
  messages agents send, the commands it sends to agents and the alive check.  The clients live
  in a heap and the table \<open>Clients\<close> holds references, as in Go.  Go ranges over a map in an
  unspecified order, which is a parameter (\<open>ks\<close>) of the two operations that do so.
\<close>

type_synonym client_ref = nat

record TcpServer =
  Clients :: "string \<rightharpoonup> client_ref"
  heap :: "client_ref \<rightharpoonup> TcpClient"

definition InitServer :: TcpServer where
  "InitServer = \<lparr>Clients = Map.empty, heap = Map.empty\<rparr>"

section \<open>Connections\<close>

definition GetConnId :: "string \<Rightarrow> string result" where
  "GetConnId addr =
     (let addrs = strings_Split addr CHR '':''
      in if length addrs \<noteq> 2 then
           Inl (New (utf8_lit [0xE5, 0xAE, 0xA2, 0xE6, 0x88, 0xB7, 0xE7, 0xAB, 0xAF, 0xE8, 0x8E, 0xB7,
             0xE5, 0x8F, 0x96, 0xE4, 0xBF, 0xA1, 0xE6, 0x81, 0xAF, 0xE5, 0xBC, 0x82, 0xE5, 0xB8, 0xB8]))
         else Inr (strings_TrimSpace (addrs ! 0)))"

text \<open>
  The beginning of \<open>HandleConn\<close>, up to the loop: \<open>None\<close> when the connection is refused (and
  closed), otherwise the reference of the new client.  \<open>r\<close> is where it is allocated.
\<close>

definition HandleConn_register ::
    "string \<Rightarrow> conn \<Rightarrow> client_ref \<Rightarrow> TcpServer \<Rightarrow> client_ref option \<times> TcpServer" where
  "HandleConn_register addr k r s =
     (case GetConnId addr of
        Inl err \<Rightarrow> (None, s)
      | Inr clientid \<Rightarrow>
          if Clients s clientid \<noteq> None then (None, s)
          else (Some r, s\<lparr>heap := (heap s)(r \<mapsto> NewClient k clientid),
                           Clients := (Clients s)(clientid \<mapsto> r)\<rparr>))"

text \<open>\<open>InValidClient\<close>, and the deferred \<open>conn.Close()\<close> of \<open>HandleConn\<close>.\<close>

definition InValidClient :: "client_ref \<Rightarrow> TcpServer \<Rightarrow> TcpServer" where
  "InValidClient r s =
     (case heap s r of
        None \<Rightarrow> s
      | Some c \<Rightarrow>
          let s' = s\<lparr>heap := (heap s)(r \<mapsto> c\<lparr>Valid := False\<rparr>)\<rparr>
          in if Clients s' (ClientID c) \<noteq> None
             then s'\<lparr>Clients := (Clients s')(ClientID c := None)\<rparr> else s')"

definition close_conn :: "client_ref \<Rightarrow> TcpServer \<Rightarrow> TcpServer" where
  "close_conn r s =
     (case heap s r of
        None \<Rightarrow> s
      | Some c \<Rightarrow> s\<lparr>heap := (heap s)(r \<mapsto> c\<lparr>Conn := conn_Close (Conn c)\<rparr>)\<rparr>)"

section \<open>Handlers\<close>

definition HandleHeartBeatMsg :: "Conf \<Rightarrow> int \<Rightarrow> Msg \<Rightarrow> TcpClient \<Rightarrow> TcpClient" where
  "HandleHeartBeatMsg cf now agentMsg client =
     (case Unmarshal Heartbeat_info Heartbeat_zero (MsgData agentMsg) of
        (heartbeatMsg, Some err) \<Rightarrow> client
      | (heartbeatMsg, None) \<Rightarrow>
          SendMsg cf now \<lparr>MsgType = HeartBeat_Rsp, MsgData = [], MsgProto = None\<rparr>
            (SetLastHeartBeatSyncTime (Synctime heartbeatMsg) client))"

definition result_key :: "string \<Rightarrow> string \<Rightarrow> string" where
  "result_key taskid who = ''/task/result/'' @ taskid @ ''/'' @ who"

definition HandleShellRunRspMsg :: "'e etcd_api \<Rightarrow> Msg \<Rightarrow> TcpClient \<Rightarrow> 'e \<Rightarrow> 'e" where
  "HandleShellRunRspMsg api agentMsg client e =
     (case Unmarshal ShellRunRsp_info ShellRunRsp_zero (MsgData agentMsg) of
        (shellRunRspMsg, Some err) \<Rightarrow> e
      | (shellRunRspMsg, None) \<Rightarrow>
          snd (ClientPut api (result_key (shellrsp_Taskid shellRunRspMsg) (ClientID client))
                 (RuncmdRsp shellRunRspMsg) e))"

definition HandleScriptRunRspMsg :: "'e etcd_api \<Rightarrow> Msg \<Rightarrow> TcpClient \<Rightarrow> 'e \<Rightarrow> 'e" where
  "HandleScriptRunRspMsg api agentMsg client e =
     (case Unmarshal ScriptRunRsp_info ScriptRunRsp_zero (MsgData agentMsg) of
        (scriptRunRspMsg, Some err) \<Rightarrow> e
      | (scriptRunRspMsg, None) \<Rightarrow>
          snd (ClientPut api (result_key (scriptrsp_Taskid scriptRunRspMsg) (ClientID client))
                 (RunRsp scriptRunRspMsg) e))"

text \<open>
  \<open>HandleMsg\<close>.  Its switch names \<open>msg.ShellRun_Rsp\<close> in two cases; the model takes them in order, so
  that the second one is never reached.
\<close>

definition unknown_type_error :: "string \<Rightarrow> u32 \<Rightarrow> error" where
  "unknown_type_error clientid ty =
     New (utf8_lit [0xE6, 0x9C, 0xAA, 0xE7, 0x9F, 0xA5, 0xE7, 0x9A, 0x84, 0xE6, 0xB6, 0x88, 0xE6, 0x81, 0xAF,
            0xE7, 0xB1, 0xBB, 0xE5, 0x9E, 0x8B, 0x2C, 0x20]
          @ clientid @ '': '' @ nat_text (unat ty))"

definition HandleMsg ::
    "'e etcd_api \<Rightarrow> Conf \<Rightarrow> int \<Rightarrow> Msg \<Rightarrow> TcpClient \<Rightarrow> 'e \<Rightarrow> error option \<times> TcpClient \<times> 'e" where
  "HandleMsg api cf now agentMsg client e =
     (if MsgType agentMsg = HeartBeat_Msg then (None, HandleHeartBeatMsg cf now agentMsg client, e)
      else if MsgType agentMsg = ShellRun_Rsp then
        (None, client, HandleShellRunRspMsg api agentMsg client e)
      else if MsgType agentMsg = ShellRun_Rsp then
        (None, client, HandleScriptRunRspMsg api agentMsg client e)
      else (Some (unknown_type_error (ClientID client) (MsgType agentMsg)), client, e))"

section \<open>Commands to agents\<close>

text \<open>The two loops of \<open>Multicast\<close>.  One clock reading serves all its sends.\<close>

fun multicast_client ::
    "Conf \<Rightarrow> int \<Rightarrow> Msg \<Rightarrow> string list \<Rightarrow> client_ref \<Rightarrow> (client_ref \<rightharpoonup> TcpClient) \<Rightarrow> (client_ref \<rightharpoonup> TcpClient)"
where
  "multicast_client cf now m [] r h = h"
| "multicast_client cf now m (a # iplist) r h =
     (case h r of
        None \<Rightarrow> h
      | Some c \<Rightarrow>
          if a = ClientID c then multicast_client cf now m iplist r (h(r \<mapsto> SendMsg cf now m c))
          else multicast_client cf now m iplist r h)"

fun multicast_loop ::
    "Conf \<Rightarrow> int \<Rightarrow> Msg \<Rightarrow> string list \<Rightarrow> client_ref list \<Rightarrow> (client_ref \<rightharpoonup> TcpClient) \<Rightarrow> (client_ref \<rightharpoonup> TcpClient)"
where
  "multicast_loop cf now m iplist [] h = h"
| "multicast_loop cf now m iplist (r # rs) h =
     multicast_loop cf now m iplist rs (multicast_client cf now m iplist r h)"

definition client_refs :: "TcpServer \<Rightarrow> string list \<Rightarrow> client_ref list" where
  "client_refs s ks = List.map_filter (Clients s) ks"

definition Multicast :: "Conf \<Rightarrow> int \<Rightarrow> string list \<Rightarrow> string list \<Rightarrow> Msg \<Rightarrow> TcpServer \<Rightarrow> TcpServer" where
  "Multicast cf now ks iplist m s =
     s\<lparr>heap := multicast_loop cf now m iplist (client_refs s ks) (heap s)\<rparr>"

definition ListAliveAgents :: "string list \<Rightarrow> TcpServer \<Rightarrow> string list" where
  "ListAliveAgents ks s = List.map_filter (\<lambda>r. map_option ClientID (heap s r)) (client_refs s ks)"

text \<open>\<open>fmt.Sprintf("%06v", n)\<close> for the random number \<open>n\<close> below a million.\<close>

definition taskid_text :: "nat \<Rightarrow> string" where
  "taskid_text n = replicate (6 - length (nat_text n)) CHR ''0'' @ nat_text n"

definition add_ip :: "string \<Rightarrow> string \<Rightarrow> string" where
  "add_ip ipstr ip = (if ipstr = [] then ip else ipstr @ '','' @ ip)"

definition join_ips :: "string list \<Rightarrow> string" where
  "join_ips iplist = foldl add_ip [] iplist"

definition RemoteShellRun ::
    "'e etcd_api \<Rightarrow> Conf \<Rightarrow> int \<Rightarrow> string list \<Rightarrow> nat \<Rightarrow> string \<Rightarrow> string list \<Rightarrow> TcpServer \<Rightarrow> 'e
      \<Rightarrow> string result \<times> TcpServer \<times> 'e" where
  "RemoteShellRun api cf now ks n cmd iplist s e =
     (let taskid = taskid_text n;
          shellRunMsg = \<lparr>MsgType = ShellRun_Msg, MsgData = [],
            MsgProto = Some (PB_ShellRun (ShellRun_zero\<lparr>Runcmd := cmd, shell_Taskid := taskid\<rparr>))\<rparr>
      in case ClientPut api (result_key taskid ''iplist'') (join_ips iplist) e of
           (Inl err, e') \<Rightarrow> (Inl err, s, e')
         | (Inr _, e') \<Rightarrow> (Inr taskid, Multicast cf now ks iplist shellRunMsg s, e'))"

text \<open>
  \<open>RemoteScriptRun\<close> writes the fields of a \<open>ScriptRun\<close> message (under the type name \<open>ShellRun\<close>,
  which has no such fields); the model builds the message those fields belong to.
\<close>

definition RemoteScriptRun ::
    "'e etcd_api \<Rightarrow> Conf \<Rightarrow> int \<Rightarrow> string list \<Rightarrow> nat \<Rightarrow> string \<Rightarrow> string list \<Rightarrow> string list \<Rightarrow> TcpServer \<Rightarrow> 'e
      \<Rightarrow> string result \<times> TcpServer \<times> 'e" where
  "RemoteScriptRun api cf now ks n scriptname argvs iplist s e =
     (let taskid = taskid_text n;
          scriptRunMsg = \<lparr>MsgType = ScriptRun_Msg, MsgData = [],
            MsgProto = Some (PB_ScriptRun (ScriptRun_zero\<lparr>Scriptname := scriptname, Argvs := argvs,
              script_Taskid := taskid\<rparr>))\<rparr>
      in case ClientPut api (result_key taskid ''iplist'') (join_ips iplist) e of
           (Inl err, e') \<Rightarrow> (Inl err, s, e')
         | (Inr _, e') \<Rightarrow> (Inr taskid, Multicast cf now ks iplist scriptRunMsg s, e'))"

text \<open>An open file: its size, and what one \<open>Read\<close> into a buffer of a given length delivers.\<close>

record os_file =
  file_Size :: "nat result"
  file_Read :: "nat \<Rightarrow> byte list result"

definition RemoteFileSend ::
    "(string \<Rightarrow> os_file result) \<Rightarrow> Conf \<Rightarrow> int \<Rightarrow> string list \<Rightarrow> string \<Rightarrow> string \<Rightarrow> string list \<Rightarrow> TcpServer
      \<Rightarrow> string result \<times> TcpServer" where
  "RemoteFileSend fs cf now ks srcfilename dstfilename iplist s =
     (case fs srcfilename of
        Inl err \<Rightarrow> (Inl err, s)
      | Inr fp \<Rightarrow>
          (case file_Size fp of
             Inl err \<Rightarrow> (Inl err, s)
           | Inr sz \<Rightarrow>
               (case file_Read fp sz of
                  Inl err \<Rightarrow> (Inl err, s)
                | Inr b \<Rightarrow>
                    let buffer = take sz (b @ replicate sz 0);
                        fileTransMsg = \<lparr>MsgType = FileTrans_Msg, MsgData = [],
                          MsgProto = Some (PB_FileTrans (FileTrans_zero\<lparr>SrcFilename := srcfilename,
                            DstFilename := dstfilename, FileContent := buffer\<rparr>))\<rparr>
                    in (Inr ''Send File Success'', Multicast cf now ks iplist fileTransMsg s))))"

section \<open>The alive check\<close>

text \<open>The inner loop of \<open>agentAliveCheck\<close>: 0 when the address is in the list, else 1.\<close>

fun alive_state :: "string \<Rightarrow> string list \<Rightarrow> int" where
  "alive_state shouldagentip [] = 1"
| "alive_state shouldagentip (actualagent # actualagents) =
     (if shouldagentip = actualagent then 0 else alive_state shouldagentip actualagents)"

fun alive_updates ::
    "'d sql_api \<Rightarrow> MySQLUtil \<Rightarrow> string list \<Rightarrow> AgentInfo list \<Rightarrow> 'd session \<Rightarrow> 'd session" where
  "alive_updates api m actualagents [] ses = ses"
| "alive_updates api m actualagents (shouldagent # shouldagents) ses =
     (case UpdateAgentAlive api m (alive_state (Agentip shouldagent) actualagents)
             (Agentip shouldagent) ses of
        (err, ses') \<Rightarrow> alive_updates api m actualagents shouldagents ses')"

text \<open>One round of the endless loop, without the sleeps.\<close>

definition agentAliveCheck ::
    "'d sql_api \<Rightarrow> MySQLUtil \<Rightarrow> string list \<Rightarrow> TcpServer \<Rightarrow> 'd session \<Rightarrow> 'd session" where
  "agentAliveCheck api m ks s ses =
     (case GetAgentInfo api m ses of
        (Inl err, ses') \<Rightarrow> ses'
      | (Inr shouldagents, ses') \<Rightarrow> alive_updates api m (ListAliveAgents ks s) shouldagents ses')"

section \<open>The table of clients\<close>

text \<open>Every entry of the table refers to a client that has the entry's key as its id.\<close>

definition table_ok :: "TcpServer \<Rightarrow> bool" where
  "table_ok s \<longleftrightarrow> (\<forall>k r. Clients s k = Some r \<longrightarrow> map_option ClientID (heap s r) = Some k)"

text \<open>An order in which Go may range over the table.\<close>

definition visits :: "string list \<Rightarrow> TcpServer \<Rightarrow> bool" where
  "visits ks s \<longleftrightarrow> distinct ks \<and> set ks = dom (Clients s)"

lemma table_okD: "table_ok s \<Longrightarrow> Clients s k = Some r \<Longrightarrow> \<exists>c. heap s r = Some c \<and> ClientID c = k"
  by (auto simp: table_ok_def)

lemma table_ok_inj: "table_ok s \<Longrightarrow> Clients s k = Some r \<Longrightarrow> Clients s k' = Some r \<Longrightarrow> k = k'"
  by (metis option.inject table_ok_def)

lemma SendMsg_ClientID [simp]: "ClientID (SendMsg cf now m c) = ClientID c"
  by (simp add: SendMsg_def SetValid_def Let_def split: prod.splits)

lemma HandleHeartBeatMsg_ClientID [simp]: "ClientID (HandleHeartBeatMsg cf now m c) = ClientID c"
  by (simp add: HandleHeartBeatMsg_def SetLastHeartBeatSyncTime_def split: prod.splits option.splits)

lemma HandleMsg_ClientID: "HandleMsg api cf now m c e = (err, c', e') \<Longrightarrow> ClientID c' = ClientID c"
  by (auto simp: HandleMsg_def split: if_splits)

lemma GetMsg_turn_ClientID:
  "GetMsg_turn cf now c = Again c' \<Longrightarrow> ClientID c' = ClientID c"
  "GetMsg_turn cf now c = Return rr c' \<Longrightarrow> ClientID c' = ClientID c"
  "GetMsg_turn cf now c = Blocks c' \<Longrightarrow> ClientID c' = ClientID c"
  by (auto simp: GetMsg_turn_def take_message_def Let_def set_read_deadline_def
      split: if_splits prod.splits read_result.splits option.splits)

text \<open>Changing a client without changing its id keeps the table in order.\<close>

lemma table_ok_update:
  assumes "table_ok s" and "heap s r = Some c" and "ClientID c' = ClientID c"
  shows "table_ok (s\<lparr>heap := (heap s)(r \<mapsto> c')\<rparr>)"
  using assms table_okD [OF assms(1)] by (fastforce simp: table_ok_def)

lemma table_ok_InitServer [simp]: "table_ok InitServer"
  by (simp add: table_ok_def InitServer_def)

lemma table_ok_register:
  assumes "table_ok s" and "heap s r = None"
  shows "table_ok (snd (HandleConn_register addr k r s))"
  using assms by (force simp: table_ok_def HandleConn_register_def split: sum.splits)

lemma InValidClient_eq:
  "heap s r = Some c \<Longrightarrow>
     InValidClient r s = s\<lparr>heap := (heap s)(r \<mapsto> SetValid False c),
                           Clients := (Clients s)(ClientID c := None)\<rparr>"
  by (cases "Clients s (ClientID c)") (auto simp: InValidClient_def SetValid_def Let_def fun_upd_idem)

lemma table_ok_remove: "table_ok s \<Longrightarrow> table_ok (s\<lparr>Clients := (Clients s)(k := None)\<rparr>)"
  by (simp add: table_ok_def)

lemma table_ok_InValidClient:
  assumes "table_ok s"
  shows "table_ok (InValidClient r s)"
proof (cases "heap s r")
  case (Some c)
  have "table_ok (s\<lparr>heap := (heap s)(r \<mapsto> SetValid False c)\<rparr>)"
    using assms Some by (rule table_ok_update) (simp add: SetValid_def)
  from table_ok_remove [OF this, of "ClientID c"] Some show ?thesis by (simp add: InValidClient_eq)
qed (simp add: InValidClient_def assms)

lemma table_ok_close_conn: "table_ok s \<Longrightarrow> table_ok (close_conn r s)"
  by (auto simp: close_conn_def intro: table_ok_update split: option.splits)

section \<open>Multicast\<close>

lemma multicast_client_eq:
  "h r = Some c \<Longrightarrow>
     multicast_client cf now m ips r h = h(r \<mapsto> (SendMsg cf now m ^^ count_list ips (ClientID c)) c)"
  by (induction ips arbitrary: h c) (simp_all add: funpow_swap1 fun_upd_idem)

lemma multicast_loop_eq:
  assumes "distinct rs" and "\<And>r. r \<in> set rs \<Longrightarrow> h r \<noteq> None"
  shows "multicast_loop cf now m ips rs h r =
    (if r \<in> set rs
     then map_option (\<lambda>c. (SendMsg cf now m ^^ count_list ips (ClientID c)) c) (h r) else h r)"
  using assms
proof (induction rs arbitrary: h)
  case (Cons r' rs)
  then obtain c where c: "h r' = Some c" by fastforce
  have "multicast_loop cf now m ips rs (multicast_client cf now m ips r' h) r =
    (if r \<in> set rs
     then map_option (\<lambda>c. (SendMsg cf now m ^^ count_list ips (ClientID c)) c)
       (multicast_client cf now m ips r' h r)
     else multicast_client cf now m ips r' h r)"
    using Cons.prems c by (intro Cons.IH) (auto simp: multicast_client_eq)
  with Cons.prems c show ?case by (auto simp: multicast_client_eq)
qed simp

lemma client_refs_ran:
  assumes "visits ks s" and "table_ok s"
  shows "distinct (client_refs s ks)" and "set (client_refs s ks) = ran (Clients s)"
proof -
  have "List.map_filter (Clients s) xs = map (the \<circ> Clients s) xs" if "set xs \<subseteq> dom (Clients s)" for xs
    using that by (induction xs) (auto simp: map_filter_simps)
  then have r: "client_refs s ks = map (the \<circ> Clients s) ks"
    using assms(1) by (simp add: client_refs_def visits_def)
  have "inj_on (the \<circ> Clients s) (set ks)"
    using assms table_ok_inj [OF assms(2)] by (auto simp: inj_on_def visits_def)
  then show "distinct (client_refs s ks)" using assms(1) by (simp add: r distinct_map visits_def)
  show "set (client_refs s ks) = ran (Clients s)"
    using assms(1) by (force simp: r visits_def ran_def)
qed

lemma Multicast_heap:
  assumes "visits ks s" and "table_ok s"
  shows "heap (Multicast cf now ks ips m s) r =
    (if r \<in> ran (Clients s)
     then map_option (\<lambda>c. (SendMsg cf now m ^^ count_list ips (ClientID c)) c) (heap s r)
     else heap s r)"
proof -
  have "heap s r \<noteq> None" if "r \<in> set (client_refs s ks)" for r
    using that client_refs_ran(2) [OF assms] table_okD [OF assms(2)] by (force simp: ran_def)
  from multicast_loop_eq [OF client_refs_ran(1) [OF assms] this]
  show ?thesis by (simp add: Multicast_def client_refs_ran(2) [OF assms])
qed

lemma funpow_SendMsg_ClientID [simp]: "ClientID ((SendMsg cf now m ^^ n) c) = ClientID c"
  by (induction n) simp_all

lemma Multicast_Clients [simp]: "Clients (Multicast cf now ks ips m s) = Clients s"
  by (simp add: Multicast_def)

lemma table_ok_Multicast:
  assumes "visits ks s" and "table_ok s"
  shows "table_ok (Multicast cf now ks ips m s)"
  using assms(2) by (force simp: table_ok_def Multicast_heap [OF assms])

lemma ListAliveAgents_eq:
  assumes "visits ks s" and "table_ok s"
  shows "ListAliveAgents ks s = ks"
proof -
  have "List.map_filter (\<lambda>r. map_option ClientID (heap s r)) (List.map_filter (Clients s) xs) = xs"
    if "set xs \<subseteq> dom (Clients s)" for xs
    using that
  proof (induction xs)
    case (Cons x xs)
    then obtain r where r: "Clients s x = Some r" by auto
    from Cons r table_okD [OF assms(2) r] show ?case by (auto simp: map_filter_simps)
  qed (simp add: map_filter_simps)
  with assms(1) show ?thesis by (simp add: ListAliveAgents_def client_refs_def visits_def)
qed

section \<open>The list of addresses of a task\<close>

lemma foldl_add_ip:
  "a \<noteq> [] \<Longrightarrow> foldl add_ip a ips = strings_Join (a # ips) CHR '',''"
proof (induction ips arbitrary: a)
  case (Cons ip ips)
  have "foldl add_ip (a @ '','' @ ip) ips = strings_Join ((a @ '','' @ ip) # ips) CHR '',''"
    by (rule Cons.IH) simp
  also have "\<dots> = strings_Join (a # ip # ips) CHR '',''" by (cases ips) simp_all
  finally have "foldl add_ip (add_ip a ip) ips = strings_Join (a # ip # ips) CHR '',''"
    using Cons.prems by (simp only: add_ip_def if_False)
  then show ?case by (simp only: foldl_Cons)
qed simp

lemma join_ips_eq: "hd ips \<noteq> [] \<Longrightarrow> ips \<noteq> [] \<Longrightarrow> join_ips ips = strings_Join ips CHR '',''"
  by (cases ips) (simp_all add: join_ips_def add_ip_def foldl_add_ip)

section \<open>The alive check writes the table\<close>

text \<open>No statement fails.\<close>

definition sql_works :: "'d sql_api \<Rightarrow> bool" where
  "sql_works api \<longleftrightarrow>
     (\<forall>d sql args. sql_Begin api d = None \<and> sql_Prepare api d sql = None \<and>
        \<not> isl (sql_Query api d sql args) \<and> \<not> isl (fst (sql_Exec api d sql args)) \<and>
        fst (sql_Commit api d) = None)"

text \<open>
  What SQL says of the two statements: the select delivers the rows of the table and the update
  sets the column of the rows with the given address; a commit keeps what the transaction saw.
  \<open>tbl\<close> is the table in a state of the database.
\<close>

definition agent_table_db :: "'d sql_api \<Rightarrow> ('d \<Rightarrow> agent_table) \<Rightarrow> bool" where
  "agent_table_db api tbl \<longleftrightarrow>
     (\<forall>d rows err. sql_Query api d agent_select [] = Inr (rows, err) \<longrightarrow> rows = table_rows (tbl d)) \<and>
     (\<forall>d al ip r d'. sql_Exec api d agent_update [SqlInt al, SqlText ip] = (Inr r, d') \<longrightarrow>
        tbl d' = table_set al ip (tbl d)) \<and>
     (\<forall>d d'. sql_Commit api d = (None, d') \<longrightarrow> tbl d' = tbl d)"

lemma mem_sql_works: "sql_works mem_sql"
  by (auto simp: sql_works_def mem_sql_def split: list.splits sqlval.splits)

lemma mem_sql_table: "agent_table_db mem_sql (\<lambda>t. t)"
  by (auto simp: agent_table_db_def mem_sql_def)

lemma scan_table_rows:
  "scan_rows scan_AgentInfo (table_rows t) =
     Inr (map (\<lambda>(ip, al, dp). \<lparr>Agentip = ip, Alive = al, Dpswitch = dp\<rparr>) t)"
  by (induction t) (auto simp: table_rows_def scan_string_def scan_int_def)

lemma fold_table_set:
  "fold (\<lambda>ip. table_set (f ip) ip) ips t =
     map (\<lambda>(ip, al, dp). (ip, if ip \<in> set ips then f ip else al, dp)) t"
  by (induction ips arbitrary: t) (auto simp: table_set_def)

lemma alive_state_eq: "alive_state ip xs = (if ip \<in> set xs then 0 else 1)"
  by (induction xs) auto

lemma UpdateAgentAlive_table:
  assumes "sql_works api" and "agent_table_db api tbl" and "initialized m"
  shows "tbl (sdb (snd (UpdateAgentAlive api m al ip ses))) = table_set al ip (tbl (sdb ses))"
proof -
  let ?d = "sdb ses"
  have w: "sql_Begin api ?d = None" "sql_Prepare api ?d agent_update = None"
    using assms(1) by (auto simp: sql_works_def)
  obtain r d' where x: "sql_Exec api ?d agent_update [SqlInt al, SqlText ip] = (Inr r, d')"
    using assms(1) by (metis (no_types, lifting) fst_conv isl_def old.prod.exhaust sql_works_def
        sum.exhaust)
  obtain d'' where c: "sql_Commit api d' = (None, d'')"
    using assms(1) by (metis prod.collapse sql_works_def)
  have "tbl d'' = table_set al ip (tbl ?d)"
    using assms(2) x c unfolding agent_table_db_def by metis
  with w x c assms(3) show ?thesis
    by (cases r) (simp add: UpdateAgentAlive_def dao_UpdateAgentAlive_def SimpleUpdate_def GetTx_def
        session_defs)
qed

lemma alive_updates_table:
  assumes "sql_works api" and "agent_table_db api tbl" and "initialized m"
  shows "tbl (sdb (alive_updates api m actual should ses)) =
    fold (\<lambda>ip. table_set (alive_state ip actual) ip) (map Agentip should) (tbl (sdb ses))"
proof (induction should arbitrary: ses)
  case (Cons a should)
  obtain err ses' where
    u: "UpdateAgentAlive api m (alive_state (Agentip a) actual) (Agentip a) ses = (err, ses')"
    by force
  with UpdateAgentAlive_table [OF assms, of "alive_state (Agentip a) actual" "Agentip a" ses] Cons
  show ?case by simp
qed simp

lemma GetAgentInfo_table:
  assumes "sql_works api" and "agent_table_db api tbl" and "initialized m"
  obtains ses' where "GetAgentInfo api m ses =
      (Inr (map (\<lambda>(ip, al, dp). \<lparr>Agentip = ip, Alive = al, Dpswitch = dp\<rparr>) (tbl (sdb ses))), ses')"
    and "tbl (sdb ses') = tbl (sdb ses)"
proof -
  let ?d = "sdb ses"
  have w: "sql_Begin api ?d = None" "sql_Prepare api ?d agent_select = None"
    using assms(1) by (auto simp: sql_works_def)
  obtain rows err where q: "sql_Query api ?d agent_select [] = Inr (rows, err)"
    using assms(1) by (metis (no_types, lifting) isl_def old.prod.exhaust sql_works_def sum.exhaust)
  obtain d' where c: "sql_Commit api ?d = (None, d')"
    using assms(1) by (metis prod.collapse sql_works_def)
  have rows: "rows = table_rows (tbl ?d)" and d': "tbl d' = tbl ?d"
    using assms(2) q c unfolding agent_table_db_def by blast+
  show thesis
    using w q c d' assms(3)
    by (intro that [of "ses\<lparr>sdb := d'\<rparr>"]) (simp_all add: GetAgentInfo_def dao_GetAgentInfo_def GetTx_def session_defs rows
        scan_table_rows)
qed

section \<open>Properties\<close>

text \<open>
  C11. \<open>Multicast\<close> sends the message to exactly the connected clients named in the list, once for
  each time their address occurs in it, and touches no other client; the unspecified order in
  which Go visits the table has no influence on the result.
\<close>

theorem Multicast_exact:
  assumes "visits ks s" and "table_ok s"
  shows "heap (Multicast cf now ks ips m s) r =
      (if r \<in> ran (Clients s)
       then map_option (\<lambda>c. (SendMsg cf now m ^^ count_list ips (ClientID c)) c) (heap s r)
       else heap s r)
    \<and> (\<forall>ks'. visits ks' s \<longrightarrow> Multicast cf now ks' ips m s = Multicast cf now ks ips m s)"
  using assms by (auto simp: Multicast_heap intro!: TcpServer.equality ext)

definition two_clients :: TcpServer where
  "two_clients =
     snd (HandleConn_register ''10.0.0.2:4000'' (fresh_conn []) 1
       (snd (HandleConn_register ''10.0.0.1:4000'' (fresh_conn []) 0 InitServer)))"

lemma two_clients_eq:
  "two_clients =
     \<lparr>Clients = [''10.0.0.1'' \<mapsto> 0, ''10.0.0.2'' \<mapsto> 1],
      heap = [0 \<mapsto> NewClient (fresh_conn []) ''10.0.0.1'', 1 \<mapsto> NewClient (fresh_conn []) ''10.0.0.2'']\<rparr>"
proof -
  have "GetConnId ''10.0.0.1:4000'' = Inr ''10.0.0.1''" "GetConnId ''10.0.0.2:4000'' = Inr ''10.0.0.2''"
    by (simp_all add: GetConnId_def strings_TrimSpace_plain plain_char_def)
  then show ?thesis by (simp add: two_clients_def HandleConn_register_def InitServer_def)
qed

lemma two_clients_ok: "table_ok two_clients" "visits [''10.0.0.1'', ''10.0.0.2''] two_clients"
  "visits [''10.0.0.2'', ''10.0.0.1''] two_clients"
  by (auto simp: two_clients_eq table_ok_def visits_def)

theorem Multicast_exact_witness:
  "heap (Multicast sample_conf 0 [''10.0.0.1'', ''10.0.0.2''] [''10.0.0.2'', ''10.0.0.7'']
      (mk_msg HeartBeat_Rsp []) two_clients) 0 = Some (NewClient (fresh_conn []) ''10.0.0.1'')"
  using Multicast_exact [OF two_clients_ok(2,1), of sample_conf 0 "[''10.0.0.2'', ''10.0.0.7'']"
      "mk_msg HeartBeat_Rsp []" 0]
  by (simp add: two_clients_eq split: if_splits)



text \<open>
  The server drops the results of plugin runs: a \<open>ScriptRun_Rsp\<close> message changes neither the
  client nor etcd and ends in the error for unknown types, whatever it carries, because the
  switch names \<open>ShellRun_Rsp\<close> twice.
\<close>

lemma HandleMsg_script_result_lost:
  assumes "MsgType m = ScriptRun_Rsp"
  shows "HandleMsg api cf now m c e = (Some (unknown_type_error (ClientID c) 7), c, e)"
  using assms by (simp add: HandleMsg_def msg_type_defs)

end
