(* ===== verification/Server_Steps.thy ===== *)
theory Server_Steps
  imports Tcp_Server
begin

text \<open>
  The running server as a step relation: the accept loop of \<open>Run\<close>, one goroutine per connection
  in the loop of \<open>HandleConn\<close>, one goroutine per received message in \<open>HandleMsg\<close>, and the
  commands issued over HTTP, interleaved in any order.  A step is a section the source runs under
  a lock, one turn of a reader, or one handler.  A panic in any goroutine ends the process.
\<close>

record 'e world =
  srv :: TcpServer
  readers :: "client_ref set"
  jobs :: "(Msg \<times> client_ref) list"
  etcd :: 'e
  down :: bool

definition boot :: "'e \<Rightarrow> 'e world" where
  "boot e = \<lparr>srv = InitServer, readers = {}, jobs = [], etcd = e, down = False\<rparr>"

definition put_client :: "client_ref \<Rightarrow> TcpClient \<Rightarrow> TcpServer \<Rightarrow> TcpServer" where
  "put_client r c s = s\<lparr>heap := (heap s)(r \<mapsto> c)\<rparr>"

text \<open>What \<open>Accept\<close> returns: nothing has been written to it yet, and it is open.\<close>

definition new_conn :: "conn \<Rightarrow> bool" where
  "new_conn k \<longleftrightarrow> outbound k = [] \<and> \<not> closed k"

inductive srv_step :: "'e etcd_api \<Rightarrow> Conf \<Rightarrow> 'e world \<Rightarrow> 'e world \<Rightarrow> bool"
  for api :: "'e etcd_api" and cf :: Conf
where
  accept: "\<not> down w \<Longrightarrow> heap (srv w) r = None \<Longrightarrow> new_conn k \<Longrightarrow>
     HandleConn_register addr k r (srv w) = (Some r, s') \<Longrightarrow>
     srv_step api cf w (w\<lparr>srv := s', readers := insert r (readers w)\<rparr>)"
| refuse: "\<not> down w \<Longrightarrow> HandleConn_register addr k r (srv w) = (None, s') \<Longrightarrow>
     srv_step api cf w (w\<lparr>srv := s'\<rparr>)"
| read_more: "\<not> down w \<Longrightarrow> r \<in> readers w \<Longrightarrow> heap (srv w) r = Some c \<Longrightarrow>
     GetMsg_turn cf now c = Again c' \<Longrightarrow>
     srv_step api cf w (w\<lparr>srv := put_client r c' (srv w)\<rparr>)"
| read_msg: "\<not> down w \<Longrightarrow> r \<in> readers w \<Longrightarrow> heap (srv w) r = Some c \<Longrightarrow>
     GetMsg_turn cf now c = Return (Inr m) c' \<Longrightarrow>
     srv_step api cf w (w\<lparr>srv := put_client r c' (srv w), jobs := jobs w @ [(m, r)]\<rparr>)"
| read_end: "\<not> down w \<Longrightarrow> r \<in> readers w \<Longrightarrow> heap (srv w) r = Some c \<Longrightarrow>
     GetMsg_turn cf now c = Return (Inl err) c' \<Longrightarrow>
     srv_step api cf w (w\<lparr>srv := close_conn r (InValidClient r (put_client r c' (srv w))),
                          readers := readers w - {r}\<rparr>)"
| read_panic: "\<not> down w \<Longrightarrow> r \<in> readers w \<Longrightarrow> heap (srv w) r = Some c \<Longrightarrow>
     GetMsg_turn cf now c = TurnPanics \<Longrightarrow> srv_step api cf w (w\<lparr>down := True\<rparr>)"
| handle: "\<not> down w \<Longrightarrow> jobs w = js @ (m, r) # js' \<Longrightarrow> heap (srv w) r = Some c \<Longrightarrow>
     HandleMsg api cf now m c (etcd w) = (err, c', e') \<Longrightarrow>
     srv_step api cf w (w\<lparr>srv := put_client r c' (srv w), jobs := js @ js', etcd := e'\<rparr>)"
| shell: "\<not> down w \<Longrightarrow> visits ks (srv w) \<Longrightarrow>
     RemoteShellRun api cf now ks n cmd iplist (srv w) (etcd w) = (res, s', e') \<Longrightarrow>
     srv_step api cf w (w\<lparr>srv := s', etcd := e'\<rparr>)"
| script: "\<not> down w \<Longrightarrow> visits ks (srv w) \<Longrightarrow>
     RemoteScriptRun api cf now ks n name argvs iplist (srv w) (etcd w) = (res, s', e') \<Longrightarrow>
     srv_step api cf w (w\<lparr>srv := s', etcd := e'\<rparr>)"
| file_send: "\<not> down w \<Longrightarrow> visits ks (srv w) \<Longrightarrow>
     RemoteFileSend fs cf now ks src dst iplist (srv w) = (res, s') \<Longrightarrow>
     srv_step api cf w (w\<lparr>srv := s'\<rparr>)"

inductive_cases srv_stepE: "srv_step api cf w w'"

definition reachable :: "'e etcd_api \<Rightarrow> Conf \<Rightarrow> 'e \<Rightarrow> 'e world \<Rightarrow> bool" where
  "reachable api cf e w = (srv_step api cf)\<^sup>*\<^sup>* (boot e) w"

section \<open>The invariant\<close>

text \<open>
  The table is in order, its entries are exactly the connections that have a reader, and every
  pending message belongs to a client that exists.
\<close>

definition world_inv :: "'e world \<Rightarrow> bool" where
  "world_inv w \<longleftrightarrow> table_ok (srv w) \<and> readers w = ran (Clients (srv w)) \<and>
     (\<forall>(m, r) \<in> set (jobs w). heap (srv w) r \<noteq> None)"

lemma put_client_simps [simp]:
  "Clients (put_client r c s) = Clients s"
  "heap (put_client r c s) = (heap s)(r \<mapsto> c)"
  by (simp_all add: put_client_def)

lemma table_ok_put_client:
  "table_ok s \<Longrightarrow> heap s r = Some c \<Longrightarrow> ClientID c' = ClientID c \<Longrightarrow> table_ok (put_client r c' s)"
  by (simp add: put_client_def table_ok_update)

text \<open>A step that only replaces the data of one client.\<close>

lemma world_inv_put_client:
  assumes "world_inv w" and "heap (srv w) r = Some c" and "ClientID c' = ClientID c"
  shows "world_inv (w\<lparr>srv := put_client r c' (srv w)\<rparr>)"
  using assms by (auto simp: world_inv_def table_ok_put_client)

lemma world_inv_etcd: "world_inv (w\<lparr>etcd := e\<rparr>) = world_inv w"
  by (simp add: world_inv_def)

lemma world_inv_jobs: "world_inv w \<Longrightarrow> set js \<subseteq> set (jobs w) \<Longrightarrow> world_inv (w\<lparr>jobs := js\<rparr>)"
  by (auto simp: world_inv_def)

lemma register_None: "HandleConn_register addr k r s = (None, s') \<Longrightarrow> s' = s"
  by (auto simp: HandleConn_register_def split: sum.splits if_splits)

lemma world_inv_register:
  assumes "world_inv w" and "heap (srv w) r = None"
    and "HandleConn_register addr k r (srv w) = (Some r, s')"
  shows "world_inv (w\<lparr>srv := s', readers := insert r (readers w)\<rparr>)"
proof -
  from assms(3) obtain i where i: "GetConnId addr = Inr i" "Clients (srv w) i = None"
    "s' = (srv w)\<lparr>heap := (heap (srv w))(r \<mapsto> NewClient k i), Clients := (Clients (srv w))(i \<mapsto> r)\<rparr>"
    by (auto simp: HandleConn_register_def split: sum.splits if_splits)
  have "table_ok s'"
    using table_ok_register [of "srv w" r addr k] assms by (simp add: world_inv_def)
  with assms(1) i show ?thesis by (auto simp: world_inv_def)
qed

text \<open>When a reader ends, exactly its own entry leaves the table.\<close>

lemma own_entry:
  assumes "world_inv w" and "r \<in> readers w" and "heap (srv w) r = Some c"
  shows "Clients (srv w) (ClientID c) = Some r"
  using assms by (auto simp: world_inv_def ran_def dest: table_okD)

lemma read_end_state:
  assumes "heap s r = Some c" and "ClientID c' = ClientID c"
  shows "Clients (close_conn r (InValidClient r (put_client r c' s))) = (Clients s)(ClientID c := None)"
    and "heap (close_conn r (InValidClient r (put_client r c' s))) =
      (heap s)(r \<mapsto> (SetValid False c')\<lparr>Conn := conn_Close (Conn c')\<rparr>)"
  using assms by (simp_all add: InValidClient_eq close_conn_def SetValid_def)

lemma ran_remove:
  assumes "table_ok s" and "Clients s k = Some r"
  shows "ran ((Clients s)(k := None)) = ran (Clients s) - {r}"
  using assms table_ok_inj [OF assms(1)] 
  by (auto simp: ran_def) (metis option.inject)

lemma world_inv_read_end:
  assumes "world_inv w" and "r \<in> readers w" and "heap (srv w) r = Some c"
    and "ClientID c' = ClientID c"
  shows "world_inv (w\<lparr>srv := close_conn r (InValidClient r (put_client r c' (srv w))),
    readers := readers w - {r}\<rparr>)"
proof -
  have t: "table_ok (srv w)" using assms(1) by (simp add: world_inv_def)
  have "table_ok (close_conn r (InValidClient r (put_client r c' (srv w))))"
    by (intro table_ok_close_conn table_ok_InValidClient table_ok_put_client [OF t assms(3,4)])
  with ran_remove [OF t own_entry [OF assms(1-3)]] assms(1) show ?thesis
    by (auto simp: world_inv_def read_end_state [OF assms(3,4)])
qed

lemma world_inv_Multicast:
  assumes "world_inv w" and "visits ks (srv w)"
  shows "world_inv (w\<lparr>srv := Multicast cf now ks ips m (srv w)\<rparr>)"
  using assms table_ok_Multicast [of ks "srv w" cf now ips m]
  by (auto simp: world_inv_def Multicast_heap split: prod.splits)

lemma RemoteShellRun_srv:
  "RemoteShellRun api cf now ks n cmd ips s e = (res, s', e') \<Longrightarrow>
     s' = s \<or> (\<exists>m. s' = Multicast cf now ks ips m s)"
  by (auto simp: RemoteShellRun_def Let_def split: prod.splits sum.splits)

lemma RemoteScriptRun_srv:
  "RemoteScriptRun api cf now ks n nm av ips s e = (res, s', e') \<Longrightarrow>
     s' = s \<or> (\<exists>m. s' = Multicast cf now ks ips m s)"
  by (auto simp: RemoteScriptRun_def Let_def split: prod.splits sum.splits)

lemma RemoteFileSend_srv:
  "RemoteFileSend fs cf now ks src dst ips s = (res, s') \<Longrightarrow>
     s' = s \<or> (\<exists>m. s' = Multicast cf now ks ips m s)"
  by (auto simp: RemoteFileSend_def Let_def split: sum.splits)

lemma world_inv_command:
  assumes "world_inv w" and "visits ks (srv w)"
    and "s' = srv w \<or> (\<exists>m. s' = Multicast cf now ks ips m (srv w))"
  shows "world_inv (w\<lparr>srv := s'\<rparr>)" and "world_inv (w\<lparr>srv := s', etcd := e'\<rparr>)"
proof -
  show "world_inv (w\<lparr>srv := s'\<rparr>)" using assms world_inv_Multicast by fastforce
  then show "world_inv (w\<lparr>srv := s', etcd := e'\<rparr>)" by (simp add: world_inv_def)
qed

lemma srv_step_inv:
  assumes "srv_step api cf w w'" and "world_inv w"
  shows "world_inv w'"
  using assms
proof (induction rule: srv_step.induct)
  case (accept w r k addr s')
  then show ?case by (intro world_inv_register)
next
  case (refuse w addr k r s')
  then show ?case using register_None [OF refuse(2)] by simp
next
  case (read_more w r c now c')
  then show ?case
    by (intro world_inv_put_client [OF _ _ GetMsg_turn_ClientID(1)])
next
  case (read_msg w r c now m c')
  then have "world_inv (w\<lparr>srv := put_client r c' (srv w)\<rparr>)"
    by (intro world_inv_put_client [OF _ _ GetMsg_turn_ClientID(2)])
  then show ?case by (auto simp: world_inv_def)
next
  case (read_end w r c now err c')
  then show ?case 
    by (intro world_inv_read_end [OF _ _ _ GetMsg_turn_ClientID(2)])
next
  case (read_panic w r c now)
  then show ?case by (simp add: world_inv_def)
next
  case (handle w js m r js' c now err c' e')
  then have "world_inv (w\<lparr>srv := put_client r c' (srv w)\<rparr>)"
    by (intro world_inv_put_client [OF _ _ HandleMsg_ClientID])
  with handle show ?case by (auto simp: world_inv_def)
next
  case (shell w ks now n cmd iplist res s' e')
  then show ?case by (intro world_inv_command) (auto dest: RemoteShellRun_srv)
next
  case (script w ks now n name argvs iplist res s' e')
  then show ?case by (intro world_inv_command) (auto dest: RemoteScriptRun_srv)
next
  case (file_send w ks fs now src dst iplist res s')
  then show ?case by (intro world_inv_command) (auto dest: RemoteFileSend_srv)
qed

lemma reachable_inv: "reachable api cf e w \<Longrightarrow> world_inv w"
  unfolding reachable_def
proof (induction rule: rtranclp_induct)
  case base
  show ?case by (simp add: world_inv_def boot_def) (simp add: InitServer_def)
next
  case (step y z)
  then show ?case by (blast intro: srv_step_inv)
qed

section \<open>What the server writes to etcd\<close>

definition result_prefix :: string where
  "result_prefix = ''/task/result/''"

lemma result_key_prefix: "prefix result_prefix (result_key t x)"
  by (simp add: result_prefix_def result_key_def)

lemma ClientPut_kv:
  assumes "etcd_documented api kv" and "ClientPut api k v e = (res, e')"
  shows "kv e' = kv e \<or> kv e' = (kv e)(k \<mapsto> v)"
  using assms etcd_Put [OF assms(1), of e k v]
  by (auto simp: ClientPut_def split: prod.splits option.splits if_splits)

lemma ClientPut_frame:
  assumes "etcd_documented api kv" and "\<not> prefix result_prefix k"
  shows "kv (snd (ClientPut api (result_key t x) v e)) k = kv e k"
proof (cases "ClientPut api (result_key t x) v e")
  case (Pair res e')
  with ClientPut_kv [OF assms(1) Pair] assms(2) result_key_prefix [of t x] show ?thesis by auto
qed

lemma HandleMsg_frame:
  assumes "etcd_documented api kv" and "\<not> prefix result_prefix k"
    and "HandleMsg api cf now m c e = (err, c', e')"
  shows "kv e' k = kv e k"
  using assms(3) ClientPut_frame [OF assms(1,2)]
  by (auto simp: HandleMsg_def HandleShellRunRspMsg_def split: if_splits prod.splits option.splits)

lemma Remote_frame:
  assumes "etcd_documented api kv" and "\<not> prefix result_prefix k"
  shows "RemoteShellRun api cf now ks n cmd ips s e = (res, s', e') \<Longrightarrow> kv e' k = kv e k"
    and "RemoteScriptRun api cf now ks n nm av ips s e = (res, s', e') \<Longrightarrow> kv e' k = kv e k"
  using ClientPut_frame [OF assms, of "taskid_text n" "''iplist''" "join_ips ips" e]
  by (auto simp: RemoteShellRun_def RemoteScriptRun_def Let_def split: prod.splits sum.splits)

lemma srv_step_frame:
  assumes "srv_step api cf w w'" and "etcd_documented api kv" and "\<not> prefix result_prefix k"
  shows "kv (etcd w') k = kv (etcd w) k"
  using assms HandleMsg_frame [OF assms(2,3)] Remote_frame [OF assms(2,3)]
  by (auto elim!: srv_stepE)

section \<open>Properties\<close>

text \<open>
  C4. In every reachable state of the server the table of clients holds exactly the connections
  that are being read, and no two of them have the same address.
\<close>

theorem one_reader_per_address:
  assumes "reachable api cf e w"
  shows "readers w = ran (Clients (srv w)) \<and>
    (\<forall>r1 r2 c1 c2. r1 \<in> readers w \<and> r2 \<in> readers w \<and> heap (srv w) r1 = Some c1 \<and>
       heap (srv w) r2 = Some c2 \<and> ClientID c1 = ClientID c2 \<longrightarrow> r1 = r2)"
proof -
  have w: "world_inv w" using assms by (rule reachable_inv)
  have "r1 = r2" if "r1 \<in> readers w" "r2 \<in> readers w" "heap (srv w) r1 = Some c1"
    "heap (srv w) r2 = Some c2" "ClientID c1 = ClientID c2" for r1 r2 c1 c2
    using own_entry [OF w that(1,3)] own_entry [OF w that(2,4)] that(5) by simp
  with w show ?thesis by (auto simp: world_inv_def)
qed

text \<open>A server with one connected agent, for the witnesses.\<close>

definition one_client :: "conn \<Rightarrow> 'e \<Rightarrow> 'e world" where
  "one_client k e =
     (boot e)\<lparr>srv := \<lparr>Clients = [''10.0.0.1'' \<mapsto> 0], heap = [0 \<mapsto> NewClient k ''10.0.0.1'']\<rparr>,
              readers := {0}\<rparr>"

lemma one_client_step:
  assumes "new_conn k" shows "srv_step api cf (boot e) (one_client k e)"
proof -
  have i: "GetConnId ''10.0.0.1:4000'' = Inr ''10.0.0.1''"
    by (simp add: GetConnId_def strings_TrimSpace_plain plain_char_def)
  have "srv_step api cf (boot e) ((boot e)\<lparr>srv := srv (one_client k e), readers := insert 0 (readers (boot e))\<rparr>)"
    by (rule accept [where addr = "''10.0.0.1:4000''" and k = k])
      (simp_all add: boot_def InitServer_def HandleConn_register_def one_client_def i assms)
  then show ?thesis by (simp add: one_client_def boot_def)
qed

lemma one_client_reachable: "new_conn k \<Longrightarrow> reachable api cf e (one_client k e)"
  unfolding reachable_def by (intro r_into_rtranclp one_client_step)

lemma new_conn_simps [simp]: "new_conn (fresh_conn evs)" "new_conn (k\<lparr>write_script := ws\<rparr>) = new_conn k"
  by (simp_all add: new_conn_def fresh_conn_def)

theorem one_reader_per_address_witness:
  "readers (one_client (fresh_conn []) ([] :: (string \<times> string) list)) =
     ran (Clients (srv (one_client (fresh_conn []) ([] :: (string \<times> string) list))))"
  by (rule conjunct1 [OF one_reader_per_address
        [OF one_client_reachable [OF new_conn_simps(1), of mem_api sample_conf "[]" "[]"]]])



text \<open>
  C18. The server writes only task results: no step ever changes a key of etcd outside
  \<open>/task/result/\<close>.
\<close>

theorem server_etcd_frame:
  assumes "etcd_documented api kv" and "reachable api cf e w" and "\<not> prefix result_prefix k"
  shows "kv (etcd w) k = kv e k"
  using assms(2) unfolding reachable_def
proof (induction rule: rtranclp_induct)
  case (step y z)
  then show ?case using srv_step_frame [OF step(2) assms(1,3)] by simp
qed (simp add: boot_def)

theorem server_etcd_frame_witness:
  "map_of (etcd (one_client (fresh_conn []) [(''/a'', ''1'')])) ''/a'' = Some ''1''"
  using server_etcd_frame [OF mem_api_documented one_client_reachable [OF new_conn_simps(1), of mem_api sample_conf],
      where k = "''/a''"]
  by (simp add: result_prefix_def)


end
