(* ===== verification/Http.thy ===== *)
theory Http
  imports Tcp_Server
begin

text \<open>
  The HTTP interface (\<open>src/service/httpservice/task.go\<close>).  Decoding and rendering is left
  to the framework \<open>gin\<close>: a handler gets the outcome of \<open>ShouldBindJSON\<close>, an error or the decoded request, and
  returns the status and the body it hands to \<open>c.JSON\<close>; \<open>Http_Binding\<close> has the bytes of both.
\<close>

section \<open>Requests and responses\<close>

datatype json = JString string | JArray "(string \<rightharpoonup> string) list"

record response =
  http_status :: int
  rsp_Status :: string
  rsp_Msg :: json

definition StatusOK :: int where "StatusOK = 200"
definition StatusBadRequest :: int where "StatusBadRequest = 400"

definition success :: "json \<Rightarrow> response" where
  "success m = \<lparr>http_status = StatusOK, rsp_Status = ''Success'', rsp_Msg = m\<rparr>"

definition failed :: "string \<Rightarrow> response" where
  "failed m = \<lparr>http_status = StatusBadRequest, rsp_Status = ''Failed'', rsp_Msg = JString m\<rparr>"

definition bad_parameters :: string where
  "bad_parameters = utf8_lit [0xE5, 0x8F, 0x82, 0xE6, 0x95, 0xB0, 0xE8, 0x8E, 0xB7, 0xE5, 0x8F, 0x96, 0xE5, 0xA4,
     0xB1, 0xE8, 0xB4, 0xA5]"

definition no_iplist :: string where
  "no_iplist = utf8_lit [0xE6, 0x8B, 0x89, 0xE5, 0x8F, 0x96, 0xE4, 0xBB, 0xBB, 0xE5, 0x8A, 0xA1, 0x49, 0x50,
     0xE6, 0xB8, 0x85, 0xE5, 0x8D, 0x95, 0xE5, 0xA4, 0xB1, 0xE8, 0xB4, 0xA5]"

record shell_request =
  Taskcmd :: string
  TaskIp :: string

record file_request =
  Srcfilename :: string
  Dstfilename :: string
  Ipstr :: string

section \<open>Handlers\<close>

text \<open>\<open>taskid, _ := ...\<close>: an error leaves the empty string.\<close>

definition http_RemoteShellRun ::
    "'e etcd_api \<Rightarrow> Conf \<Rightarrow> int \<Rightarrow> string list \<Rightarrow> nat \<Rightarrow> shell_request result \<Rightarrow> TcpServer \<Rightarrow> 'e
      \<Rightarrow> response \<times> TcpServer \<times> 'e" where
  "http_RemoteShellRun api cf now ks n req s e =
     (case req of
        Inl err \<Rightarrow> (failed bad_parameters, s, e)
      | Inr r \<Rightarrow>
          let taskiplist = strings_Split (TaskIp r) CHR '',''
          in (case RemoteShellRun api cf now ks n (Taskcmd r) taskiplist s e of
                (res, s', e') \<Rightarrow>
                  (success (JString (case res of Inl err \<Rightarrow> [] | Inr taskid \<Rightarrow> taskid)), s', e')))"

text \<open>
  The loop of \<open>GetShellResult\<close>.  \<open>finresult\<close> collects references to the one map \<open>resultdict\<close>, so
  its state is that map and the number of references.
\<close>

definition result_entry :: "'e etcd_api \<Rightarrow> 'e \<Rightarrow> string \<Rightarrow> string \<Rightarrow> (string \<rightharpoonup> string) \<Rightarrow> (string \<rightharpoonup> string)" where
  "result_entry api e taskid ip resultdict =
     (let d = resultdict(''ip'' \<mapsto> ip, ''status'' \<mapsto> ''failed'', ''output'' \<mapsto> ''unknown error'')
      in case GetSingleCfg api e (result_key taskid ip) of
           Inl err \<Rightarrow> d
         | Inr result \<Rightarrow> d(''ip'' \<mapsto> ip, ''status'' \<mapsto> ''success'', ''output'' \<mapsto> result))"

fun result_loop ::
    "'e etcd_api \<Rightarrow> 'e \<Rightarrow> string \<Rightarrow> string list \<Rightarrow> (string \<rightharpoonup> string) \<times> nat \<Rightarrow> (string \<rightharpoonup> string) \<times> nat" where
  "result_loop api e taskid [] st = st"
| "result_loop api e taskid (ip # iplist) (resultdict, finresult) =
     result_loop api e taskid iplist (result_entry api e taskid ip resultdict, Suc finresult)"

definition GetShellResult :: "'e etcd_api \<Rightarrow> string result \<Rightarrow> 'e \<Rightarrow> response" where
  "GetShellResult api req e =
     (case req of
        Inl err \<Rightarrow> failed bad_parameters
      | Inr taskid \<Rightarrow>
          (case GetSingleCfg api e (result_key taskid ''iplist'') of
             Inl err \<Rightarrow> failed no_iplist
           | Inr ipstr \<Rightarrow>
               (case result_loop api e taskid (strings_Split ipstr CHR '','') (Map.empty, 0) of
                  (resultdict, finresult) \<Rightarrow> success (JArray (replicate finresult resultdict)))))"

definition http_FileTrans ::
    "(string \<Rightarrow> os_file result) \<Rightarrow> Conf \<Rightarrow> int \<Rightarrow> string list \<Rightarrow> file_request result \<Rightarrow> TcpServer
      \<Rightarrow> response \<times> TcpServer" where
  "http_FileTrans fs cf now ks req s =
     (case req of
        Inl err \<Rightarrow> (failed bad_parameters, s)
      | Inr r \<Rightarrow>
          let iplist = strings_Split (Ipstr r) CHR '',''
          in (case RemoteFileSend fs cf now ks (Srcfilename r) (Dstfilename r) iplist s of
                (res, s') \<Rightarrow>
                  (success (JString (case res of Inl err \<Rightarrow> [] | Inr sendresult \<Rightarrow> sendresult)), s')))"

section \<open>Lemmas\<close>

text \<open>What the map holds after one address: it does not depend on the addresses before.\<close>

definition entry_for :: "'e etcd_api \<Rightarrow> 'e \<Rightarrow> string \<Rightarrow> string \<Rightarrow> (string \<rightharpoonup> string)" where
  "entry_for api e taskid ip =
     (case GetSingleCfg api e (result_key taskid ip) of
        Inl err \<Rightarrow> [''ip'' \<mapsto> ip, ''status'' \<mapsto> ''failed'', ''output'' \<mapsto> ''unknown error'']
      | Inr result \<Rightarrow> [''ip'' \<mapsto> ip, ''status'' \<mapsto> ''success'', ''output'' \<mapsto> result])"

lemma result_entry_eq:
  "dom d \<subseteq> {''ip'', ''status'', ''output''} \<Longrightarrow> result_entry api e taskid ip d = entry_for api e taskid ip"
  by (auto simp: result_entry_def entry_for_def Let_def fun_eq_iff domIff split: sum.splits)

lemma dom_entry_for: "dom (entry_for api e taskid ip) \<subseteq> {''ip'', ''status'', ''output''}"
  by (auto simp: entry_for_def split: sum.splits if_splits)

lemma result_loop_eq:
  "dom d \<subseteq> {''ip'', ''status'', ''output''} \<Longrightarrow>
     result_loop api e taskid ips (d, n) =
       (if ips = [] then d else entry_for api e taskid (last ips), n + length ips)"
proof (induction ips arbitrary: d n)
  case (Cons ip ips)
  have "result_loop api e taskid (ip # ips) (d, n) =
      result_loop api e taskid ips (entry_for api e taskid ip, Suc n)"
    using Cons.prems by (simp add: result_entry_eq)
  also have "\<dots> = (if ips = [] then entry_for api e taskid ip else entry_for api e taskid (last ips),
      Suc n + length ips)"
    by (rule Cons.IH) (rule dom_entry_for)
  finally show ?case by simp
qed simp

lemma GetShellResult_eq:
  assumes "GetSingleCfg api e (result_key taskid ''iplist'') = Inr ipstr"
  shows "GetShellResult api (Inr taskid) e =
    success (JArray (replicate (length (strings_Split ipstr CHR '',''))
      (entry_for api e taskid (last (strings_Split ipstr CHR '','')))))"
  using assms by (simp add: GetShellResult_def result_loop_eq)

section \<open>Properties\<close>

text \<open>
  C28. The result of a task has one entry for each address of the task, but all entries are the
  entry of the last address, because one map is appended again and again.
\<close>

theorem GetShellResult_repeats_last:
  assumes "GetSingleCfg api e (result_key taskid ''iplist'') = Inr (strings_Join (ips @ [ip]) CHR '','')"
    and "\<And>x. x \<in> set (ips @ [ip]) \<Longrightarrow> CHR '','' \<notin> set x"
  shows "rsp_Msg (GetShellResult api (Inr taskid) e) =
    JArray (replicate (Suc (length ips)) (entry_for api e taskid ip))"
proof -
  have "strings_Split (strings_Join (ips @ [ip]) CHR '','') CHR '','' = ips @ [ip]"
    using assms(2) by (intro strings_Split_Join) auto
  then show ?thesis using GetShellResult_eq [OF assms(1)] by (simp add: success_def)
qed

theorem GetShellResult_repeats_last_witness:
  "rsp_Msg (GetShellResult mem_api (Inr ''000007'')
      [(''/task/result/000007/10.0.0.1'', ''up''), (''/task/result/000007/10.0.0.2'', ''down''),
       (''/task/result/000007/iplist'', ''10.0.0.1,10.0.0.2'')])
   = JArray (replicate 2 [''ip'' \<mapsto> ''10.0.0.2'', ''status'' \<mapsto> ''success'', ''output'' \<mapsto> ''down''])"
proof -
  let ?e = "[(''/task/result/000007/10.0.0.1'', ''up''), (''/task/result/000007/10.0.0.2'', ''down''),
       (''/task/result/000007/iplist'', ''10.0.0.1,10.0.0.2'')]"
  have g: "GetSingleCfg mem_api ?e k = Inr v" if "map_of ?e k = Some v" for k v
    using that by (intro GetSingleCfg_present [OF mem_api_documented, where kvs = "mem_range ?e k"])
      (simp_all add: mem_api_def)
  have l: "GetSingleCfg mem_api ?e (result_key ''000007'' ''iplist'') =
      Inr (strings_Join ([''10.0.0.1''] @ [''10.0.0.2'']) CHR '','')"
    and d: "GetSingleCfg mem_api ?e (result_key ''000007'' ''10.0.0.2'') = Inr ''down''"
    by (rule g, simp add: result_key_def)+
  have "rsp_Msg (GetShellResult mem_api (Inr ''000007'') ?e) =
      JArray (replicate (Suc (length [''10.0.0.1''])) (entry_for mem_api ?e ''000007'' ''10.0.0.2''))"
    by (rule GetShellResult_repeats_last [OF l]) auto
  then show ?thesis by (simp add: entry_for_def d numeral_2_eq_2)
qed

text \<open>
  The handlers hide every failure behind them: a well-formed request for a command or a file
  transfer is always answered with status 200 and ``Success'', also when nothing was sent.
\<close>

lemma http_handlers_always_succeed:
  "http_status (fst (http_RemoteShellRun api cf now ks n (Inr r) s e)) = 200 \<and>
   rsp_Status (fst (http_RemoteShellRun api cf now ks n (Inr r) s e)) = ''Success'' \<and>
   http_status (fst (http_FileTrans fs cf now ks (Inr q) s)) = 200 \<and>
   rsp_Status (fst (http_FileTrans fs cf now ks (Inr q) s)) = ''Success''"
  by (auto simp: http_RemoteShellRun_def http_FileTrans_def success_def StatusOK_def Let_def
      split: prod.splits)

text \<open>
  Asking for the result of a task right after it was started finds the list of its addresses:
  the answer has exactly one entry per address of the request, whatever the agents did so far.
\<close>

lemma task_lists_its_addresses:
  assumes "etcd_documented api kv"
    and "http_RemoteShellRun api cf now ks n (Inr r) s e = (rsp, s', e')"
    and "fst (ClientPut api (result_key (taskid_text n) ''iplist'')
            (join_ips (strings_Split (TaskIp r) CHR '','')) e) = Inr ok"
    and "hd (strings_Split (TaskIp r) CHR '','') \<noteq> []"
    and "api_GetPrefix api e' (result_key (taskid_text n) ''iplist'') = Inr kvs"
  shows "rsp_Msg rsp = JString (taskid_text n) \<and>
    rsp_Msg (GetShellResult api (Inr (taskid_text n)) e') =
      JArray (replicate (length (strings_Split (TaskIp r) CHR '',''))
        (entry_for api e' (taskid_text n) (last (strings_Split (TaskIp r) CHR '',''))))"
proof -
  let ?ips = "strings_Split (TaskIp r) CHR '',''" and ?k = "result_key (taskid_text n) ''iplist''"
  have j: "join_ips ?ips = TaskIp r" using assms(4) by (simp add: join_ips_eq)
  obtain e1 where p: "ClientPut api ?k (join_ips ?ips) e = (Inr ok, e1)"
    using assms(3) by (cases "ClientPut api ?k (join_ips ?ips) e") simp
  from assms(2) p have e1: "e1 = e'" and rsp: "rsp_Msg rsp = JString (taskid_text n)"
    by (auto simp: http_RemoteShellRun_def RemoteShellRun_def success_def Let_def)
  have "kv e' ?k = Some (TaskIp r)"
    using p j e1 etcd_Put [OF assms(1), of e ?k "TaskIp r"]
    by (auto simp: ClientPut_def split: prod.splits option.splits)
  then have "GetSingleCfg api e' ?k = Inr (TaskIp r)"
    by (rule GetSingleCfg_present [OF assms(1,5)])
  from GetShellResult_eq [OF this] rsp show ?thesis by (simp add: success_def)
qed

end
