(* ===== verification/Link.thy ===== *)
theory Link
  imports Agent Server_Steps Http
begin

text \<open>
  Properties that span the two ends of a connection: what one end sends is what the other end
  reads, decodes and acts on.  They rest on the codec (\<open>Proto_Codec\<close>), the framing (\<open>Framing\<close>) and
  the handlers of both sides.
\<close>

section \<open>Messages across the wire\<close>

lemma heartbeat_decodes:
  assumes "length (fst (Marshal Heartbeat_info h)) < 2 ^ 63" and "hb_unrecognized h = []"
  shows "Unmarshal Heartbeat_info Heartbeat_zero (fst (Marshal Heartbeat_info h)) =
    (h, snd (Marshal Heartbeat_info h))"
  using assms by (intro hb_codec.Unmarshal_Marshal) (simp add: Heartbeat_info_def)

lemma shell_decodes:
  assumes "length (fst (Marshal ShellRun_info h)) < 2 ^ 63" and "shell_unrecognized h = []"
  shows "Unmarshal ShellRun_info ShellRun_zero (fst (Marshal ShellRun_info h)) =
    (h, snd (Marshal ShellRun_info h))"
  using assms by (intro shell_codec.Unmarshal_Marshal) (simp add: ShellRun_info_def)

lemma shellrsp_decodes:
  assumes "length (fst (Marshal ShellRunRsp_info h)) < 2 ^ 63" and "shellrsp_unrecognized h = []"
  shows "Unmarshal ShellRunRsp_info ShellRunRsp_zero (fst (Marshal ShellRunRsp_info h)) =
    (h, snd (Marshal ShellRunRsp_info h))"
  using assms by (intro shellrsp_codec.Unmarshal_Marshal) (simp add: ShellRunRsp_info_def)

lemma file_decodes:
  assumes "length (fst (Marshal FileTrans_info h)) < 2 ^ 63" and "file_unrecognized h = []"
  shows "Unmarshal FileTrans_info FileTrans_zero (fst (Marshal FileTrans_info h)) =
    (h, snd (Marshal FileTrans_info h))"
  using assms by (intro file_codec.Unmarshal_Marshal) (simp add: FileTrans_info_def)

lemma utf8_ValidString_Nil [simp]: "utf8_ValidString []"
  by (simp add: utf8_ValidString_def to_bytes_def)

text \<open>Encoding fails exactly on a string that is not UTF-8.\<close>

lemma heartbeat_ok: "snd (Marshal Heartbeat_info h) = None \<longleftrightarrow>
    utf8_ValidString (Status h) \<and> utf8_ValidString (Synctime h)"
  by (simp add: hb_codec.Marshal_ok_iff) (auto simp: Heartbeat_info_def field_utf8_def)

lemma shell_ok: "snd (Marshal ShellRun_info h) = None \<longleftrightarrow>
    utf8_ValidString (Runcmd h) \<and> utf8_ValidString (shell_Taskid h)"
  by (simp add: shell_codec.Marshal_ok_iff) (auto simp: ShellRun_info_def field_utf8_def)

lemma shellrsp_ok: "snd (Marshal ShellRunRsp_info h) = None \<longleftrightarrow>
    utf8_ValidString (RuncmdRsp h) \<and> utf8_ValidString (shellrsp_Taskid h)"
  by (simp add: shellrsp_codec.Marshal_ok_iff) (auto simp: ShellRunRsp_info_def field_utf8_def)

lemma file_ok: "snd (Marshal FileTrans_info h) = None \<longleftrightarrow>
    utf8_ValidString (SrcFilename h) \<and> utf8_ValidString (DstFilename h)"
  by (simp add: file_codec.Marshal_ok_iff) (auto simp: FileTrans_info_def field_utf8_def)

text \<open>What \<open>SendMsg\<close> of the agent puts on the wire when the write succeeds.\<close>

lemma agent_SendMsg_writes:
  assumes "a_Conn a = Some k" and "writable k"
  obtains k' where "agent_SendMsg api env m a = Returns (a\<lparr>a_Conn := Some k'\<rparr>)"
    and "outbound k' = outbound k @ agent_packet m" and "inbound k' = inbound k" and "writable k'"
  using assms
  by (cases env) (simp add: agent_SendMsg_def Let_def)

lemma SendMsg_writes:
  assumes "writable (Conn c)"
  shows "outbound (Conn (SendMsg cf now m c)) = outbound (Conn c) @ packet (MsgType m) (msg_bytes m)"
    and "Valid (SendMsg cf now m c) = Valid c"
    and "LastHeartbeatSyncTime (SendMsg cf now m c) = LastHeartbeatSyncTime c"
  using assms by (simp_all add: SendMsg_def msg_packet_eq Let_def)

section \<open>Properties\<close>

definition heartbeat :: "string \<Rightarrow> Heartbeat" where
  "heartbeat t = Heartbeat_zero\<lparr>Status := ''GOOD'', Synctime := t\<rparr>"

lemma Heartbeat_turn_writes:
  assumes "a_Valid a" and "a_Conn a = Some k" and "writable k"
  obtains k' where "Heartbeat_turn api env t a = Returns (True, a\<lparr>a_Conn := Some k'\<rparr>)"
    and "outbound k' = outbound k @ packet HeartBeat_Msg (fst (Marshal Heartbeat_info (heartbeat t)))"
    and "inbound k' = inbound k" and "writable k'"
proof -
  let ?m = "\<lparr>MsgType = HeartBeat_Msg, MsgData = [], MsgProto = Some (PB_Heartbeat (heartbeat t))\<rparr>"
  obtain k' where k': "agent_SendMsg api env ?m a = Returns (a\<lparr>a_Conn := Some k'\<rparr>)"
    "outbound k' = outbound k @ agent_packet ?m" "inbound k' = inbound k" "writable k'"
    using agent_SendMsg_writes [OF assms(2,3)] by blast
  show thesis
  proof (rule that)
    show "Heartbeat_turn api env t a = Returns (True, a\<lparr>a_Conn := Some k'\<rparr>)"
      using k'(1) assms(1) by (simp add: Heartbeat_turn_def heartbeat_def Let_def)
    show "outbound k' = outbound k @ packet HeartBeat_Msg (fst (Marshal Heartbeat_info (heartbeat t)))"
      using k'(2) by (simp add: agent_packet_eq)
  qed (fact k'(3,4))+
qed

lemma utf8_GOOD: "utf8_ValidString ''GOOD''"
  by code_simp

lemma heartbeat_decoded:
  assumes "utf8_ValidString t" and "length (fst (Marshal Heartbeat_info (heartbeat t))) < 2 ^ 63"
  shows "Unmarshal Heartbeat_info Heartbeat_zero (fst (Marshal Heartbeat_info (heartbeat t))) = (heartbeat t, None)"
proof -
  have "snd (Marshal Heartbeat_info (heartbeat t)) = None"
    using assms(1) utf8_GOOD by (simp add: heartbeat_ok heartbeat_def)
  with heartbeat_decodes [OF assms(2)] show ?thesis by (simp add: heartbeat_def Heartbeat_zero_def)
qed

text \<open>A connected agent and a machine whose programs print a fixed text, for the witnesses.\<close>

definition demo_agent :: Agent where
  "demo_agent = (NewAgent ''10.0.0.1'')\<lparr>a_Conn := Some (fresh_conn [])\<rparr>"

definition demo_machine :: "string \<Rightarrow> machine" where
  "demo_machine out =
     \<lparr>m_GOOS = ''linux'', m_exec = (\<lambda>_ _. (out, None)), m_Create = (\<lambda>_. None), m_Write = (\<lambda>_ b. b)\<rparr>"

lemma demo_agent_simps [simp]:
  "a_Valid demo_agent" "a_Conn demo_agent = Some (fresh_conn [])"
  by (simp_all add: demo_agent_def NewAgent_def ResetAgent_def)

lemma fresh_conn_simps [simp]:
  "write_script (fresh_conn evs) = []" "outbound (fresh_conn evs) = []" "inbound (fresh_conn evs) = evs"
  by (simp_all add: fresh_conn_def)



section \<open>Commands and their results\<close>

definition shell_reply :: "string \<Rightarrow> string \<Rightarrow> ShellRunRsp" where
  "shell_reply out taskid = ShellRunRsp_zero\<lparr>RuncmdRsp := out, shellrsp_Taskid := taskid\<rparr>"

lemma agent_runs_command:
  assumes "a_Conn a = Some k" and "writable k"
    and "utf8_ValidString (Runcmd sm)" and "utf8_ValidString (shell_Taskid sm)"
    and "shell_unrecognized sm = []" and "length (fst (Marshal ShellRun_info sm)) < 2 ^ 63"
    and "ExecShell (m_GOOS mc) (m_exec mc) (Runcmd sm) = Inr out"
  obtains k' where "agent_HandleMsg api mc env (mk_msg ShellRun_Msg (fst (Marshal ShellRun_info sm))) (a, fs) =
      Returns (None, a\<lparr>a_Conn := Some k'\<rparr>, fs)"
    and "outbound k' = outbound k @ packet ShellRun_Rsp
      (fst (Marshal ShellRunRsp_info (shell_reply out (shell_Taskid sm))))"
    and "inbound k' = inbound k" and "writable k'"
proof -
  let ?m = "\<lparr>MsgType = ShellRun_Rsp, MsgData = [],
    MsgProto = Some (PB_ShellRunRsp (shell_reply out (shell_Taskid sm)))\<rparr>"
  obtain k' where k': "agent_SendMsg api env ?m a = Returns (a\<lparr>a_Conn := Some k'\<rparr>)"
    "outbound k' = outbound k @ agent_packet ?m" "inbound k' = inbound k" "writable k'"
    using agent_SendMsg_writes [OF assms(1,2)] by blast
  have "Unmarshal ShellRun_info ShellRun_zero (fst (Marshal ShellRun_info sm)) = (sm, None)"
    using shell_decodes [OF assms(6,5)] shell_ok [of sm] assms(3,4) by simp
  with k'(1) assms(7)
  have "agent_HandleMsg api mc env (mk_msg ShellRun_Msg (fst (Marshal ShellRun_info sm))) (a, fs) =
      Returns (None, a\<lparr>a_Conn := Some k'\<rparr>, fs)"
    by (simp add: agent_HandleMsg_def HandleShellRunMsg_def mk_msg_def shell_reply_def msg_type_defs)
  moreover have "outbound k' = outbound k @ packet ShellRun_Rsp
      (fst (Marshal ShellRunRsp_info (shell_reply out (shell_Taskid sm))))"
    using k'(2) by (simp add: agent_packet_eq)
  ultimately show thesis using k'(3,4) by (rule that)
qed

lemma server_handles_reply:
  assumes "length (fst (Marshal ShellRunRsp_info (shell_reply out t))) < 2 ^ 63" and "utf8_ValidString t"
  shows "HandleMsg api cf now (mk_msg ShellRun_Rsp (fst (Marshal ShellRunRsp_info (shell_reply out t)))) c e =
    (None, c, if utf8_ValidString out then snd (ClientPut api (result_key t (ClientID c)) out e) else e)"
proof -
  have "Unmarshal ShellRunRsp_info ShellRunRsp_zero (fst (Marshal ShellRunRsp_info (shell_reply out t))) =
      (shell_reply out t, snd (Marshal ShellRunRsp_info (shell_reply out t)))"
    by (rule shellrsp_decodes [OF assms(1)]) (simp add: shell_reply_def ShellRunRsp_zero_def)
  moreover have "snd (Marshal ShellRunRsp_info (shell_reply out t)) = None \<longleftrightarrow> utf8_ValidString out"
    using assms(2) by (simp add: shellrsp_ok shell_reply_def)
  ultimately show ?thesis
    by (auto simp: HandleMsg_def HandleShellRunRspMsg_def mk_msg_def msg_type_defs shell_reply_def
        split: option.splits)
qed

definition demo_command :: ShellRun where
  "demo_command = ShellRun_zero\<lparr>Runcmd := ''uptime'', shell_Taskid := ''000007''\<rparr>"

lemma demo_command_ok:
  "utf8_ValidString (Runcmd demo_command)" "utf8_ValidString (shell_Taskid demo_command)"
  "shell_unrecognized demo_command = []" "length (fst (Marshal ShellRun_info demo_command)) < 2 ^ 63"
proof -
  have "length (fst (Marshal ShellRun_info demo_command)) = 16" by code_simp
  then show "length (fst (Marshal ShellRun_info demo_command)) < 2 ^ 63" by simp
qed code_simp+

lemma demo_exec:
  assumes "out \<noteq> [] \<longrightarrow> plain_char (hd out) \<and> plain_char (last out)"
  shows "ExecShell (m_GOOS (demo_machine out)) (m_exec (demo_machine out)) cmd = Inr out"
  using strings_TrimSpace_plain [OF assms] by (simp add: ExecShell_def LinuxCmdRun_def demo_machine_def)

text \<open>
  C40. Output that is not UTF-8 is lost: the agent sends it, but the server cannot decode the reply
  and stores nothing.
\<close>

theorem shell_output_not_utf8_lost:
  assumes "a_Conn a = Some k" and "writable k"
    and "utf8_ValidString (Runcmd sm)" and "utf8_ValidString (shell_Taskid sm)"
    and "shell_unrecognized sm = []" and "length (fst (Marshal ShellRun_info sm)) < 2 ^ 63"
    and "ExecShell (m_GOOS mc) (m_exec mc) (Runcmd sm) = Inr out" and "\<not> utf8_ValidString out"
    and "length (fst (Marshal ShellRunRsp_info (shell_reply out (shell_Taskid sm)))) < 2 ^ 63"
  shows "\<exists>a' k' reply.
    agent_HandleMsg api mc env (mk_msg ShellRun_Msg (fst (Marshal ShellRun_info sm))) (a, fs) =
      Returns (None, a', fs) \<and>
    a_Conn a' = Some k' \<and> outbound k' = outbound k @ packet ShellRun_Rsp reply \<and>
    HandleMsg api cf now (mk_msg ShellRun_Rsp reply) c e = (None, c, e)"
proof -
  from agent_runs_command [OF assms(1-7)] obtain k' where
    "agent_HandleMsg api mc env (mk_msg ShellRun_Msg (fst (Marshal ShellRun_info sm))) (a, fs) =
      Returns (None, a\<lparr>a_Conn := Some k'\<rparr>, fs)"
    "outbound k' = outbound k @ packet ShellRun_Rsp
      (fst (Marshal ShellRunRsp_info (shell_reply out (shell_Taskid sm))))"
    by blast
  moreover have "HandleMsg api cf now
      (mk_msg ShellRun_Rsp (fst (Marshal ShellRunRsp_info (shell_reply out (shell_Taskid sm))))) c e =
      (None, c, e)"
    using server_handles_reply [OF assms(9,4), of api cf now c e] assms(8) by simp
  ultimately show ?thesis by fastforce
qed

theorem shell_output_not_utf8_lost_witness:
  "\<exists>reply. HandleMsg mem_api sample_conf 0 (mk_msg ShellRun_Rsp reply) (NewClient (fresh_conn []) ''10.0.0.1'') [] =
      (None, NewClient (fresh_conn []) ''10.0.0.1'', [])"
proof -
  let ?out = "[CHR ''a'', CHR 0xFF, CHR ''z'']" and ?c = "NewClient (fresh_conn []) ''10.0.0.1''"
  have out: "ExecShell (m_GOOS (demo_machine ?out)) (m_exec (demo_machine ?out)) (Runcmd demo_command) = Inr ?out"
    by (rule demo_exec) (simp add: plain_char_def)
  have u: "\<not> utf8_ValidString ?out"
    and l: "length (fst (Marshal ShellRunRsp_info (shell_reply ?out (shell_Taskid demo_command)))) = 13"
    by code_simp+
  have "\<exists>a' k' reply.
    agent_HandleMsg mem_api (demo_machine ?out) ([], 0)
      (mk_msg ShellRun_Msg (fst (Marshal ShellRun_info demo_command))) (demo_agent, Map.empty) =
      Returns (None, a', Map.empty) \<and>
    a_Conn a' = Some k' \<and> outbound k' = outbound (fresh_conn []) @ packet ShellRun_Rsp reply \<and>
    HandleMsg mem_api sample_conf 0 (mk_msg ShellRun_Rsp reply) ?c [] = (None, ?c, [])"
    by (rule shell_output_not_utf8_lost [OF _ _ demo_command_ok out u]) (simp_all add: l)
  then show ?thesis by blast
qed

section \<open>A write that is cut\<close>

text \<open>A write cut behind the length field, and what follows it on the wire.\<close>

lemma SendMsg_cut:
  assumes "\<not> closed (Conn c)" and "write_script (Conn c) = [OutErr 4 err]"
  shows "outbound (Conn (SendMsg cf now m c)) =
      outbound (Conn c) @ BigEndian_PutUint32 (of_nat (length (msg_bytes m)))"
    and "writable (Conn (SendMsg cf now m c))" and "\<not> Valid (SendMsg cf now m c)"
  using assms
  by (simp_all add: SendMsg_def conn_Write_def msg_packet_eq packet_def SetValid_def writable_def Let_def)

lemma cut_packet:
  assumes "n \<le> 4 + length p"
  shows "BigEndian_PutUint32 (of_nat n) @ packet ty p =
    packet (of_nat (length p)) (take n (BigEndian_PutUint32 ty @ p)) @ drop n (BigEndian_PutUint32 ty @ p)"
proof -
  have "length (take n (BigEndian_PutUint32 ty @ p)) = n" using assms by simp
  then show ?thesis by (simp add: packet_def del: take_append drop_append)
qed

text \<open>
  C19. A write cut by an error (a write timeout, say) does not end a connection: the client is only
  marked invalid, and until it has been removed \<open>Multicast\<close> goes on writing to it.  When the cut falls behind the
  length field, the agent takes the length of the next message for the type of a message and
  the type of the next message for the head of its payload: neither message arrives, and what does arrive
  was never sent.
\<close>

theorem cut_write_misread:
  assumes "\<not> closed (Conn c)" and "write_script (Conn c) = [OutErr 4 err]" and "outbound (Conn c) = []"
    and "length (msg_bytes m1) \<le> 4 + length (msg_bytes m2)" and "length (msg_bytes m1) + 264 \<le> 2 ^ 32"
    and "a_Conn a = Some k" and "a_Valid a" and "a_ReadBuf a = []"
    and "script_data (inbound k) = outbound (Conn (SendMsg cf later m2 (SendMsg cf now m1 c)))"
    and "conn_work k < length envs"
  shows "\<not> Valid (SendMsg cf now m1 c) \<and>
    deliver (agent_GetMsg api) 1 envs a =
      [mk_msg (of_nat (length (msg_bytes m2)))
        (take (length (msg_bytes m1)) (BigEndian_PutUint32 (MsgType m2) @ msg_bytes m2))]"
proof
  let ?ty = "of_nat (length (msg_bytes m2)) :: u32"
  let ?p = "take (length (msg_bytes m1)) (BigEndian_PutUint32 (MsgType m2) @ msg_bytes m2)"
  let ?r = "drop (length (msg_bytes m1)) (BigEndian_PutUint32 (MsgType m2) @ msg_bytes m2)"
  note cut = SendMsg_cut [OF assms(1,2), of cf now m1]
  show "\<not> Valid (SendMsg cf now m1 c)" by (rule cut(3))
  have "outbound (Conn (SendMsg cf later m2 (SendMsg cf now m1 c))) =
      BigEndian_PutUint32 (of_nat (length (msg_bytes m1))) @ packet (MsgType m2) (msg_bytes m2)"
    using cut(1,2) assms(3) by (simp add: SendMsg_def msg_packet_eq SetValid_def Let_def)
  also have "\<dots> = packet ?ty ?p @ ?r" using assms(4) by (rule cut_packet)
  finally have s: "pending (a_ReadBuf a) (agent_conn a) = packet ?ty ?p @ ?r"
    using assms(6,8,9) by (simp add: pending_def agent_conn_def del: take_append drop_append)
  have "length ?p + 264 \<le> 2 ^ 32" using assms(5) by (simp del: take_append)
  with s assms(6-8,10) show "deliver (agent_GetMsg api) 1 envs a = [mk_msg ?ty ?p]"
    using agent_reader.get_packet [of a envs ?ty ?p ?r api]
    by (auto simp: frame_inv_def agent_ok_def agent_conn_def simp del: take_append drop_append)
qed

text \<open>Two commands on a connection whose first write is cut.\<close>

definition cut_client :: TcpClient where
  "cut_client = NewClient ((fresh_conn [])\<lparr>write_script := [OutErr 4 ErrNetClosing]\<rparr>) ''10.0.0.1''"

definition command_msg :: Msg where
  "command_msg = \<lparr>MsgType = ShellRun_Msg, MsgData = [], MsgProto = Some (PB_ShellRun demo_command)\<rparr>"

definition cut_wire :: "byte list" where
  "cut_wire = outbound (Conn (SendMsg sample_conf 1 command_msg (SendMsg sample_conf 0 command_msg cut_client)))"

theorem cut_write_misread_witness:
  "\<exists>p. deliver (agent_GetMsg mem_api) 1 (replicate 40 ([], 0))
     (demo_agent\<lparr>a_Conn := Some (fresh_conn [InData cut_wire])\<rparr>) = [mk_msg 16 p]"
proof -
  have l: "length (msg_bytes command_msg) = 16" "length cut_wire = 28" by code_simp+
  have "\<not> Valid (SendMsg sample_conf 0 command_msg cut_client) \<and>
    deliver (agent_GetMsg mem_api) 1 (replicate 40 ([], 0)) (demo_agent\<lparr>a_Conn := Some (fresh_conn [InData cut_wire])\<rparr>) =
      [mk_msg (of_nat (length (msg_bytes command_msg)))
        (take (length (msg_bytes command_msg)) (BigEndian_PutUint32 (MsgType command_msg) @ msg_bytes command_msg))]"
    by (rule cut_write_misread [where err = ErrNetClosing and k = "fresh_conn [InData cut_wire]" and cf = sample_conf
          and now = 0 and later = 1])
      (simp_all add: cut_client_def l conn_work_def cut_wire_def [symmetric],
       simp_all add: cut_wire_def cut_client_def demo_agent_def NewAgent_def ResetAgent_def fresh_conn_def)
  then show ?thesis by (auto simp: l)
qed

end
