(* ===== verification/Agent_Steps.thy ===== *)
theory Agent_Steps
  imports Agent
begin

text \<open>
  The running agent as a step relation (\<open>RunAgent\<close> and \<open>StartAgent\<close> in
  \<open>src/service/agent/agent.go\<close>): the outer loop dials, starts six goroutines and waits for all of
  them, then resets the agent and dials again.  A step is one turn of one goroutine, an action of
  the outer loop, or a change of etcd by somebody else.  A panic ends the process.
\<close>

datatype loop = LHeartbeat | LListen | LPingDetct | LTcpDetct | LPcapDump | LDataCollect

lemma UNIV_loop: "UNIV = {LHeartbeat, LListen, LPingDetct, LTcpDetct, LPcapDump, LDataCollect}"
  using loop.exhaust by blast

instance loop :: finite
  by standard (simp add: UNIV_loop)

text \<open>What the loops change besides the agent: files, probe, influx, capture and etcd.\<close>

record ('e, 'x) surroundings =
  s_files :: files
  s_icmp :: Icmp
  s_influx :: 'x
  s_capdump :: CapDump
  s_etcd :: 'e

text \<open>What one turn meets: clock, machine, network, capture device and the global variables it reads.\<close>

record 'e turn_in =
  in_now :: int
  in_localtime :: string
  in_machine :: machine
  in_resolve :: "string \<Rightarrow> string result"
  in_ping :: "string \<Rightarrow> ping_io"
  in_tcp :: "string \<Rightarrow> tcp_io"
  in_openLive :: "string \<Rightarrow> error option"
  in_dial :: "string \<Rightarrow> conn result"
  in_packets :: "(byte list \<times> 'e) list"
  in_etcdclient :: EtcdClient
  in_osip :: string

section \<open>Turns\<close>

text \<open>
  \<open>Listen\<close>, with \<open>GetMsg\<close> unrolled: one turn of the reader, and the handler when it delivers a
  message.  \<open>Listen\<close> and \<open>GetMsg\<close> both look at \<open>Valid\<close>, and both leave the loop with \<open>Valid\<close> false.
  \<open>None\<close> is a read that waits.
\<close>

definition Listen_read ::
    "'e etcd_api \<Rightarrow> machine \<Rightarrow> 'e \<times> int \<Rightarrow> Agent \<times> files \<Rightarrow> (bool \<times> Agent \<times> files) run option" where
  "Listen_read api mc env st =
     (case st of
        (a, fs) \<Rightarrow>
          if a_Valid a = False then Some (Returns (False, a, fs))
          else case agent_GetMsg_turn api env a of
            Again a' \<Rightarrow> Some (Returns (True, a', fs))
          | Return (Inl err) a' \<Rightarrow> Some (Returns (False, a'\<lparr>a_Valid := False\<rparr>, fs))
          | Return (Inr m) a' \<Rightarrow>
              (case agent_HandleMsg api mc env m (a', fs) of
                 Panics \<Rightarrow> Some Panics
               | Returns (_, a'', fs') \<Rightarrow> Some (Returns (True, a'', fs')))
          | Blocks a' \<Rightarrow> None
          | TurnPanics \<Rightarrow> Some Panics)"

fun loop_turn ::
    "'e etcd_api \<Rightarrow> 'x influx_api \<Rightarrow> loop \<Rightarrow> 'e turn_in \<Rightarrow> Agent \<times> ('e, 'x) surroundings
      \<Rightarrow> (bool \<times> Agent \<times> ('e, 'x) surroundings) run option" where
  "loop_turn api ix LHeartbeat inp (a, s) =
     (case Heartbeat_turn api (s_etcd s, in_now inp) (in_localtime inp) a of
        Panics \<Rightarrow> Some Panics
      | Returns (go, a') \<Rightarrow> Some (Returns (go, a', s)))"
| "loop_turn api ix LListen inp (a, s) =
     (case Listen_read api (in_machine inp) (s_etcd s, in_now inp) (a, s_files s) of
        None \<Rightarrow> None
      | Some Panics \<Rightarrow> Some Panics
      | Some (Returns (go, a', fs)) \<Rightarrow> Some (Returns (go, a', s\<lparr>s_files := fs\<rparr>)))"
| "loop_turn api ix LPingDetct inp (a, s) =
     (case PingDetct_turn api (s_etcd s) ix (in_resolve inp) (in_ping inp) (in_now inp)
             (a, s_icmp s, s_influx s) of
        Panics \<Rightarrow> Some Panics
      | Returns (go, a', i, x) \<Rightarrow> Some (Returns (go, a', s\<lparr>s_icmp := i, s_influx := x\<rparr>)))"
| "loop_turn api ix LTcpDetct inp (a, s) =
     (case TcpDetct_turn api (s_etcd s) ix (in_resolve inp) (in_tcp inp) (in_now inp) (a, s_influx s) of
        Panics \<Rightarrow> Some Panics
      | Returns (go, a', x) \<Rightarrow> Some (Returns (go, a', s\<lparr>s_influx := x\<rparr>)))"
| "loop_turn api ix LPcapDump inp (a, s) =
     (case PcapDump_turn api (s_etcd s) (in_openLive inp) (in_dial inp) (in_packets inp)
             (a, s_capdump s) of
        Panics \<Rightarrow> Some Panics
      | Returns (go, a', c) \<Rightarrow> Some (Returns (go, a', s\<lparr>s_capdump := c\<rparr>)))"
| "loop_turn api ix LDataCollect inp (a, s) =
     (case DataCollect_turn api (in_machine inp) (in_etcdclient inp) (in_osip inp) (a_Valid a) (a, s_etcd s) of
        Panics \<Rightarrow> Some Panics
      | Returns (go, a', e) \<Rightarrow> Some (Returns (go, a', s\<lparr>s_etcd := e\<rparr>)))"

section \<open>The contract of a loop\<close>

text \<open>What a turn may do to the agent: it keeps the address and whether there is a connection,
  and it never makes an invalid agent valid again.\<close>

definition agent_frame :: "Agent \<Rightarrow> Agent \<Rightarrow> bool" where
  "agent_frame a a' \<longleftrightarrow>
     LocalIp a' = LocalIp a \<and> (a_Conn a' = None \<longleftrightarrow> a_Conn a = None) \<and> (a_Valid a' \<longrightarrow> a_Valid a)"

lemma agent_frame_refl [simp]: "agent_frame a a"
  by (simp add: agent_frame_def)

lemma agent_frame_trans: "agent_frame a b \<Longrightarrow> agent_frame b c \<Longrightarrow> agent_frame a c"
  by (auto simp: agent_frame_def)

lemma agent_frame_switches [simp]:
  "agent_frame a (a\<lparr>PingSwitch := v\<rparr>)" "agent_frame a (a\<lparr>TcpSwitch := v\<rparr>)"
  "agent_frame a (a\<lparr>PcapSwitch := v\<rparr>)"
  by (simp_all add: agent_frame_def)

locale agent_loop =
  fixes turn :: "'i \<Rightarrow> Agent \<times> 's \<Rightarrow> (bool \<times> Agent \<times> 's) run option"
  assumes turn_invalid: "\<not> a_Valid a \<Longrightarrow> turn i (a, s) = Some (Returns (False, a, s))"
    and turn_frame: "turn i (a, s) = Some (Returns (go, a', s')) \<Longrightarrow> agent_frame a a'"
    and turn_ends: "turn i (a, s) = Some (Returns (False, a', s')) \<Longrightarrow> \<not> a_Valid a'"
begin

lemma turn_goes_on: "turn i (a, s) = Some (Returns (True, a', s')) \<Longrightarrow> a_Valid a"
  using turn_invalid [of a i s] by auto

text \<open>A turn of an invalid agent ends the loop and touches nothing.\<close>

lemma turn_stops:
  "turn i (a, s) = Some (Returns (go, a', s')) \<Longrightarrow> \<not> a_Valid a \<Longrightarrow> \<not> go \<and> a' = a \<and> s' = s"
  using turn_invalid [of a i s] by simp

lemma turn_no_panic: "turn i (a, s) = Some Panics \<Longrightarrow> a_Valid a"
  using turn_invalid [of a i s] by auto

end

section \<open>The six loops satisfy it\<close>

lemma agent_SendMsg_frame: "agent_SendMsg api env m a = Returns a' \<Longrightarrow> agent_frame a a'"
  by (auto simp: agent_SendMsg_def agent_frame_def Let_def split: prod.splits option.splits if_splits)

lemma agent_HandleMsg_frame:
  "agent_HandleMsg api mc env m (a, fs) = Returns (err, a', fs') \<Longrightarrow> agent_frame a a'"
  by (auto simp: agent_HandleMsg_def HandleShellRunMsg_def HandleScriptRunMsg_def
      HandleHeartBeatRspMsg_def dest: agent_SendMsg_frame
      split: if_splits run.splits prod.splits option.splits sum.splits)

lemma agent_turn_frame:
  "agent_GetMsg_turn api env a = Again a' \<Longrightarrow> agent_frame a a'"
  "agent_GetMsg_turn api env a = Return r a' \<Longrightarrow> agent_frame a a'"
  by (auto simp: agent_GetMsg_turn_def agent_take_message_def agent_frame_def Let_def a_set_read_deadline_def
      split: if_splits prod.splits read_result.splits option.splits)

lemma Listen_read_frame:
  assumes "Listen_read api mc env (a, fs) = Some (Returns (go, a', fs'))"
  shows "agent_frame a a'" and "\<not> go \<Longrightarrow> \<not> a_Valid a'"
proof -
  have inv: "agent_frame a b \<Longrightarrow> agent_frame a (b\<lparr>a_Valid := False\<rparr>)" for b
    by (simp add: agent_frame_def)
  show "agent_frame a a'" and "\<not> go \<Longrightarrow> \<not> a_Valid a'"
    using assms
    by (auto simp: Listen_read_def intro: inv dest: agent_turn_frame agent_HandleMsg_frame
        intro: agent_frame_trans split: if_splits turn.splits sum.splits run.splits prod.splits)
qed

lemma Heartbeat_turn_frame:
  assumes "Heartbeat_turn api env t a = Returns (go, a')"
  shows "agent_frame a a'" and "\<not> go \<Longrightarrow> \<not> a_Valid a'"
  using assms
  by (auto simp: Heartbeat_turn_def Let_def dest: agent_SendMsg_frame split: if_splits run.splits)

lemma DataCollect_turn_frame:
  assumes "DataCollect_turn api mc ec osip (a_Valid a) (a, e) = Returns (go, a', e')"
  shows "agent_frame a a'" and "\<not> go \<Longrightarrow> \<not> a_Valid a'"
  using assms
  by (auto simp: DataCollect_turn_def agent_frame_def Let_def split: if_splits run.splits)

lemma probe_turns_frame:
  "PingDetct_turn api e ix rs pn now (a, i, x) = Returns (go, a', i', x') \<Longrightarrow>
     agent_frame a a' \<and> (go \<or> \<not> a_Valid a')"
  "TcpDetct_turn api e ix rs tn now (a, x) = Returns (go, a', x') \<Longrightarrow>
     agent_frame a a' \<and> (go \<or> \<not> a_Valid a')"
  "PcapDump_turn api e ol d pkts (a, c) = Returns (go, a', c') \<Longrightarrow>
     agent_frame a a' \<and> (go \<or> \<not> a_Valid a')"
  by (auto simp: PingDetct_turn_def TcpDetct_turn_def PcapDump_turn_def agent_frame_def Let_def
      split: if_splits run.splits)

lemma loop_turn_frame:
  assumes "loop_turn api ix l inp (a, s) = Some (Returns (go, a', s'))"
  shows "agent_frame a a' \<and> (go \<or> \<not> a_Valid a')"
  using assms
  by (cases l) (auto dest: Heartbeat_turn_frame Listen_read_frame DataCollect_turn_frame
      probe_turns_frame split: option.splits run.splits prod.splits)

lemma loop_turn_invalid: "\<not> a_Valid a \<Longrightarrow> loop_turn api ix l inp (a, s) = Some (Returns (False, a, s))"
  by (cases l) (simp_all add: Heartbeat_turn_def Listen_read_def PingDetct_turn_def TcpDetct_turn_def
      PcapDump_turn_def DataCollect_turn_def)

interpretation loops: agent_loop "loop_turn api ix l"
  for api :: "'e etcd_api" and ix :: "'x influx_api" and l :: loop
  by unfold_locales (auto simp: loop_turn_invalid dest: loop_turn_frame)

section \<open>Steps\<close>

record ('e, 'x) agent_world =
  ag :: Agent
  around :: "('e, 'x) surroundings"
  running :: "loop set"
  waiting :: bool
  halted :: bool

text \<open>The agent as \<open>main\<close> hands it to \<open>RunAgent\<close>.\<close>

definition agent_boot :: "string \<Rightarrow> ('e, 'x) surroundings \<Rightarrow> ('e, 'x) agent_world" where
  "agent_boot localip s =
     \<lparr>ag = NewAgent localip, around = s, running = {}, waiting = False, halted = False\<rparr>"

text \<open>A goroutine that leaves its loop calls \<open>wg.Done()\<close>.\<close>

definition after_turn ::
    "loop \<Rightarrow> bool \<Rightarrow> Agent \<Rightarrow> ('e, 'x) surroundings \<Rightarrow> ('e, 'x) agent_world \<Rightarrow> ('e, 'x) agent_world" where
  "after_turn l go a s w =
     w\<lparr>ag := a, around := s, running := (if go then running w else running w - {l})\<rparr>"

text \<open>
  \<open>dial_ok\<close> and \<open>dial_fails\<close> are the beginning of \<open>StartAgent\<close>, \<open>wait_over\<close> its end; both ways back
  to \<open>RunAgent\<close> reset the agent.  The label is the goroutine that moved.
\<close>

inductive agent_step ::
    "'e etcd_api \<Rightarrow> 'x influx_api \<Rightarrow> string \<Rightarrow> loop option \<Rightarrow> ('e, 'x) agent_world \<Rightarrow> ('e, 'x) agent_world \<Rightarrow> bool"
  for api :: "'e etcd_api" and ix :: "'x influx_api" and localip :: string
where
  dial_ok: "\<not> halted w \<Longrightarrow> \<not> waiting w \<Longrightarrow>
     StartAgent_dial api (s_etcd (around w)) dial (ag w) = (True, a) \<Longrightarrow>
     agent_step api ix localip None w (w\<lparr>ag := a, waiting := True, running := UNIV\<rparr>)"
| dial_fails: "\<not> halted w \<Longrightarrow> \<not> waiting w \<Longrightarrow>
     StartAgent_dial api (s_etcd (around w)) dial (ag w) = (False, a) \<Longrightarrow>
     agent_step api ix localip None w (w\<lparr>ag := ResetAgent localip a\<rparr>)"
| wait_over: "\<not> halted w \<Longrightarrow> waiting w \<Longrightarrow> running w = {} \<Longrightarrow>
     agent_step api ix localip None w (w\<lparr>ag := ResetAgent localip (ag w), waiting := False\<rparr>)"
| loop_moves: "\<not> halted w \<Longrightarrow> l \<in> running w \<Longrightarrow>
     loop_turn api ix l inp (ag w, around w) = Some (Returns (go, a, s)) \<Longrightarrow>
     agent_step api ix localip (Some l) w (after_turn l go a s w)"
| loop_panics: "\<not> halted w \<Longrightarrow> l \<in> running w \<Longrightarrow>
     loop_turn api ix l inp (ag w, around w) = Some Panics \<Longrightarrow>
     agent_step api ix localip (Some l) w (w\<lparr>halted := True\<rparr>)"
| etcd_moves: "agent_step api ix localip None w (w\<lparr>around := (around w)\<lparr>s_etcd := e\<rparr>\<rparr>)"

inductive_cases agent_stepE: "agent_step api ix localip lb w w'"
inductive_cases loop_stepE: "agent_step api ix localip (Some l) w w'"

definition agent_moves ::
    "'e etcd_api \<Rightarrow> 'x influx_api \<Rightarrow> string \<Rightarrow> ('e, 'x) agent_world \<Rightarrow> ('e, 'x) agent_world \<Rightarrow> bool" where
  "agent_moves api ix localip w w' \<longleftrightarrow> (\<exists>lb. agent_step api ix localip lb w w')"

definition agent_reachable ::
    "'e etcd_api \<Rightarrow> 'x influx_api \<Rightarrow> string \<Rightarrow> ('e, 'x) surroundings \<Rightarrow> ('e, 'x) agent_world \<Rightarrow> bool" where
  "agent_reachable api ix localip s w =
     (agent_moves api ix localip)\<^sup>*\<^sup>* (agent_boot localip s) w"

section \<open>The invariant\<close>

text \<open>
  Between two connections no goroutine runs and the agent is as new; during a connection there is
  a connection, and once one goroutine has ended the agent is invalid.
\<close>

definition agent_inv :: "string \<Rightarrow> ('e, 'x) agent_world \<Rightarrow> bool" where
  "agent_inv localip w \<longleftrightarrow>
     (if waiting w then a_Conn (ag w) \<noteq> None \<and> (running w \<noteq> UNIV \<longrightarrow> \<not> a_Valid (ag w))
      else running w = {} \<and> ag w = NewAgent localip)"

lemma ResetAgent_new: "ResetAgent localip a = NewAgent localip"
  by (simp add: NewAgent_def ResetAgent_def)

lemma after_turn_inv:
  assumes "agent_inv localip w" and "l \<in> running w"
    and "loop_turn api ix l inp (ag w, around w) = Some (Returns (go, a, s))"
  shows "agent_inv localip (after_turn l go a s w)"
proof -
  have w: "waiting w" using assms(1,2) by (auto simp: agent_inv_def split: if_splits)
  have "agent_frame (ag w) a" using assms(3) by (rule loops.turn_frame)
  moreover have "\<not> a_Valid a" if "\<not> go"
    using loops.turn_ends [of api ix l inp "ag w" "around w" a s] assms(3) that by simp
  ultimately show ?thesis
    using assms(1) w by (auto simp: agent_inv_def after_turn_def agent_frame_def)
qed

lemma agent_step_inv:
  assumes "agent_step api ix localip lb w w'" and "agent_inv localip w"
  shows "agent_inv localip w'"
  using assms
proof (cases rule: agent_step.cases)
  case (loop_moves l inp go a s)
  with assms(2) show ?thesis by (simp add: after_turn_inv)
qed (auto simp: agent_inv_def ResetAgent_new StartAgent_dial_def split: if_splits sum.splits)

lemma agent_reachable_inv:
  assumes "agent_reachable api ix localip s w"
  shows "agent_inv localip w"
  using assms unfolding agent_reachable_def
proof (induction rule: rtranclp_induct)
  case base
  show ?case by (simp add: agent_boot_def agent_inv_def)
next
  case (step y z)
  then show ?case using agent_step_inv unfolding agent_moves_def by blast
qed

section \<open>The way back to a fresh agent\<close>

text \<open>A turn of an invalid agent can only end its loop.\<close>

lemma invalid_turn:
  assumes "\<not> a_Valid (ag w)" and "agent_step api ix localip (Some l) w w'"
  shows "w' = w\<lparr>running := running w - {l}\<rparr>"
  using assms(2)
  by (rule loop_stepE) (use assms(1) in \<open>auto simp: after_turn_def dest: loops.turn_stops loops.turn_no_panic\<close>)

lemma invalid_turn_exists:
  assumes "\<not> a_Valid (ag w)" and "\<not> halted w" and "l \<in> running w"
  shows "agent_step api ix localip (Some l) w (w\<lparr>running := running w - {l}\<rparr>)"
  using loop_moves [OF assms(2,3) loops.turn_invalid [OF assms(1)]]
  by (simp add: after_turn_def)

lemma invalid_agent_drains:
  assumes "\<not> a_Valid (ag w)" and "\<not> halted w" and "card (running w) = n"
  shows "(agent_moves api ix localip ^^ n) w (w\<lparr>running := {}\<rparr>)"
  using assms
proof (induction n arbitrary: w)
  case 0
  then show ?case by simp
next
  case (Suc n)
  then obtain l where l: "l \<in> running w" by (metis card.empty equals0I nat.distinct(1))
  let ?w = "w\<lparr>running := running w - {l}\<rparr>"
  have "(agent_moves api ix localip ^^ n) ?w (?w\<lparr>running := {}\<rparr>)"
    using Suc.prems l by (intro Suc.IH) simp_all
  moreover from invalid_turn_exists [OF Suc.prems(1,2) l, of api ix localip] have "agent_moves api ix localip w ?w" unfolding agent_moves_def by blast
  ultimately show ?case using relpowp_Suc_I2 [of "agent_moves api ix localip" w ?w n] by simp
qed

text \<open>The agent right after a successful dial.\<close>

definition connected :: "string \<Rightarrow> conn \<Rightarrow> ('e, 'x) surroundings \<Rightarrow> ('e, 'x) agent_world" where
  "connected localip k s =
     \<lparr>ag = (NewAgent localip)\<lparr>a_Conn := Some k\<rparr>, around = s, running = UNIV, waiting = True, halted = False\<rparr>"

lemma connected_reachable: "agent_reachable api ix localip s (connected localip k s)"
proof -
  let ?w = "agent_boot localip s"
  have "agent_step api ix localip None ?w
      (?w\<lparr>ag := (NewAgent localip)\<lparr>a_Conn := Some k\<rparr>, waiting := True, running := UNIV\<rparr>)"
    by (rule dial_ok [where dial = "\<lambda>_. Inr k"]) (simp_all add: agent_boot_def StartAgent_dial_def)
  then have "agent_moves api ix localip ?w (connected localip k s)"
    unfolding agent_moves_def by (auto simp: agent_boot_def connected_def)
  then show ?thesis unfolding agent_reachable_def by (rule r_into_rtranclp)
qed

definition demo_around :: "((string \<times> string) list, (string \<times> point) list) surroundings" where
  "demo_around =
     \<lparr>s_files = Map.empty, s_icmp = \<lparr>Type = 0, Code = 0, CheckSum = 0, Identifier = 0, SequenceNum = 0\<rparr>,
      s_influx = [], s_capdump = \<lparr>Handle = None, Iface = [], Filter = []\<rparr>, s_etcd = []\<rparr>"

text \<open>The server closes the connection: \<open>Listen\<close> ends and leaves an invalid agent.\<close>

lemma lost_reachable:
  "\<exists>w. agent_reachable mem_api mem_influx ip demo_around w \<and> waiting w \<and> \<not> halted w \<and>
     running w = UNIV - {LListen} \<and> \<not> a_Valid (ag w)"
proof -
  let ?w = "connected ip (fresh_conn [InErr (ExtError ''EOF'')]) demo_around"
  let ?inp = "undefined :: (string \<times> string) list turn_in"
  obtain a s where t: "loop_turn mem_api mem_influx LListen ?inp (ag ?w, around ?w) = Some (Returns (False, a, s))"
    by (auto simp: connected_def Listen_read_def agent_GetMsg_turn_def a_set_read_deadline_def NewAgent_def
        ResetAgent_def conn_Read_def fresh_conn_def Let_def)
  then have "agent_step mem_api mem_influx ip (Some LListen) ?w (after_turn LListen False a s ?w)"
    by (intro loop_moves) (simp_all add: connected_def)
  then have "agent_moves mem_api mem_influx ip ?w (after_turn LListen False a s ?w)"
    unfolding agent_moves_def by blast
  with connected_reachable have "agent_reachable mem_api mem_influx ip demo_around (after_turn LListen False a s ?w)"
    unfolding agent_reachable_def by (rule rtranclp.rtrancl_into_rtrancl)
  with loops.turn_ends [OF t] show ?thesis
    by (intro exI [of _ "after_turn LListen False a s ?w"]) (simp add: after_turn_def connected_def)
qed

section \<open>Properties\<close>

text \<open>
  C17. The agent never carries anything over from a lost connection: whenever it is not connected
  no goroutine is running and its state is that of a new agent; while it is connected the
  connection is not nil (so the heartbeat cannot panic), and as soon as one of its six goroutines
  has ended it is invalid.
\<close>

theorem agent_rounds_fresh:
  assumes "agent_reachable api ix localip s w"
  shows "(\<not> waiting w \<longrightarrow> running w = {} \<and> ag w = NewAgent localip) \<and>
    (waiting w \<longrightarrow> a_Conn (ag w) \<noteq> None \<and> (running w \<noteq> UNIV \<longrightarrow> \<not> a_Valid (ag w)) \<and>
      loop_turn api ix LHeartbeat inp (ag w, around w) \<noteq> Some Panics)"
  using agent_reachable_inv [OF assms]
  by (auto simp: agent_inv_def Heartbeat_turn_def agent_SendMsg_def Let_def
      split: if_splits run.splits option.splits prod.splits)

theorem agent_rounds_fresh_witness:
  "\<forall>inp. loop_turn mem_api mem_influx LHeartbeat inp
     (ag (connected ''10.0.0.1'' (fresh_conn []) demo_around), demo_around) \<noteq> Some Panics"
  using agent_rounds_fresh [OF connected_reachable [of mem_api mem_influx "''10.0.0.1''" demo_around "fresh_conn []"]]
  by (simp add: connected_def)

text \<open>
  C31. An invalid agent comes back: from any reachable state in which it is invalid, every move of a
  goroutine just ends that goroutine, and after as many moves as there are goroutines left and one
  step of the outer loop the agent is as new and ready to dial.
\<close>

theorem invalid_agent_restarts:
  assumes "agent_reachable api ix localip s w" and "waiting w" and "\<not> halted w" and "\<not> a_Valid (ag w)"
  shows "(\<forall>l w'. agent_step api ix localip (Some l) w w' \<longrightarrow> w' = w\<lparr>running := running w - {l}\<rparr>) \<and>
    (\<exists>w'. (agent_moves api ix localip ^^ Suc (card (running w))) w w' \<and>
      \<not> waiting w' \<and> \<not> halted w' \<and> ag w' = NewAgent localip \<and> around w' = around w)"
proof -
  let ?w = "w\<lparr>running := {}\<rparr>"
  let ?w' = "?w\<lparr>ag := ResetAgent localip (ag ?w), waiting := False\<rparr>"
  have "(agent_moves api ix localip ^^ card (running w)) w ?w"
    using assms(3,4) by (intro invalid_agent_drains) simp_all
  moreover have "agent_step api ix localip None ?w ?w'"
    using assms(2,3) by (intro wait_over) simp_all
  ultimately have "(agent_moves api ix localip ^^ Suc (card (running w))) w ?w'"
    using relpowp_Suc_I [of "card (running w)" "agent_moves api ix localip"]
    unfolding agent_moves_def by blast
  moreover have "ag ?w' = NewAgent localip" by (simp add: ResetAgent_new)
  ultimately show ?thesis
    using invalid_turn [OF assms(4)] assms(3)
    by (intro conjI exI [of _ ?w'] allI impI) simp_all
qed

theorem invalid_agent_restarts_witness:
  "\<exists>w w'. running w = UNIV - {LListen} \<and> (agent_moves mem_api mem_influx ''10.0.0.1'' ^^ 6) w w' \<and>
     \<not> waiting w' \<and> ag w' = NewAgent ''10.0.0.1''"
proof -
  obtain w where w: "agent_reachable mem_api mem_influx ''10.0.0.1'' demo_around w" "waiting w" "\<not> halted w"
    "running w = UNIV - {LListen}" "\<not> a_Valid (ag w)"
    using lost_reachable by blast
  have "card (running w) = 5" unfolding w(4) UNIV_loop by simp
  then have "Suc (card (running w)) = 6" by simp
  from invalid_agent_restarts [OF w(1-3,5), unfolded this] w(4) show ?thesis by blast
qed

end
