(* ===== verification/Goconfig.thy ===== *)
theory Goconfig
  imports Config
begin

text \<open>
  The INI library the server's configuration is read with
  (\<open>src/vender/src/github.com/Unknwon/goconfig\<close>: \<open>conf.go\<close>, \<open>read.go\<close>, \<open>write.go\<close>): the reader, the
  lookup with its variables \<open>%(name)s\<close>, and the writer the reader is measured against.  The lock
  (\<open>BlockMode\<close>) is not modelled.  A file is its whole content or the error of opening or reading it.
\<close>

section \<open>Strings\<close>

text \<open>\<open>strings.Index\<close>, \<open>strings.LastIndex\<close> (for a non-empty pattern), \<open>strings.IndexAny\<close>.\<close>

fun strings_Index :: "string \<Rightarrow> string \<Rightarrow> nat option" where
  "strings_Index [] sub = (if sub = [] then Some 0 else None)"
| "strings_Index (c # s) sub =
     (if strip_prefix sub (c # s) \<noteq> None then Some 0 else map_option Suc (strings_Index s sub))"

fun strings_LastIndex :: "string \<Rightarrow> string \<Rightarrow> nat option" where
  "strings_LastIndex [] sub = (if sub = [] then Some 0 else None)"
| "strings_LastIndex (c # s) sub =
     (case strings_LastIndex s sub of
        Some i \<Rightarrow> Some (Suc i)
      | None \<Rightarrow> if strip_prefix sub (c # s) \<noteq> None then Some 0 else None)"

fun strings_IndexAny :: "string \<Rightarrow> string \<Rightarrow> nat option" where
  "strings_IndexAny [] cs = None"
| "strings_IndexAny (c # s) cs = (if c \<in> set cs then Some 0 else map_option Suc (strings_IndexAny s cs))"

lemma strip_prefix_length: "strip_prefix p s = Some r \<Longrightarrow> length s = length p + length r"
  by (induction p s rule: strip_prefix.induct) (auto split: if_splits)

text \<open>\<open>strings.Replace(s, old, new, -1)\<close> for a non-empty \<open>old\<close>.\<close>

function (sequential) strings_Replace :: "string \<Rightarrow> string \<Rightarrow> string \<Rightarrow> string" where
  "strings_Replace [] old nw = []"
| "strings_Replace (c # s) old nw =
     (case strip_prefix old (c # s) of
        Some r \<Rightarrow> if old = [] then c # s else nw @ strings_Replace r old nw
      | None \<Rightarrow> c # strings_Replace s old nw)"
  by pat_completeness auto
termination by (relation "measure (\<lambda>(s, old, nw). length s)") (auto dest: strip_prefix_length)

text \<open>\<open>strings.TrimLeft(s, cutset)\<close> and \<open>strings.TrimRight(s, cutset)\<close>.\<close>

definition strings_TrimLeft :: "string \<Rightarrow> string \<Rightarrow> string" where
  "strings_TrimLeft s cutset = dropWhile (\<lambda>c. c \<in> set cutset) s"

definition strings_TrimRight :: "string \<Rightarrow> string \<Rightarrow> string" where
  "strings_TrimRight s cutset = rev (dropWhile (\<lambda>c. c \<in> set cutset) (rev s))"

section \<open>The representation of a file\<close>

definition DEFAULT_SECTION :: string where
  "DEFAULT_SECTION = ''DEFAULT''"

datatype ParseError = ERR_SECTION_NOT_FOUND | ERR_KEY_NOT_FOUND | ERR_BLANK_SECTION_NAME | ERR_COULD_NOT_PARSE

definition LineBreak :: "string \<Rightarrow> string" where
  "LineBreak goos = (if goos = ''windows'' then [CHR 13, CHR 10] else [CHR 10])"

record ConfigFile =
  fileNames :: "string list"
  data :: "string \<rightharpoonup> (string \<rightharpoonup> string)"
  sectionList :: "string list"
  keyList :: "string \<rightharpoonup> string list"
  sectionComments :: "string \<rightharpoonup> string"
  keyComments :: "string \<rightharpoonup> (string \<rightharpoonup> string)"

definition newConfigFile :: "string list \<Rightarrow> ConfigFile" where
  "newConfigFile names =
     \<lparr>fileNames = names, data = Map.empty, sectionList = [], keyList = Map.empty,
      sectionComments = Map.empty, keyComments = Map.empty\<rparr>"

text \<open>The two error types, as the text they print.\<close>

definition getError :: "ParseError \<Rightarrow> string \<Rightarrow> error" where
  "getError reason name =
     ExtError (case reason of
       ERR_SECTION_NOT_FOUND \<Rightarrow> ''section '' @ [CHR 39] @ name @ [CHR 39] @ '' not found''
     | ERR_KEY_NOT_FOUND \<Rightarrow> ''key '' @ [CHR 39] @ name @ [CHR 39] @ '' not found''
     | _ \<Rightarrow> ''invalid get error'')"

definition readError :: "ParseError \<Rightarrow> string \<Rightarrow> error" where
  "readError reason content =
     ExtError (case reason of
       ERR_BLANK_SECTION_NAME \<Rightarrow> ''empty section name not allowed''
     | ERR_COULD_NOT_PARSE \<Rightarrow> ''could not parse line: '' @ content
     | _ \<Rightarrow> ''invalid read error'')"

text \<open>A blank section name stands for the default section.\<close>

definition section_name :: "string \<Rightarrow> string" where
  "section_name section = (if length section = 0 then DEFAULT_SECTION else section)"

text \<open>Reading \<open>c.data[section][key]\<close> and \<open>c.keyList[section]\<close>; a missing list is nil.\<close>

definition lookup_key :: "ConfigFile \<Rightarrow> string \<Rightarrow> string \<Rightarrow> string option" where
  "lookup_key c section key = Option.bind (data c section) (\<lambda>m. m key)"

definition key_list :: "ConfigFile \<Rightarrow> string \<Rightarrow> string list" where
  "key_list c section = (case keyList c section of None \<Rightarrow> [] | Some ks \<Rightarrow> ks)"

definition SetValue :: "string \<Rightarrow> string \<Rightarrow> string \<Rightarrow> ConfigFile \<Rightarrow> bool \<times> ConfigFile" where
  "SetValue section0 key val c0 =
     (let section = section_name section0
      in if length key = 0 then (False, c0)
         else
           let c1 = (if data c0 section = None
                     then c0\<lparr>data := (data c0)(section \<mapsto> Map.empty),
                             sectionList := sectionList c0 @ [section]\<rparr>
                     else c0);
               ok = (lookup_key c1 section key \<noteq> None);
               c2 = c1\<lparr>data := (data c1)(section \<mapsto> (the (data c1 section))(key \<mapsto> val))\<rparr>
           in (\<not> ok, if \<not> ok then c2\<lparr>keyList := (keyList c2)(section \<mapsto> key_list c2 section @ [key])\<rparr> else c2))"

definition mark_comment :: "string \<Rightarrow> string" where
  "mark_comment comments =
     (if comments \<noteq> [] \<and> hd comments \<noteq> CHR ''#'' \<and> hd comments \<noteq> CHR '';''
      then ''; '' @ comments else comments)"

definition SetSectionComments :: "string \<Rightarrow> string \<Rightarrow> ConfigFile \<Rightarrow> bool \<times> ConfigFile" where
  "SetSectionComments section0 comments c =
     (let section = section_name section0
      in if length comments = 0 then
           (True, c\<lparr>sectionComments := (sectionComments c)(section := None)\<rparr>)
         else (sectionComments c section = None,
               c\<lparr>sectionComments := (sectionComments c)(section \<mapsto> mark_comment comments)\<rparr>))"

definition SetKeyComments :: "string \<Rightarrow> string \<Rightarrow> string \<Rightarrow> ConfigFile \<Rightarrow> bool \<times> ConfigFile" where
  "SetKeyComments section0 key comments c =
     (let section = section_name section0
      in if length comments = 0 then
           (True, case keyComments c section of
                    None \<Rightarrow> c
                  | Some m \<Rightarrow> c\<lparr>keyComments := (keyComments c)(section \<mapsto> m(key := None))\<rparr>)
         else
           let m = (case keyComments c section of None \<Rightarrow> Map.empty | Some m \<Rightarrow> m)
           in (m key = None,
               c\<lparr>keyComments := (keyComments c)(section \<mapsto> m(key \<mapsto> mark_comment comments))\<rparr>))"

definition GetSectionComments :: "ConfigFile \<Rightarrow> string \<Rightarrow> string" where
  "GetSectionComments c section =
     (case sectionComments c (section_name section) of None \<Rightarrow> [] | Some s \<Rightarrow> s)"

definition GetKeyComments :: "ConfigFile \<Rightarrow> string \<Rightarrow> string \<Rightarrow> string" where
  "GetKeyComments c section key =
     (case Option.bind (keyComments c (section_name section)) (\<lambda>m. m key) of None \<Rightarrow> [] | Some s \<Rightarrow> s)"

definition GetSectionList :: "ConfigFile \<Rightarrow> string list" where
  "GetSectionList c = sectionList c"

definition GetKeyList :: "ConfigFile \<Rightarrow> string \<Rightarrow> string list" where
  "GetKeyList c section0 =
     (let section = section_name section0
      in if data c section = None then [] else filter (\<lambda>key. key \<noteq> '' '') (key_list c section))"

section \<open>Reading\<close>

text \<open>A double quote, three of them, and a back quote.\<close>

definition quote1 :: string where "quote1 = [CHR 34]"
definition quote3 :: string where "quote3 = [CHR 34, CHR 34, CHR 34]"
definition backquote :: string where "backquote = [CHR 96]"

text \<open>The key of a line (which is not empty) and the position of the sign behind it.\<close>

definition read_key :: "string \<Rightarrow> (string \<times> nat) option" where
  "read_key line =
     (let keyQuote = (if take 1 line = quote1 then
                        (if length line \<ge> 6 \<and> take 3 line = quote3 then quote3 else quote1)
                      else if take 1 line = backquote then backquote else [])
      in if keyQuote \<noteq> [] then
           let qLen = length keyQuote
           in case strings_Index (drop qLen line) keyQuote of
                None \<Rightarrow> None
              | Some p \<Rightarrow>
                  let pos = p + qLen
                  in (case strings_IndexAny (drop pos line) ''=:'' of
                        None \<Rightarrow> None
                      | Some i \<Rightarrow> if i = 0 then None else Some (drop qLen (take pos line), i + pos))
         else
           case strings_IndexAny line ''=:'' of
             None \<Rightarrow> None
           | Some i \<Rightarrow> if i = 0 then None else Some (strings_TrimSpace (take i line), i))"

text \<open>The value of a line, from what stands behind the sign.\<close>

definition read_value :: "string \<Rightarrow> string option" where
  "read_value lineRight =
     (let valQuote = (if length lineRight \<ge> 2 \<and> take 1 lineRight = backquote then backquote
                      else if length lineRight \<ge> 6 \<and> take 3 lineRight = quote3 then quote3 else [])
      in if valQuote \<noteq> [] then
           let qLen = length valQuote
           in (case strings_LastIndex (drop qLen lineRight) valQuote of
                 None \<Rightarrow> None
               | Some pos \<Rightarrow> Some (take pos (drop qLen lineRight)))
         else Some (strings_TrimSpace lineRight))"

record reader =
  rd_file :: ConfigFile
  rd_section :: string
  rd_comments :: string
  rd_count :: nat

text \<open>One line, trimmed: the switch in the loop of \<open>read\<close>.\<close>

definition read_line :: "string \<Rightarrow> string \<Rightarrow> reader \<Rightarrow> reader result" where
  "read_line goos line st =
     (if length line = 0 then Inr st
      else if hd line = CHR ''#'' \<or> hd line = CHR '';'' then
        Inr (st\<lparr>rd_comments := (if length (rd_comments st) = 0 then line
                                else rd_comments st @ LineBreak goos @ line)\<rparr>)
      else if hd line = CHR ''['' \<and> last line = CHR '']'' then
        let section = strings_TrimSpace (drop 1 (take (length line - 1) line));
            c = (if length (rd_comments st) > 0
                 then snd (SetSectionComments section (rd_comments st) (rd_file st)) else rd_file st)
        in Inr \<lparr>rd_file = snd (SetValue section '' '' '' '' c), rd_section = section,
                rd_comments = [], rd_count = 1\<rparr>
      else if rd_section st = [] then Inl (readError ERR_BLANK_SECTION_NAME line)
      else
        case read_key line of
          None \<Rightarrow> Inl (readError ERR_COULD_NOT_PARSE line)
        | Some (key0, i) \<Rightarrow>
            let auto = (key0 = ''-'');
                key = (if auto then ''#'' @ nat_text (rd_count st) else key0);
                count = (if auto then Suc (rd_count st) else rd_count st)
            in (case read_value (strings_TrimSpace (drop (i + 1) line)) of
                  None \<Rightarrow> Inl (readError ERR_COULD_NOT_PARSE line)
                | Some val \<Rightarrow>
                    let c = snd (SetValue (rd_section st) key val (rd_file st))
                    in Inr (st\<lparr>rd_file := (if length (rd_comments st) > 0
                                          then snd (SetKeyComments (rd_section st) key (rd_comments st) c) else c),
                               rd_comments := [], rd_count := count\<rparr>)))"

text \<open>
  The loop over the lines.  The text behind the last line break is read together with the end of
  the file; when nothing is left of it after trimming the loop ends, which is what the empty line
  does here.
\<close>

fun read_lines :: "string \<Rightarrow> string list \<Rightarrow> reader \<Rightarrow> reader result" where
  "read_lines goos [] st = Inr st"
| "read_lines goos (line # lines) st =
     (case read_line goos (strings_TrimSpace line) st of
        Inl err \<Rightarrow> Inl err
      | Inr st' \<Rightarrow> read_lines goos lines st')"

definition skip_BOM :: "string \<Rightarrow> string" where
  "skip_BOM s = (if take 3 s = utf8_lit [239, 187, 191] then drop 3 s else s)"

definition read :: "string \<Rightarrow> string \<Rightarrow> ConfigFile \<Rightarrow> ConfigFile result" where
  "read goos content c =
     map_sum id rd_file
       (read_lines goos (strings_Split (skip_BOM content) (CHR 10))
         \<lparr>rd_file = c, rd_section = DEFAULT_SECTION, rd_comments = [], rd_count = 1\<rparr>)"

definition loadFile :: "(string \<Rightarrow> string result) \<Rightarrow> string \<Rightarrow> string \<Rightarrow> ConfigFile \<Rightarrow> ConfigFile result" where
  "loadFile fs goos fileName c =
     (case fs fileName of Inl err \<Rightarrow> Inl err | Inr content \<Rightarrow> read goos content c)"

fun load_all :: "(string \<Rightarrow> string result) \<Rightarrow> string \<Rightarrow> string list \<Rightarrow> ConfigFile \<Rightarrow> ConfigFile result" where
  "load_all fs goos [] c = Inr c"
| "load_all fs goos (name # names) c =
     (case loadFile fs goos name c of Inl err \<Rightarrow> Inl err | Inr c' \<Rightarrow> load_all fs goos names c')"

definition LoadConfigFile ::
    "(string \<Rightarrow> string result) \<Rightarrow> string \<Rightarrow> string \<Rightarrow> string list \<Rightarrow> ConfigFile result" where
  "LoadConfigFile fs goos fileName moreFiles =
     load_all fs goos (fileName # moreFiles) (newConfigFile (fileName # moreFiles))"

section \<open>Looking up\<close>

text \<open>\<open>varPattern.FindString\<close>: the leftmost match of \<open>%\(([^\)]+)\)s\<close>, or the empty text.\<close>

definition var_at :: "string \<Rightarrow> string option" where
  "var_at s =
     (case strip_prefix ''%('' s of
        None \<Rightarrow> None
      | Some r \<Rightarrow>
          let w = takeWhile (\<lambda>c. c \<noteq> CHR '')'') r
          in if w \<noteq> [] \<and> take 2 (drop (length w) r) = '')s'' then Some (''%('' @ w @ '')s'') else None)"

fun find_var :: "string \<Rightarrow> string" where
  "find_var [] = []"
| "find_var (c # s) = (case var_at (c # s) of Some v \<Rightarrow> v | None \<Rightarrow> find_var s)"

text \<open>
  The loop that replaces variables, \<open>n\<close> rounds of it; \<open>look\<close> is the lookup in the default section
  and \<open>own\<close> the keys of the value's section, when that is another one.
\<close>

fun expand ::
    "(string \<Rightarrow> string result option) \<Rightarrow> (string \<rightharpoonup> string) \<Rightarrow> nat \<Rightarrow> string \<Rightarrow> string option" where
  "expand look own 0 val = Some val"
| "expand look own (Suc n) val =
     (let vr = find_var val
      in if length vr = 0 then Some val
         else
           let noption = strings_TrimRight (strings_TrimLeft vr ''%('') '')s''
           in case look noption of
                None \<Rightarrow> None
              | Some r \<Rightarrow>
                  let nvalue = (case r of
                        Inr v \<Rightarrow> v
                      | Inl err \<Rightarrow> (case own noption of Some v \<Rightarrow> v | None \<Rightarrow> []))
                  in expand look own n (strings_Replace val vr nvalue))"

definition DEPTH_VALUES :: nat where
  "DEPTH_VALUES = 200"

text \<open>
  \<open>GetValue\<close> calls itself for the section above and for every variable, without a bound on the
  depth of the calls.  The first argument is the depth that is available; \<open>None\<close> is a lookup that
  needs more.
\<close>

fun GetValue :: "nat \<Rightarrow> ConfigFile \<Rightarrow> string \<Rightarrow> string \<Rightarrow> string result option" where
  "GetValue 0 c section0 key = None"
| "GetValue (Suc n) c section0 key =
     (let section = section_name section0
      in case data c section of
           None \<Rightarrow> Some (Inl (getError ERR_SECTION_NOT_FOUND section))
         | Some m \<Rightarrow>
             (case m key of
                None \<Rightarrow>
                  (case strings_LastIndex section ''.'' of
                     Some i \<Rightarrow> GetValue n c (take i section) key
                   | None \<Rightarrow> Some (Inl (getError ERR_KEY_NOT_FOUND key)))
              | Some val \<Rightarrow>
                  map_option Inr
                    (expand (GetValue n c DEFAULT_SECTION)
                       (if section \<noteq> DEFAULT_SECTION then m else Map.empty) DEPTH_VALUES val)))"

section \<open>Writing\<close>

text \<open>\<open>SaveConfigData\<close> with \<open>PrettyFormat\<close>, as the text it writes.\<close>

definition write_key :: "string \<Rightarrow> string" where
  "write_key key =
     (let keyName = (if take 1 key = ''#'' then ''-'' else key)
      in if CHR ''='' \<in> set keyName \<or> CHR '':'' \<in> set keyName then
           if CHR 96 \<in> set keyName then
             if CHR 34 \<in> set keyName then quote3 @ keyName @ quote3 else quote1 @ keyName @ quote1
           else backquote @ keyName @ backquote
         else keyName)"

definition write_value :: "string \<Rightarrow> string" where
  "write_value val =
     (if CHR 96 \<in> set val then
        if CHR 34 \<in> set val then quote3 @ val @ quote3 else quote1 @ val @ quote1
      else val)"

definition write_entry :: "string \<Rightarrow> ConfigFile \<Rightarrow> string \<Rightarrow> string \<Rightarrow> string" where
  "write_entry goos c section key =
     (if key \<noteq> '' '' then
        (if length (GetKeyComments c section key) > 0
         then GetKeyComments c section key @ LineBreak goos else [])
        @ write_key key @ '' = ''
        @ write_value (case lookup_key c section key of None \<Rightarrow> [] | Some v \<Rightarrow> v) @ LineBreak goos
      else [])"

definition write_section :: "string \<Rightarrow> ConfigFile \<Rightarrow> string \<Rightarrow> string" where
  "write_section goos c section =
     (if length (GetSectionComments c section) > 0
      then GetSectionComments c section @ LineBreak goos else [])
     @ (if section \<noteq> DEFAULT_SECTION then ''['' @ section @ '']'' @ LineBreak goos else [])
     @ concat (map (write_entry goos c section) (key_list c section))
     @ LineBreak goos"

definition SaveConfigData :: "string \<Rightarrow> ConfigFile \<Rightarrow> string" where
  "SaveConfigData goos c = concat (map (write_section goos c) (sectionList c))"

text \<open>What \<open>CfgInit\<close> uses of the library, on files \<open>fs\<close> and with call depth \<open>depth\<close>.  A lookup that
  runs out of stack ends the process, as \<open>CfgInit\<close> does on an error.\<close>

definition goconfig_on :: "(string \<Rightarrow> string result) \<Rightarrow> string \<Rightarrow> nat \<Rightarrow> ConfigFile goconfig" where
  "goconfig_on fs goos depth =
     \<lparr>ini_Load = (\<lambda>name. LoadConfigFile fs goos name []),
      ini_Sections = GetSectionList,
      ini_Keys = GetKeyList,
      ini_Value = (\<lambda>c section key. case GetValue depth c section key of
         None \<Rightarrow> Inl (ExtError ''stack overflow'') | Some r \<Rightarrow> r)\<rparr>"

section \<open>Lines the reader understands\<close>

text \<open>
  Names and values that need no quoting: no line break inside, no blank at the edges, a key
  without the signs that end it and without a leading mark, a value without quotes.
\<close>

definition plain_text :: "string \<Rightarrow> bool" where
  "plain_text s \<longleftrightarrow> (s \<noteq> [] \<longrightarrow> plain_char (hd s) \<and> plain_char (last s)) \<and> CHR 10 \<notin> set s"

definition plain_section :: "string \<Rightarrow> bool" where
  "plain_section s \<longleftrightarrow> s \<noteq> [] \<and> plain_text s \<and> s \<noteq> DEFAULT_SECTION"

definition plain_key :: "string \<Rightarrow> bool" where
  "plain_key k \<longleftrightarrow> k \<noteq> [] \<and> plain_text k \<and> k \<noteq> ''-'' \<and> CHR ''='' \<notin> set k \<and> CHR '':'' \<notin> set k \<and>
     hd k \<notin> {CHR ''#'', CHR '';'', CHR ''['', CHR 34, CHR 96}"

definition plain_value :: "string \<Rightarrow> bool" where
  "plain_value v \<longleftrightarrow> plain_text v \<and> CHR 96 \<notin> set v \<and> (v \<noteq> [] \<longrightarrow> hd v \<noteq> CHR 34)"

lemma TrimSpace_plain_text: "plain_text s \<Longrightarrow> strings_TrimSpace s = s"
  by (simp add: plain_text_def strings_TrimSpace_plain)

lemma first_some_blank:
  "first_some (\<lambda>r. strip_prefix r (CHR '' '' # s)) space_runes = Some s"
  "first_some (\<lambda>r. strip_prefix r (CHR '' '' # s)) (map rev space_runes) = Some s"
proof -
  have "space_runes = map utf8_lit [[9], [10], [11], [12], [13]] @ utf8_lit [32] # drop 6 space_runes"
    by (simp add: space_runes_def)
  moreover have blank: "char_of (32 :: nat) = CHR '' ''" by code_simp
  ultimately obtain R where R: "space_runes = map utf8_lit [[9], [10], [11], [12], [13]] @ utf8_lit [32] # R" by blast
  show "first_some (\<lambda>r. strip_prefix r (CHR '' '' # s)) space_runes = Some s"
    "first_some (\<lambda>r. strip_prefix r (CHR '' '' # s)) (map rev space_runes) = Some s"
    unfolding R using blank by (simp_all add: utf8_lit_def)
qed

lemma trim_front_blank:
  "trim_front (Suc n) space_runes (CHR '' '' # s) = trim_front n space_runes s"
  "trim_front (Suc n) (map rev space_runes) (CHR '' '' # s) = trim_front n (map rev space_runes) s"
  by (simp_all add: first_some_blank)

lemma TrimSpace_left_blank:
  assumes "plain_text s"
  shows "strings_TrimSpace (CHR '' '' # s) = s"
proof -
  have "trim_front (length s) space_runes s = s"
    "trim_front (length s) (map rev space_runes) (rev s) = rev s"
    using assms trim_front_plain [OF space_runes_edges(1), of s] trim_front_plain [OF space_runes_edges(2), of "rev s"]
    by (simp_all add: plain_text_def hd_rev del: trim_front.simps)
  then show ?thesis by (simp add: strings_TrimSpace_def trim_front_blank Let_def del: trim_front.simps)
qed

lemma TrimSpace_right_blank:
  assumes "s \<noteq> []" and "plain_char (hd s)" and "plain_char (last s)"
  shows "strings_TrimSpace (s @ '' '') = s"
proof -
  have "trim_front (Suc (length s)) space_runes (s @ '' '') = s @ '' ''"
    "trim_front (length s) (map rev space_runes) (rev s) = rev s"
    using assms trim_front_plain [OF space_runes_edges(1), of "s @ '' ''"]
      trim_front_plain [OF space_runes_edges(2), of "rev s"]
    by (simp_all add: hd_rev del: trim_front.simps)
  then show ?thesis by (simp add: strings_TrimSpace_def trim_front_blank Let_def del: trim_front.simps)
qed

lemma strings_IndexAny_append:
  "set xs \<inter> set cs = {} \<Longrightarrow> c \<in> set cs \<Longrightarrow> strings_IndexAny (xs @ c # ys) cs = Some (length xs)"
  by (induction xs) auto

lemma read_line_section:
  assumes "plain_section s" and "rd_comments st = []"
  shows "read_line goos (''['' @ s @ '']'') st =
    Inr \<lparr>rd_file = snd (SetValue s '' '' '' '' (rd_file st)), rd_section = s, rd_comments = [], rd_count = 1\<rparr>"
  using assms by (simp add: read_line_def plain_section_def TrimSpace_plain_text Let_def)

lemma read_value_plain: "plain_value v \<Longrightarrow> read_value v = Some v"
  by (cases v)
    (auto simp: read_value_def plain_value_def TrimSpace_plain_text quote3_def backquote_def Let_def)

text \<open>The trimmed line, for an empty value and for another one.\<close>

lemma TrimSpace_entry:
  assumes "plain_key k" and "plain_value v"
  shows "strings_TrimSpace (k @ '' = '' @ v) = k @ '' ='' @ (if v = [] then [] else CHR '' '' # v)"
proof (cases "v = []")
  case True
  have "strings_TrimSpace ((k @ '' ='') @ '' '') = k @ '' =''"
    using assms(1) by (intro TrimSpace_right_blank) (auto simp: plain_key_def plain_text_def plain_char_def)
  with True show ?thesis by simp
next
  case False
  then have "strings_TrimSpace (k @ '' = '' @ v) = k @ '' = '' @ v"
    using assms by (intro strings_TrimSpace_plain) (auto simp: plain_key_def plain_value_def plain_text_def)
  with False show ?thesis by simp
qed

lemma read_key_entry:
  assumes "plain_key k"
  shows "read_key (k @ '' ='' @ rest) = Some (k, length k + 1)"
proof -
  have "strings_IndexAny ((k @ '' '') @ CHR ''='' # rest) ''=:'' = Some (length (k @ '' ''))"
    using assms by (intro strings_IndexAny_append) (auto simp: plain_key_def)
  moreover have "strings_TrimSpace (k @ '' '') = k"
    using assms by (intro TrimSpace_right_blank) (auto simp: plain_key_def plain_text_def)
  ultimately show ?thesis
    using assms by (cases k) (auto simp: read_key_def plain_key_def quote1_def backquote_def Let_def)
qed

lemma read_line_entry:
  assumes "plain_key k" and "plain_value v" and "rd_comments st = []" and "rd_section st \<noteq> []"
  shows "read_line goos (strings_TrimSpace (k @ '' = '' @ v)) st =
    Inr (st\<lparr>rd_file := snd (SetValue (rd_section st) k v (rd_file st))\<rparr>)"
proof -
  let ?r = "if v = [] then [] else CHR '' '' # v"
  have "strings_TrimSpace ?r = v"
    using assms(2) TrimSpace_left_blank [of v] TrimSpace_plain_text [of "[]"]
    by (auto simp: plain_value_def plain_text_def)
  then have "read_value (strings_TrimSpace (drop (length k + 1 + 1) (k @ '' ='' @ ?r))) = Some v"
    using read_value_plain [OF assms(2)] by simp
  moreover have "hd (k @ '' ='' @ ?r) = hd k" "length (k @ '' ='' @ ?r) \<noteq> 0"
    using assms(1) by (simp_all add: plain_key_def)
  ultimately show ?thesis
    unfolding TrimSpace_entry [OF assms(1,2)]
    using assms(1,3,4) read_key_entry [OF assms(1), of ?r]
    by (simp add: read_line_def plain_key_def Let_def)
qed

section \<open>A file from its sections\<close>

text \<open>The configuration that holds the given sections, built with \<open>SetValue\<close> as the reader does.\<close>

definition set_section :: "string \<Rightarrow> (string \<times> string) list \<Rightarrow> ConfigFile \<Rightarrow> ConfigFile" where
  "set_section s kvs c = fold (\<lambda>(k, v) c. snd (SetValue s k v c)) kvs (snd (SetValue s '' '' '' '' c))"

definition of_ini :: "string list \<Rightarrow> ini \<Rightarrow> ConfigFile" where
  "of_ini names f = fold (\<lambda>(s, kvs). set_section s kvs) f (newConfigFile names)"

definition plain_ini :: "ini \<Rightarrow> bool" where
  "plain_ini f \<longleftrightarrow> distinct (map fst f) \<and>
     list_all (\<lambda>(s, kvs). plain_section s \<and> distinct (map fst kvs) \<and>
       list_all (\<lambda>(k, v). plain_key k \<and> plain_value v) kvs) f"

lemma blank_not_plain: "plain_key k \<Longrightarrow> k \<noteq> '' ''"
  by (auto simp: plain_key_def plain_text_def plain_char_def)

lemma section_name_plain [simp]: "plain_section s \<Longrightarrow> section_name s = s"
  by (simp add: section_name_def plain_section_def)

text \<open>One section after the other only adds to the representation.\<close>

lemma set_section_new:
  assumes "plain_section s" and "data c s = None" and "keyList c s = None"
    and "distinct (map fst kvs)" and "list_all (\<lambda>(k, v). plain_key k) kvs"
  shows "set_section s kvs c =
    c\<lparr>data := (data c)(s \<mapsto> map_of (('' '', '' '') # kvs)), sectionList := sectionList c @ [s],
      keyList := (keyList c)(s \<mapsto> '' '' # map fst kvs)\<rparr>"
  using assms(4,5)
proof (induction kvs rule: rev_induct)
  case Nil
  show ?case
    using assms(1-3)
    by (intro ConfigFile.equality)
      (simp_all add: set_section_def SetValue_def lookup_key_def key_list_def Let_def fun_eq_iff)
next
  case (snoc kv kvs)
  obtain k v where kv: "kv = (k, v)" by force
  have k: "plain_key k" "k \<notin> fst ` set kvs" "k \<noteq> '' ''" "k \<noteq> []"
    using snoc.prems kv blank_not_plain by (auto simp: plain_key_def)
  have new: "map_of (('' '', '' '') # kvs) k = None" using k by (simp add: map_of_eq_None_iff)
  have upd: "(map_of (('' '', '' '') # kvs))(k \<mapsto> v) = map_of (('' '', '' '') # kvs @ [(k, v)])"
    using new by (auto simp: fun_eq_iff map_add_def split: option.splits)
  have IH: "set_section s kvs c =
    c\<lparr>data := (data c)(s \<mapsto> map_of (('' '', '' '') # kvs)), sectionList := sectionList c @ [s],
      keyList := (keyList c)(s \<mapsto> '' '' # map fst kvs)\<rparr>"
    by (rule snoc.IH) (use snoc.prems in auto)
  have "set_section s (kvs @ [kv]) c = snd (SetValue s k v (set_section s kvs c))"
    by (simp add: set_section_def kv)
  then show ?case
    unfolding IH using assms(1) k(4) new upd
    by (intro ConfigFile.equality) (simp_all add: SetValue_def lookup_key_def key_list_def kv Let_def fun_eq_iff)
qed

definition ini_file :: "string list \<Rightarrow> ini \<Rightarrow> ConfigFile" where
  "ini_file names f =
     \<lparr>fileNames = names, data = map_of (map (\<lambda>(s, kvs). (s, map_of (('' '', '' '') # kvs))) f),
      sectionList = map fst f, keyList = map_of (map (\<lambda>(s, kvs). (s, '' '' # map fst kvs)) f),
      sectionComments = Map.empty, keyComments = Map.empty\<rparr>"

lemma map_of_snoc_new: "k \<notin> fst ` set xs \<Longrightarrow> map_of (xs @ [(k, v)]) = (map_of xs)(k \<mapsto> v)"
  by (induction xs) (auto simp: fun_eq_iff)

lemma of_ini_eq: "plain_ini f \<Longrightarrow> of_ini names f = ini_file names f"
proof (induction f rule: rev_induct)
  case Nil
  show ?case by (simp add: of_ini_def ini_file_def newConfigFile_def)
next
  case (snoc x f)
  obtain s kvs where x: "x = (s, kvs)" by force
  have p: "plain_ini f" "s \<notin> fst ` set f" "plain_section s" "distinct (map fst kvs)"
    "list_all (\<lambda>(k, v). plain_key k) kvs"
    using snoc.prems x by (auto simp: plain_ini_def list_all_iff)
  then have n: "s \<notin> fst ` set (map (\<lambda>(s, kvs). (s, g kvs)) f)" for g :: "(string \<times> string) list \<Rightarrow> 'b"
    by (force simp: image_iff)
  have "of_ini names (f @ [x]) = set_section s kvs (ini_file names f)"
    using snoc.IH [OF p(1)] x by (simp add: of_ini_def)
  also have "\<dots> = ini_file names (f @ [x])"
    using p n [of "\<lambda>kvs. map_of (('' '', '' '') # kvs)"] n [of "\<lambda>kvs. '' '' # map fst kvs"]
    by (subst set_section_new)
      (auto simp: ini_file_def x map_of_snoc_new map_of_eq_None_iff simp del: map_of_append)
  finally show ?case .
qed

section \<open>Writing and reading\<close>

definition entry_line :: "string \<times> string \<Rightarrow> string" where
  "entry_line = (\<lambda>(k, v). k @ '' = '' @ v)"

definition header_line :: "string \<Rightarrow> string" where
  "header_line s = ''['' @ s @ '']''"

definition section_lines :: "string \<times> (string \<times> string) list \<Rightarrow> string list" where
  "section_lines = (\<lambda>(s, kvs). header_line s # map entry_line kvs @ [[]])"

definition end_lines :: "string list \<Rightarrow> string" where
  "end_lines ls = concat (map (\<lambda>l. l @ [CHR 10]) ls)"

lemma end_lines_simps [simp]:
  "end_lines [] = []" "end_lines (l # ls) = l @ CHR 10 # end_lines ls"
  "end_lines (ls @ ls') = end_lines ls @ end_lines ls'"
  by (simp_all add: end_lines_def)

lemma Split_end_lines:
  "list_all (\<lambda>l. CHR 10 \<notin> set l) ls \<Longrightarrow> strings_Split (end_lines ls) (CHR 10) = ls @ [[]]"
  by (induction ls) (simp_all add: strings_Split_append)

lemma plain_entry_written:
  assumes "plain_key k" and "plain_value v"
  shows "write_key k = k" and "write_value v = v"
  using assms
  by (cases k; auto simp: write_key_def write_value_def plain_key_def plain_value_def Let_def)+

lemma map_of_map_snd: "map_of (map (\<lambda>(s, x). (s, g x)) f) s = map_option g (map_of f s)"
  by (induction f) auto

lemma write_entries:
  assumes "list_all (\<lambda>(k, v). plain_key k \<and> plain_value v) kvs" and "distinct (map fst kvs)"
    and "\<And>k v. (k, v) \<in> set kvs \<Longrightarrow> lookup_key c s k = Some v" and "keyComments c = Map.empty"
    and "goos \<noteq> ''windows''"
  shows "concat (map (write_entry goos c s) (map fst kvs)) = end_lines (map entry_line kvs)"
  using assms(1-3)
proof (induction kvs)
  case (Cons kv kvs)
  obtain k v where kv: "kv = (k, v)" by force
  have p: "plain_key k" "plain_value v" "lookup_key c s k = Some v" using Cons.prems kv by auto
  have "write_entry goos c s k = k @ '' = '' @ v @ [CHR 10]"
    using p blank_not_plain [OF p(1)] plain_entry_written [OF p(1,2)] assms(4,5)
    by (simp add: write_entry_def GetKeyComments_def LineBreak_def)
  with Cons kv show ?case by (simp add: entry_line_def)
qed simp

lemma write_section_lines:
  assumes "plain_ini f" and "(s, kvs) \<in> set f" and "goos \<noteq> ''windows''"
  shows "write_section goos (ini_file names f) s = end_lines (section_lines (s, kvs))"
proof -
  have p: "plain_section s" "list_all (\<lambda>(k, v). plain_key k \<and> plain_value v) kvs" "distinct (map fst kvs)"
    and d: "map_of f s = Some kvs"
    using assms(1,2) by (auto simp: plain_ini_def list_all_iff)
  let ?c = "ini_file names f"
  have ks: "key_list ?c s = '' '' # map fst kvs" and dat: "data ?c s = Some (map_of (('' '', '' '') # kvs))"
    using d by (simp_all add: key_list_def ini_file_def map_of_map_snd)
  have "lookup_key ?c s k = Some v" if "(k, v) \<in> set kvs" for k v
    using that p(2,3) blank_not_plain by (auto simp: lookup_key_def dat list_all_iff)
  then have "concat (map (write_entry goos ?c s) (map fst kvs)) = end_lines (map entry_line kvs)"
    using p(2,3) assms(3) by (intro write_entries) (auto simp: ini_file_def)
  moreover have "write_entry goos ?c s '' '' = []" by (simp add: write_entry_def)
  moreover have "GetSectionComments ?c s = []" "s \<noteq> DEFAULT_SECTION"
    using p(1) by (simp_all add: GetSectionComments_def ini_file_def plain_section_def)
  ultimately show ?thesis
    using assms(3) by (simp add: write_section_def section_lines_def header_line_def ks LineBreak_def del: map_map)
qed

lemma SaveConfigData_lines:
  assumes "plain_ini f" and "goos \<noteq> ''windows''"
  shows "SaveConfigData goos (ini_file names f) = end_lines (concat (map section_lines f))"
proof -
  have "concat (map (write_section goos (ini_file names f)) (map fst g)) = end_lines (concat (map section_lines g))"
    if "set g \<subseteq> set f" for g
    using that assms by (induction g) (auto simp: write_section_lines)
  from this [of f] show ?thesis by (simp add: SaveConfigData_def ini_file_def)
qed

lemma section_lines_no_break:
  assumes "plain_ini f"
  shows "list_all (\<lambda>l. CHR 10 \<notin> set l) (concat (map section_lines f))"
  using assms
  by (fastforce simp: plain_ini_def list_all_iff section_lines_def entry_line_def header_line_def plain_section_def
      plain_key_def plain_value_def plain_text_def)

text \<open>What the reader does with the lines of one section.\<close>

lemma read_line_entry_line:
  assumes "plain_key k" and "plain_value v" and "s \<noteq> []"
  shows "read_line goos (strings_TrimSpace (entry_line (k, v)))
      \<lparr>rd_file = c, rd_section = s, rd_comments = [], rd_count = n\<rparr> =
    Inr \<lparr>rd_file = snd (SetValue s k v c), rd_section = s, rd_comments = [], rd_count = n\<rparr>"
  unfolding entry_line_def prod.case by (subst read_line_entry [OF assms(1,2)]) (simp_all add: assms(3))

lemma read_header_line:
  assumes "plain_section s" and "rd_comments st = []"
  shows "read_line goos (strings_TrimSpace (header_line s)) st =
    Inr \<lparr>rd_file = snd (SetValue s '' '' '' '' (rd_file st)), rd_section = s, rd_comments = [], rd_count = 1\<rparr>"
proof -
  have "strings_TrimSpace (header_line s) = header_line s"
    by (rule strings_TrimSpace_plain) (simp add: plain_char_def header_line_def)
  with read_line_section [OF assms] show ?thesis by (simp only: header_line_def)
qed

lemma read_entries:
  assumes "list_all (\<lambda>(k, v). plain_key k \<and> plain_value v) kvs" and "s \<noteq> []"
  shows "read_lines goos (map entry_line kvs @ ls) \<lparr>rd_file = c, rd_section = s, rd_comments = [], rd_count = n\<rparr> =
    read_lines goos ls \<lparr>rd_file = fold (\<lambda>(k, v) c. snd (SetValue s k v c)) kvs c, rd_section = s,
      rd_comments = [], rd_count = n\<rparr>"
  using assms by (induction kvs arbitrary: c) (auto simp: read_line_entry_line)

lemma read_section:
  assumes "plain_section s" and "list_all (\<lambda>(k, v). plain_key k \<and> plain_value v) kvs" and "rd_comments st = []"
  shows "\<exists>st'. read_lines goos (section_lines (s, kvs) @ ls) st = read_lines goos ls st' \<and>
    rd_file st' = set_section s kvs (rd_file st) \<and> rd_comments st' = []"
proof -
  have "read_line goos (strings_TrimSpace []) st = Inr st" for st
    using TrimSpace_plain_text [of "[]"] by (simp add: plain_text_def read_line_def)
  then show ?thesis
    using assms(1) read_entries [OF assms(2), of s]
    by (simp add: section_lines_def read_header_line [OF assms(1,3)] set_section_def plain_section_def)
      (rule exI, intro conjI, rule refl, simp_all)
qed

lemma read_sections:
  assumes "plain_ini f" and "rd_comments st = []"
  shows "\<exists>st'. read_lines goos (concat (map section_lines f) @ ls) st = read_lines goos ls st' \<and>
    rd_file st' = fold (\<lambda>(s, kvs). set_section s kvs) f (rd_file st) \<and> rd_comments st' = []"
  using assms
proof (induction f arbitrary: st)
  case (Cons x f)
  obtain s kvs where x: "x = (s, kvs)" by force
  have p: "plain_ini f" "plain_section s" "list_all (\<lambda>(k, v). plain_key k \<and> plain_value v) kvs"
    using Cons.prems x by (auto simp: plain_ini_def)
  obtain st1 where 1: "read_lines goos (section_lines (s, kvs) @ concat (map section_lines f) @ ls) st =
      read_lines goos (concat (map section_lines f) @ ls) st1"
    "rd_file st1 = set_section s kvs (rd_file st)" "rd_comments st1 = []"
    using read_section [OF p(2,3) Cons.prems(2)] by blast
  from Cons.IH [OF p(1) 1(3)] 1 x show ?case by auto
qed auto

text \<open>What was written is read back as it was.\<close>

lemma read_SaveConfigData:
  assumes "plain_ini f" and "goos \<noteq> ''windows''"
  shows "read goos (SaveConfigData goos (of_ini names f)) (newConfigFile names') = Inr (of_ini names' f)"
proof -
  let ?ls = "concat (map section_lines f)"
  have txt0: "SaveConfigData goos (of_ini names f) = end_lines ?ls"
    using SaveConfigData_lines [OF assms] of_ini_eq [OF assms(1)] by simp
  have "CHR ''['' \<noteq> char_of (239 :: nat)" by code_simp
  then have "take 3 (end_lines ?ls) \<noteq> utf8_lit [239, 187, 191]"
    by (cases f) (auto simp: section_lines_def header_line_def utf8_lit_def split: prod.splits)
  then have "skip_BOM (end_lines ?ls) = end_lines ?ls" by (simp add: skip_BOM_def)
  moreover obtain st' where "read_lines goos (?ls @ [[]])
      \<lparr>rd_file = newConfigFile names', rd_section = DEFAULT_SECTION, rd_comments = [], rd_count = 1\<rparr> = read_lines goos [[]] st'"
    "rd_file st' = of_ini names' f"
    using read_sections [OF assms(1), of "\<lparr>rd_file = newConfigFile names', rd_section = DEFAULT_SECTION,
        rd_comments = [], rd_count = 1\<rparr>" goos "[[]]"] by (auto simp: of_ini_def)
  moreover have "read_lines goos [[]] st = Inr st" for st
    using TrimSpace_plain_text [of "[]"] by (simp add: plain_text_def read_line_def)
  ultimately show ?thesis
    by (simp add: read_def txt0 Split_end_lines [OF section_lines_no_break [OF assms(1)]])
qed

section \<open>Looking up what was read\<close>

lemma find_var_none: "CHR ''%'' \<notin> set v \<Longrightarrow> find_var v = []"
  by (induction v) (auto simp: var_at_def)

lemma GetValue_plain:
  assumes "plain_ini f" and "(s, kvs) \<in> set f" and "(k, v) \<in> set kvs" and "CHR ''%'' \<notin> set v"
  shows "GetValue (Suc n) (of_ini names f) s k = Some (Inr v)"
proof -
  have p: "plain_section s" "plain_key k" "distinct (map fst kvs)" "map_of f s = Some kvs"
    using assms(1-3) by (auto simp: plain_ini_def list_all_iff)
  then have "data (of_ini names f) s = Some (map_of (('' '', '' '') # kvs))"
    using of_ini_eq [OF assms(1)] by (simp add: ini_file_def map_of_map_snd)
  moreover have "map_of (('' '', '' '') # kvs) k = Some v"
    using p assms(3) blank_not_plain by auto
  moreover have "expand look own DEPTH_VALUES v = Some v" for look own
    by (simp add: DEPTH_VALUES_def find_var_none [OF assms(4)] eval_nat_numeral)
  ultimately show ?thesis using p(1) by (simp del: expand.simps)
qed

lemma GetKeyList_plain:
  assumes "plain_ini f" and "(s, kvs) \<in> set f"
  shows "GetKeyList (of_ini names f) s = map fst kvs"
proof -
  have p: "plain_section s" "map_of f s = Some kvs" "\<forall>k \<in> fst ` set kvs. plain_key k"
    using assms by (fastforce simp: plain_ini_def list_all_iff)+
  have "filter (\<lambda>key. key \<noteq> '' '') (map fst kvs) = map fst kvs"
    using p(3) blank_not_plain by (auto simp: filter_id_conv)
  then show ?thesis
    using p(1,2) of_ini_eq [OF assms(1)]
    by (simp add: GetKeyList_def key_list_def ini_file_def map_of_map_snd)
qed

lemma CfgInit_plain:
  assumes "plain_ini f" and "fs fn = Inr (SaveConfigData goos (of_ini [fn] f))" and "goos \<noteq> ''windows''"
    and "list_all (\<lambda>(s, kvs). list_all (\<lambda>(k, v). CHR ''%'' \<notin> set v) kvs) f"
  shows "ini_Load (goconfig_on fs goos (Suc n)) fn = Inr (of_ini [fn] f)"
    and "cfg_readable (goconfig_on fs goos (Suc n)) (of_ini [fn] f)"
proof -
  show "ini_Load (goconfig_on fs goos (Suc n)) fn = Inr (of_ini [fn] f)"
    using assms(2) read_SaveConfigData [OF assms(1,3)]
    by (simp add: goconfig_on_def LoadConfigFile_def loadFile_def)
  have "\<not> isl (ini_Value (goconfig_on fs goos (Suc n)) (of_ini [fn] f) s k)"
    if "(s, kvs) \<in> set f" "(k, v) \<in> set kvs" for s kvs k v
    using GetValue_plain [OF assms(1) that] assms(4) that by (fastforce simp: list_all_iff goconfig_on_def simp del: GetValue.simps)
  then show "cfg_readable (goconfig_on fs goos (Suc n)) (of_ini [fn] f)"
    using GetKeyList_plain [OF assms(1)] of_ini_eq [OF assms(1)]
    by (fastforce simp: cfg_readable_def list_all_iff goconfig_on_def GetSectionList_def ini_file_def
        simp del: GetValue.simps)
qed

lemma concat_keys_disjoint:
  assumes "distinct (concat (map (\<lambda>(s, kvs). map fst kvs) f))" and "(s, kvs) \<in> set f"
    and "k \<in> set (map fst kvs)" and "(t, kvs') \<in> set f" and "k \<in> set (map fst kvs')"
  shows "t = s"
  using assms
proof (induction f)
  case (Cons x f)
  have *: "k' \<in> set (concat (map (\<lambda>(s, kvs). map fst kvs) f))"
    if "(s', ks') \<in> set f" "k' \<in> set (map fst ks')" for s' k' ks'
    using that by auto
  have D: "k \<notin> set (map fst ks')" if "(s', ks') \<in> set f" "x = (s'', ks'')" "k \<in> set (map fst ks'')" for s' s'' ks' ks''
  proof -
    have "set (map fst ks'') \<inter> set (concat (map (\<lambda>(s, kvs). map fst kvs) f)) = {}"
      using Cons.prems(1) that(2) by (simp only: list.map concat.simps prod.case distinct_append)
    with * [OF that(1)] that(3) show ?thesis by blast
  qed
  have "distinct (concat (map (\<lambda>(s, kvs). map fst kvs) f))"
    using Cons.prems(1) by (simp split: prod.splits)
  note IH = Cons.IH [OF this]
  from Cons.prems(2,4) have "x = (s, kvs) \<or> (s, kvs) \<in> set f" "x = (t, kvs') \<or> (t, kvs') \<in> set f" by auto
  with D [of _ _ s kvs] D [of _ _ t kvs'] IH Cons.prems(3,5) show ?case by (metis prod.inject)
qed simp

section \<open>Properties\<close>


definition shipped_ini :: ini where
  "shipped_ini =
     [(''mysql'', [(''USER_NAME'', ''root''), (''ADDR_PORT'', ''192.168.159.133:3306'')]),
      (''tcp'', [(''bind'', ''172.20.100.191:8081''), (''readtimeout'', ''20''), (''heartbeattimeout'', ''60'')])]"

lemma shipped_ini_plain: "plain_ini shipped_ini"
  by code_simp


text \<open>
  C35. From the file to the answers: when the server loads a configuration file whose names and
  values are plain, without variables, and whose key names are all different, every lookup of a
  key in its section is answered with the value written there.
\<close>

theorem CfgInit_file:
  assumes "plain_ini f" and "goos \<noteq> ''windows''" and "fs fn = Inr (SaveConfigData goos (of_ini [fn] f))"
    and "list_all (\<lambda>(s, kvs). list_all (\<lambda>(k, v). CHR ''%'' \<notin> set v) kvs) f"
    and "distinct (concat (map (\<lambda>(s, kvs). map fst kvs) f))"
    and "(s, kvs) \<in> set f" and "(k, v) \<in> set kvs"
  shows "\<exists>c. CfgInit (goconfig_on fs goos (Suc n)) fn = Returns c \<and> GetStr c s k = v"
proof -
  let ?gc = "goconfig_on fs goos (Suc n)" and ?c = "of_ini [fn] f"
  have nv: "CHR ''%'' \<notin> set v'" if "(s', kvs') \<in> set f" "(k', v') \<in> set kvs'" for s' kvs' k' v'
    using assms(4) that by (fastforce simp: list_all_iff)
  note load = CfgInit_plain [where n = n and fs = fs and fn = fn and goos = goos, OF assms(1,3,2,4)]
  obtain c where c: "CfgInit ?gc fn = Returns c" using CfgInit_eq [OF load(1)] load(2) by auto
  have secs: "ini_Sections ?gc ?c = map fst f" and keys: "\<And>s kvs. (s, kvs) \<in> set f \<Longrightarrow> ini_Keys ?gc ?c s = map fst kvs"
    using GetKeyList_plain [OF assms(1)] of_ini_eq [OF assms(1)]
    by (simp_all add: goconfig_on_def GetSectionList_def ini_file_def)
  have "t = s" if "t \<in> set (ini_Sections ?gc ?c)" "k \<in> set (ini_Keys ?gc ?c t)" for t
  proof -
    have "t \<in> set (map fst f)" using that(1) secs by simp
    then obtain kvs' where t: "(t, kvs') \<in> set f" by auto
    then have k': "(t, kvs') \<in> set f" "k \<in> set (map fst kvs')" using that(2) keys [OF t] by simp_all
    have "distinct (map fst f)" using assms(1) by (simp add: plain_ini_def)
    moreover have "k \<in> set (map fst kvs)" using assms(7) by force
    ultimately show ?thesis using concat_keys_disjoint [OF assms(5) assms(6) _ k'] by blast
  qed
  moreover have "s \<in> set (ini_Sections ?gc ?c)" unfolding secs using assms(6) by force
  moreover have "k \<in> set (ini_Keys ?gc ?c s)" unfolding keys [OF assms(6)] using assms(7) by force
  ultimately have "ini_Value ?gc ?c s k = Inr (GetStr c s k)"
    by (intro CfgInit_GetStr_unique [OF load(1) c]) blast+
  moreover have "ini_Value ?gc ?c s k = Inr v"
    using GetValue_plain [OF assms(1,6,7) nv [OF assms(6,7)]] by (simp add: goconfig_on_def del: GetValue.simps)
  ultimately show ?thesis using c by simp
qed

theorem CfgInit_file_witness:
  "\<exists>c. CfgInit (goconfig_on (\<lambda>_. Inr (SaveConfigData ''linux'' (of_ini [''conf/default.ini''] shipped_ini)))
         ''linux'' 1) ''conf/default.ini'' = Returns c \<and> GetStr c ''tcp'' ''heartbeattimeout'' = ''60''"
proof -
  have "list_all (\<lambda>(s, kvs). list_all (\<lambda>(k, v). CHR ''%'' \<notin> set v) kvs) shipped_ini"
    and "distinct (concat (map (\<lambda>(s, kvs). map fst kvs) shipped_ini))" by code_simp+
  then show ?thesis
    using CfgInit_file [OF shipped_ini_plain, where n = 0 and s = "''tcp''" and k = "''heartbeattimeout''"]
    by (fastforce simp: shipped_ini_def)
qed

text \<open>
  A variable that refers to itself is never resolved: no call depth is enough to look it up, so
  the server overflows its stack while it loads such a file (the limit of 200 rounds bounds the
  replacements in one value, not the depth of the lookups).
\<close>

lemma GetValue_self_reference:
  assumes "data c DEFAULT_SECTION = Some m" and "m a = Some (''%('' @ a @ '')s'')"
    and "a \<noteq> []" and "CHR '')'' \<notin> set a" and "hd a \<notin> {CHR ''%'', CHR ''(''}" and "last a \<noteq> CHR ''s''"
  shows "GetValue n c DEFAULT_SECTION a = None"
proof (induction n)
  case (Suc n)
  have "takeWhile (\<lambda>c. c \<noteq> CHR '')'') (a @ '')s'') = a"
    using assms(4) by (auto simp: takeWhile_append)
  then have v: "find_var (''%('' @ a @ '')s'') = ''%('' @ a @ '')s''"
    using assms(3) by (simp add: var_at_def Let_def)
  have "last a \<notin> {CHR '')'', CHR ''s''}" using assms(3,4,6) by (metis empty_iff insert_iff last_in_set)
  then have "strings_TrimRight (a @ '')s'') '')s'' = a"
    using assms(3) by (cases a rule: rev_cases) (simp_all add: strings_TrimRight_def)
  moreover have "strings_TrimLeft (''%('' @ a @ '')s'') ''%('' = a @ '')s''"
    using assms(3,5) by (cases a) (simp_all add: strings_TrimLeft_def)
  ultimately have "strings_TrimRight (strings_TrimLeft (''%('' @ a @ '')s'') ''%('') '')s'' = a" by simp
  with v Suc have "expand (GetValue n c DEFAULT_SECTION) own (Suc j) (''%('' @ a @ '')s'') = None" for own j
    by (simp del: find_var.simps)
  then have "expand (GetValue n c DEFAULT_SECTION) own DEPTH_VALUES (''%('' @ a @ '')s'') = None" for own
    unfolding DEPTH_VALUES_def by (metis Suc_pred zero_less_numeral)
  moreover have "section_name DEFAULT_SECTION = DEFAULT_SECTION" by (simp add: section_name_def)
  ultimately show ?case using assms(1,2) by (simp del: expand.simps)
qed simp

end
