(* ===== verification/Gin_Tree.thy ===== *)
theory Gin_Tree
  imports Go_Base
begin

text \<open>
  The routing tree of the HTTP framework
  (\<open>src/vender/src/github.com/gin-gonic/gin/tree.go\<close>): a radix tree over the bytes of the paths, with
  edges that are split when a path branches off and children ordered by priority.  Pointers to
  nodes become positions in the list of children.  A panic is \<open>Panics\<close>; the walk down the tree has
  fuel, and \<open>None\<close> is a walk that needs more.
\<close>

section \<open>Nodes\<close>

datatype nodeType = static_node | root_node | param_node | catchAll_node

record 'h node_info =
  path :: string
  indices :: string
  handlers :: "'h option"
  priority :: "32 word"
  nType :: nodeType
  maxParams :: "8 word"
  wildChild :: bool
  fullPath :: string

datatype 'h node = Node (info: "'h node_info") (children: "'h node list")

text \<open>The zero value of the struct.\<close>

definition new_node :: "'h node_info" where
  "new_node =
     \<lparr>path = [], indices = [], handlers = None, priority = 0, nType = static_node, maxParams = 0,
      wildChild = False, fullPath = []\<rparr>"

definition countParams :: "string \<Rightarrow> 8 word" where
  "countParams p =
     (let n = length (filter (\<lambda>c. c = CHR '':'' \<or> c = CHR ''*'') p)
      in if n \<ge> 255 then 255 else of_nat n)"

definition inc_priority :: "'h node \<Rightarrow> 'h node" where
  "inc_priority n = Node ((info n)\<lparr>priority := priority (info n) + 1\<rparr>) (children n)"

definition raise_maxParams :: "8 word \<Rightarrow> 'h node_info \<Rightarrow> 'h node_info" where
  "raise_maxParams k i = (if k > maxParams i then i\<lparr>maxParams := k\<rparr> else i)"

text \<open>The loop that moves a child to the front while its left neighbour has a lower priority.\<close>

fun move_front :: "32 word \<Rightarrow> nat \<Rightarrow> 'h node list \<Rightarrow> nat \<times> 'h node list" where
  "move_front prio 0 cs = (0, cs)"
| "move_front prio (Suc newPos) cs =
     (if priority (info (cs ! newPos)) < prio
      then move_front prio newPos (cs[newPos := cs ! Suc newPos, Suc newPos := cs ! newPos])
      else (Suc newPos, cs))"

definition incrementChildPrio :: "nat \<Rightarrow> 'h node_info \<Rightarrow> 'h node list \<Rightarrow> nat \<times> 'h node_info \<times> 'h node list" where
  "incrementChildPrio pos i cs0 =
     (let cs = cs0[pos := inc_priority (cs0 ! pos)];
          prio = priority (info (cs ! pos))
      in case move_front prio pos cs of
           (newPos, cs') \<Rightarrow>
             (newPos,
              if newPos \<noteq> pos then
                i\<lparr>indices := take newPos (indices i) @ [indices i ! pos]
                   @ take (pos - newPos) (drop newPos (indices i)) @ drop (Suc pos) (indices i)\<rparr>
              else i,
              cs'))"

section \<open>Inserting a path\<close>

text \<open>The end of a wildcard that starts before position \<open>k\<close>; \<open>None\<close> is a second wildcard in it.\<close>

fun wild_end :: "string \<Rightarrow> nat \<Rightarrow> nat option" where
  "wild_end [] k = Some k"
| "wild_end (c # s) k =
     (if c = CHR ''/'' then Some k
      else if c = CHR '':'' \<or> c = CHR ''*'' then None
      else wild_end s (Suc k))"

text \<open>\<open>insertChild\<close> at position \<open>i\<close> of the loop; \<open>n\<close> is the node the loop has arrived at.\<close>

function insert_loop ::
    "string \<Rightarrow> string \<Rightarrow> 'h \<Rightarrow> 'h node \<Rightarrow> nat \<Rightarrow> nat \<Rightarrow> 8 word \<Rightarrow> 'h node run" where
  "insert_loop p full h n offset i numParams =
     (if numParams = 0 then
        Returns (Node ((info n)\<lparr>path := drop offset p, handlers := Some h, fullPath := full\<rparr>) (children n))
      else if i \<ge> length p then Panics
      else if p ! i \<noteq> CHR '':'' \<and> p ! i \<noteq> CHR ''*'' then insert_loop p full h n offset (Suc i) numParams
      else
        case wild_end (drop (Suc i) p) (Suc i) of
          None \<Rightarrow> Panics
        | Some end' \<Rightarrow>
            if children n \<noteq> [] then Panics
            else if end' - i < 2 then Panics
            else if p ! i = CHR '':'' then
              let i1 = (if i > 0 then (info n)\<lparr>path := drop offset (take i p)\<rparr> else info n);
                  offset1 = (if i > 0 then i else offset);
                  child = new_node\<lparr>nType := param_node, maxParams := numParams, fullPath := full, priority := 1\<rparr>
              in if end' < length p then
                   (case insert_loop p full h
                           (Node (new_node\<lparr>maxParams := numParams - 1, priority := 1, fullPath := full\<rparr>) [])
                           end' (Suc i) (numParams - 1) of
                      Panics \<Rightarrow> Panics
                    | Returns c \<Rightarrow>
                        Returns (Node (i1\<lparr>wildChild := True\<rparr>)
                          [Node (child\<lparr>path := drop offset1 (take end' p)\<rparr>) [c]]))
                 else
                   (case insert_loop p full h (Node child []) offset1 (Suc i) (numParams - 1) of
                      Panics \<Rightarrow> Panics
                    | Returns c \<Rightarrow> Returns (Node (i1\<lparr>wildChild := True\<rparr>) [c]))
            else
              if end' \<noteq> length p \<or> numParams > 1 then Panics
              else if path (info n) \<noteq> [] \<and> last (path (info n)) = CHR ''/'' then Panics
              else if i = 0 then Panics
              else if p ! (i - 1) \<noteq> CHR ''/'' then Panics
              else
                Returns (Node ((info n)\<lparr>path := drop offset (take (i - 1) p), indices := [p ! (i - 1)]\<rparr>)
                  [Node (new_node\<lparr>wildChild := True, nType := catchAll_node, maxParams := 1, fullPath := full,
                          priority := 1\<rparr>)
                    [Node (new_node\<lparr>path := drop (i - 1) p, nType := catchAll_node, maxParams := 1,
                             handlers := Some h, priority := 1, fullPath := full\<rparr>) []]]))"
  by pat_completeness auto
termination by (relation "measure (\<lambda>(p, full, h, n, offset, i, numParams). length p - i)") auto

declare insert_loop.simps [simp del]

definition insertChild :: "8 word \<Rightarrow> string \<Rightarrow> string \<Rightarrow> 'h \<Rightarrow> 'h node \<Rightarrow> 'h node run" where
  "insertChild numParams p full h n = insert_loop p full h n 0 0 numParams"

text \<open>The length of the longest common prefix.\<close>

fun common_len :: "string \<Rightarrow> string \<Rightarrow> nat" where
  "common_len (a # as) (b # bs) = (if a = b then Suc (common_len as bs) else 0)"
| "common_len _ _ = 0"

text \<open>The largest \<open>maxParams\<close> of the children.\<close>

definition max_of_children :: "'h node list \<Rightarrow> 'h node_info \<Rightarrow> 'h node_info" where
  "max_of_children cs ch0 =
     fold (\<lambda>c ch. if maxParams (info c) > maxParams ch then ch\<lparr>maxParams := maxParams (info c)\<rparr> else ch) cs ch0"

text \<open>The edge of a node is split at \<open>i\<close>: what the node was becomes its only child.\<close>

definition split_edge :: "nat \<Rightarrow> string \<Rightarrow> string \<Rightarrow> nat \<Rightarrow> 'h node \<Rightarrow> 'h node" where
  "split_edge i p full parentFullPathIndex n =
     (let child = max_of_children (children n)
            (new_node\<lparr>path := drop i (path (info n)), wildChild := wildChild (info n), indices := indices (info n),
                      handlers := handlers (info n), priority := priority (info n) - 1,
                      fullPath := fullPath (info n)\<rparr>)
      in Node ((info n)\<lparr>indices := [path (info n) ! i], path := take i p, handlers := None, wildChild := False,
                        fullPath := take (parentFullPathIndex + i) full\<rparr>)
           [Node child (children n)])"

text \<open>The position of a child whose edge begins with \<open>c\<close>.\<close>

fun find_index :: "char \<Rightarrow> string \<Rightarrow> nat option" where
  "find_index c [] = None"
| "find_index c (d # ds) = (if c = d then Some 0 else map_option Suc (find_index c ds))"

definition put_child :: "'h node_info \<Rightarrow> 'h node list \<Rightarrow> nat \<Rightarrow> 'h node run option \<Rightarrow> 'h node run option" where
  "put_child i cs k r =
     map_option (\<lambda>r. case r of Panics \<Rightarrow> Panics | Returns c \<Rightarrow> Returns (Node i (cs[k := c]))) r"

text \<open>The loop of \<open>addRoute\<close>: one turn at the node the walk has arrived at.\<close>

fun walk ::
    "nat \<Rightarrow> string \<Rightarrow> 'h \<Rightarrow> string \<Rightarrow> 8 word \<Rightarrow> nat \<Rightarrow> 'h node \<Rightarrow> 'h node run option" where
  "walk 0 full h p numParams parentFullPathIndex n = None"
| "walk (Suc fuel) full h p numParams parentFullPathIndex n0 =
     (let n1 = Node (raise_maxParams numParams (info n0)) (children n0);
          i = common_len p (path (info n1));
          n = (if i < length (path (info n1)) then split_edge i p full parentFullPathIndex n1 else n1);
          nf = info n; cs = children n
      in if i < length p then
           let p' = drop i p; index' = parentFullPathIndex + length (path nf)
           in if wildChild nf then
                (case cs of
                   [] \<Rightarrow> Some Panics
                 | c0 # _ \<Rightarrow>
                     let c1 = Node (raise_maxParams numParams (info (inc_priority c0))) (children c0);
                         cp = path (info c1)
                     in if length p' \<ge> length cp \<and> cp = take (length cp) p' \<and>
                           (length cp \<ge> length p' \<or> p' ! length cp = CHR ''/'')
                        then put_child nf cs 0 (walk fuel full h p' (numParams - 1) index' c1)
                        else Some Panics)
              else if nType nf = param_node \<and> p' ! 0 = CHR ''/'' \<and> length cs = 1 then
                put_child nf cs 0 (walk fuel full h p' numParams index' (inc_priority (cs ! 0)))
              else
                (case find_index (p' ! 0) (indices nf) of
                   Some k \<Rightarrow>
                     if k \<ge> length cs then Some Panics
                     else (case incrementChildPrio k nf cs of
                             (k', nf', cs') \<Rightarrow>
                               put_child nf' cs' k' (walk fuel full h p' numParams index' (cs' ! k')))
                 | None \<Rightarrow>
                     if p' ! 0 \<noteq> CHR '':'' \<and> p' ! 0 \<noteq> CHR ''*'' then
                       let pos = length (indices nf)
                       in if pos > length cs then Some Panics
                          else (case incrementChildPrio pos (nf\<lparr>indices := indices nf @ [p' ! 0]\<rparr>)
                                  (cs @ [Node (new_node\<lparr>maxParams := numParams, fullPath := full\<rparr>) []]) of
                             (k', nf', cs') \<Rightarrow>
                               let q = (if pos = length cs then k' else length cs)
                               in put_child nf' cs' q (Some (insertChild numParams p' full h (cs' ! q))))
                     else Some (insertChild numParams p' full h n))
         else if handlers nf \<noteq> None then Some Panics
         else Some (Returns (Node (nf\<lparr>handlers := Some h\<rparr>) cs)))"

declare walk.simps(2) [simp del]

fun height :: "'h node \<Rightarrow> nat" where
  "height (Node i cs) = Suc (fold max (map height cs) 0)"

definition addRoute :: "string \<Rightarrow> 'h \<Rightarrow> 'h node \<Rightarrow> 'h node run option" where
  "addRoute p h n0 =
     (let n = inc_priority n0; numParams = countParams p
      in if length (path (info n)) > 0 \<or> length (children n) > 0
         then walk (height n + 2) p h p numParams 0 n
         else Some (case insertChild numParams p p h n of
                      Panics \<Rightarrow> Panics
                    | Returns n' \<Rightarrow> Returns (Node ((info n')\<lparr>nType := root_node\<rparr>) (children n'))))"

section \<open>Looking a path up\<close>

text \<open>
  The result of a lookup: the handlers found, the values of the wildcards (with the capacity of
  their slice), whether a redirect with or without a trailing slash is recommended, the route.
\<close>

record 'h nodeValue =
  v_handlers :: "'h option"
  v_params :: "(string \<times> string) list"
  v_cap :: nat
  v_tsr :: bool
  v_fullPath :: string

text \<open>A new slice when the capacity is too small, then one more element within the capacity.\<close>

definition save_param :: "bool \<Rightarrow> 8 word \<Rightarrow> string \<Rightarrow> string \<Rightarrow> 'h nodeValue \<Rightarrow> 'h nodeValue run" where
  "save_param unescape mx key val v =
     (let v1 = (if v_cap v < unat mx then v\<lparr>v_params := [], v_cap := unat mx\<rparr> else v);
          value' = (if unescape then case QueryUnescape val of None \<Rightarrow> val | Some u \<Rightarrow> u else val)
      in if length (v_params v1) + 1 \<le> v_cap v1
         then Returns (v1\<lparr>v_params := v_params v1 @ [(key, value')]\<rparr>) else Panics)"

definition not_found :: "'h node_info \<Rightarrow> string \<Rightarrow> 'h nodeValue \<Rightarrow> 'h nodeValue" where
  "not_found i p v =
     v\<lparr>v_tsr := p = ''/'' \<or>
         (length (path i) = length p + 1 \<and> path i ! length p = CHR ''/'' \<and>
          p = take (length (path i) - 1) (path i) \<and> handlers i \<noteq> None)\<rparr>"

definition found :: "'h node_info \<Rightarrow> 'h nodeValue \<Rightarrow> 'h nodeValue" where
  "found i v = v\<lparr>v_handlers := handlers i, v_fullPath := fullPath i\<rparr>"

lemma size_nth_child [termination_simp]: "k < length cs \<Longrightarrow> size (cs ! k) < Suc (size_list size cs)"
  using size_list_estimation' [OF nth_mem, of k cs "size (cs ! k)" size] by (simp add: less_Suc_eq_le)

fun getValue :: "bool \<Rightarrow> 'h node \<Rightarrow> string \<Rightarrow> 'h nodeValue \<Rightarrow> 'h nodeValue run" where
  "getValue unescape (Node i cs) p v =
     (if length p > length (path i) then
        if take (length (path i)) p = path i then
          let p' = drop (length (path i)) p
          in if \<not> wildChild i then
               (case find_index (p' ! 0) (indices i) of
                  Some k \<Rightarrow> if k < length cs then getValue unescape (cs ! k) p' v else Panics
                | None \<Rightarrow> Returns (v\<lparr>v_tsr := p' = ''/'' \<and> handlers i \<noteq> None\<rparr>))
             else
               (case cs of
                  [] \<Rightarrow> Panics
                | Node i0 cs0 # _ \<Rightarrow>
                    (case nType i0 of
                       param_node \<Rightarrow>
                         let end' = length (takeWhile (\<lambda>c. c \<noteq> CHR ''/'') p')
                         in if path i0 = [] then Panics
                            else (case save_param unescape (maxParams i0) (drop 1 (path i0)) (take end' p') v of
                              Panics \<Rightarrow> Panics
                            | Returns v1 \<Rightarrow>
                                if end' < length p' then
                                  (case cs0 of
                                     c1 # _ \<Rightarrow> getValue unescape c1 (drop end' p') v1
                                   | [] \<Rightarrow> Returns (v1\<lparr>v_tsr := length p' = end' + 1\<rparr>))
                                else if handlers i0 \<noteq> None then Returns (found i0 v1)
                                else (case cs0 of
                                        [c1] \<Rightarrow> Returns (v1\<lparr>v_handlers := None,
                                                   v_tsr := path (info c1) = ''/'' \<and> handlers (info c1) \<noteq> None\<rparr>)
                                      | _ \<Rightarrow> Returns (v1\<lparr>v_handlers := None\<rparr>)))
                     | catchAll_node \<Rightarrow>
                         if length (path i0) < 2 then Panics
                         else (case save_param unescape (maxParams i0) (drop 2 (path i0)) p' v of
                                 Panics \<Rightarrow> Panics
                               | Returns v1 \<Rightarrow> Returns (found i0 v1))
                     | _ \<Rightarrow> Panics))
        else Returns (not_found i p v)
      else if p = path i then
        if handlers i \<noteq> None then Returns (found i v)
        else if p = ''/'' \<and> wildChild i \<and> nType i \<noteq> root_node then Returns (v\<lparr>v_handlers := None, v_tsr := True\<rparr>)
        else (case find_index (CHR ''/'') (indices i) of
                None \<Rightarrow> Returns (v\<lparr>v_handlers := None\<rparr>)
              | Some k \<Rightarrow>
                  if k \<ge> length cs then Panics
                  else (case cs ! k of
                     Node i1 cs1 \<Rightarrow>
                       if length (path i1) = 1 \<and> handlers i1 \<noteq> None
                       then Returns (v\<lparr>v_handlers := None, v_tsr := True\<rparr>)
                       else if nType i1 = catchAll_node then
                         (case cs1 of
                            [] \<Rightarrow> Panics
                          | c2 # _ \<Rightarrow> Returns (v\<lparr>v_handlers := None, v_tsr := handlers (info c2) \<noteq> None\<rparr>))
                       else Returns (v\<lparr>v_handlers := None, v_tsr := False\<rparr>)))
      else Returns (not_found i p v))"

declare getValue.simps [simp del]

section \<open>The abstract table\<close>

text \<open>The routes a tree without wildcards stands for.\<close>

fun routes_of :: "'h node \<Rightarrow> (string \<times> 'h) set" where
  "routes_of (Node i cs) =
     (case handlers i of None \<Rightarrow> {} | Some h \<Rightarrow> {(path i, h)})
     \<union> (\<lambda>(p, h). (path i @ p, h)) ` (\<Union>c \<in> set cs. routes_of c)"

text \<open>A well-formed tree of static paths: the index bytes are the first bytes of the children's edges.\<close>

fun static_tree :: "'h node \<Rightarrow> bool" where
  "static_tree (Node i cs) \<longleftrightarrow>
     \<not> wildChild i \<and> nType i \<in> {static_node, root_node} \<and> distinct (indices i) \<and>
     list_all2 (\<lambda>d c. path (info c) \<noteq> [] \<and> hd (path (info c)) = d) (indices i) cs \<and>
     list_all static_tree cs"

lemma find_index_Some: "find_index c ds = Some k \<Longrightarrow> k < length ds \<and> ds ! k = c"
  by (induction ds arbitrary: k) (auto split: if_splits)

lemma find_index_None: "find_index c ds = None \<longleftrightarrow> c \<notin> set ds"
  by (induction ds) auto

lemma routes_of_prefix: "(p, h) \<in> routes_of n \<Longrightarrow> \<exists>r. p = path (info n) @ r"
  by (cases n) (auto split: option.splits)

text \<open>Below a well-formed node the first byte of a path decides for one child.\<close>

lemma child_routes_hd:
  assumes "static_tree (Node i cs)" and "k < length cs" and "(p, h) \<in> routes_of (cs ! k)"
  shows "p \<noteq> [] \<and> hd p = indices i ! k"
proof -
  have "path (info (cs ! k)) \<noteq> []" "hd (path (info (cs ! k))) = indices i ! k"
    using assms(1,2) by (auto simp: list_all2_conv_all_nth)
  with routes_of_prefix [OF assms(3)] show ?thesis by auto
qed

lemma child_routes_iff:
  assumes "static_tree (Node i cs)" and "p \<noteq> []"
  shows "(\<exists>c \<in> set cs. (p, h) \<in> routes_of c) \<longleftrightarrow>
    (case find_index (hd p) (indices i) of None \<Rightarrow> False | Some k \<Rightarrow> (p, h) \<in> routes_of (cs ! k))"
proof -
  have len: "length (indices i) = length cs" and d: "distinct (indices i)"
    using assms(1) by (auto simp: list_all2_lengthD)
  show ?thesis
  proof (cases "find_index (hd p) (indices i)")
    case None
    then have "hd p \<notin> set (indices i)" by (simp add: find_index_None)
    then have "\<not> (\<exists>c \<in> set cs. (p, h) \<in> routes_of c)"
      using child_routes_hd [OF assms(1)] len by (metis in_set_conv_nth)
    with None show ?thesis by simp
  next
    case (Some k)
    then have k: "k < length cs" "indices i ! k = hd p" using find_index_Some [OF Some] len by auto
    have "j = k" if "j < length cs" "(p, h) \<in> routes_of (cs ! j)" for j
      using child_routes_hd [OF assms(1) that] k d len that(1) by (simp add: nth_eq_iff_index_eq)
    then have "(\<exists>c \<in> set cs. (p, h) \<in> routes_of c) \<longleftrightarrow> (p, h) \<in> routes_of (cs ! k)"
      using k(1) by (metis in_set_conv_nth)
    with Some show ?thesis by simp
  qed
qed

lemma routes_of_iff:
  assumes "static_tree (Node i cs)"
  shows "(p, h) \<in> routes_of (Node i cs) \<longleftrightarrow>
    (if p = path i then handlers i = Some h
     else \<exists>r. p = path i @ r \<and> r \<noteq> [] \<and>
       (case find_index (hd r) (indices i) of None \<Rightarrow> False | Some k \<Rightarrow> (r, h) \<in> routes_of (cs ! k)))"
proof -
  have ne: "r \<noteq> []" if "c \<in> set cs" "(r, h) \<in> routes_of c" for c r
    using child_routes_hd [OF assms] that by (auto simp: in_set_conv_nth)
  have "(p, h) \<in> routes_of (Node i cs) \<longleftrightarrow>
      handlers i = Some h \<and> p = path i \<or> (\<exists>r. p = path i @ r \<and> (\<exists>c \<in> set cs. (r, h) \<in> routes_of c))"
    by (auto split: option.splits)
  also have "(\<exists>r. p = path i @ r \<and> (\<exists>c \<in> set cs. (r, h) \<in> routes_of c)) \<longleftrightarrow>
      (\<exists>r. p = path i @ r \<and> r \<noteq> [] \<and> (\<exists>c \<in> set cs. (r, h) \<in> routes_of c))"
    using ne by blast
  finally show ?thesis using child_routes_iff [OF assms, of _ h] by auto
qed

text \<open>A lookup in a tree of static paths never panics and finds exactly the routes.\<close>

lemma getValue_static:
  assumes "static_tree n" and "v_handlers v = None"
  shows "\<exists>v'. getValue unescape n p v = Returns v' \<and> (\<forall>h. v_handlers v' = Some h \<longleftrightarrow> (p, h) \<in> routes_of n) \<and>
    v_params v' = v_params v"
  using assms
proof (induction n arbitrary: p v)
  case (Node i cs)
  note st = Node.prems(1) and iff = routes_of_iff [OF Node.prems(1)]
  have len: "length (indices i) = length cs" and wc: "\<not> wildChild i" using st by (auto simp: list_all2_lengthD)
  consider (long) r where "p = path i @ r" "r \<noteq> []" | (same) "p = path i" | (other) "\<nexists>r. p = path i @ r" by blast
  then show ?case
  proof cases
    case long
    show ?thesis
    proof (cases "find_index (hd r) (indices i)")
      case None
      with long wc Node.prems(2) show ?thesis
        by (simp add: getValue.simps [of unescape i cs] iff hd_conv_nth Let_def del: routes_of.simps)
    next
      case (Some k)
      then have k: "k < length cs" using find_index_Some [OF Some] len by simp
      then have "static_tree (cs ! k)" using st by (simp add: list_all_iff)
      with Node.IH [OF nth_mem [OF k] this Node.prems(2), of r] Some k long wc show ?thesis
        by (simp add: getValue.simps [of unescape i cs] iff hd_conv_nth Let_def del: routes_of.simps)
    qed
  next
    case same
    have "nType i1 \<noteq> catchAll_node" if "k < length cs" "cs ! k = Node i1 cs1" for k i1 cs1
    proof -
      have "\<forall>c \<in> set cs. static_tree c" using st by (simp add: list_all_iff)
      then have "static_tree (Node i1 cs1)" using nth_mem [OF that(1)] that(2) by metis
      then show ?thesis by auto
    qed
    then show ?thesis
      using same Node.prems(2) wc len find_index_Some [of "CHR ''/''" "indices i"]
      by (auto simp: getValue.simps [of unescape i cs] iff found_def split: option.splits node.splits simp del: routes_of.simps)
        (metis linorder_not_le)+
  next
    case other
    then have "\<not> (p, h) \<in> routes_of (Node i cs)" for h by (auto simp: iff simp del: routes_of.simps)
    moreover have "p \<noteq> path i" "take (length (path i)) p \<noteq> path i"
      using other append_take_drop_id [of "length (path i)" p] by (auto, metis)
    ultimately show ?thesis
      using Node.prems(2) by (auto simp: getValue.simps [of unescape i cs] not_found_def simp del: routes_of.simps)
  qed
qed

section \<open>Adding a path\<close>

text \<open>One element brought to the front: what reordering by priority does to children and index bytes.\<close>

definition bring :: "nat \<Rightarrow> nat \<Rightarrow> 'a list \<Rightarrow> 'a list" where
  "bring j k xs = take j xs @ [xs ! k] @ take (k - j) (drop j xs) @ drop (Suc k) xs"

lemma bring_same [simp]: "k < length xs \<Longrightarrow> bring k k xs = xs"
  by (simp add: bring_def id_take_nth_drop [symmetric])

lemma length_bring [simp]: "j \<le> k \<Longrightarrow> k < length xs \<Longrightarrow> length (bring j k xs) = length xs"
  by (simp add: bring_def)

lemma bring_parts [simp]: "bring (length as) (length as + length bs) (as @ bs @ x # cs) = as @ x # bs @ cs"
  by (simp add: bring_def)

lemma bring_cases:
  assumes "j \<le> k" and "k < length xs"
  obtains as bs x cs where "xs = as @ bs @ x # cs" and "j = length as" and "k = length as + length bs"
proof -
  have "drop j xs = take (k - j) (drop j xs) @ drop k xs"
    using assms append_take_drop_id [of "k - j" "drop j xs"] by simp
  then have "xs = take j xs @ take (k - j) (drop j xs) @ xs ! k # drop (Suc k) xs"
    using assms append_take_drop_id [of j xs] by (metis Cons_nth_drop_Suc)
  then show ?thesis by (rule that) (use assms in auto)
qed

lemma set_bring [simp]: "j \<le> k \<Longrightarrow> k < length xs \<Longrightarrow> set (bring j k xs) = set xs"
  by (erule (1) bring_cases) auto

lemma distinct_bring [simp]: "j \<le> k \<Longrightarrow> k < length xs \<Longrightarrow> distinct (bring j k xs) = distinct xs"
  by (erule (1) bring_cases) auto

lemma nth_bring [simp]: "j \<le> k \<Longrightarrow> k < length xs \<Longrightarrow> bring j k xs ! j = xs ! k"
  by (erule (1) bring_cases) (auto simp: nth_append)

lemma bring_update: "j \<le> k \<Longrightarrow> k < length xs \<Longrightarrow> (bring j k xs)[j := x] = bring j k (xs[k := x])"
  by (erule (1) bring_cases) (auto simp: list_update_append)

lemma list_all2_bring:
  assumes "list_all2 P xs ys" and "j \<le> k" and "k < length xs"
  shows "list_all2 P (bring j k xs) (bring j k ys)"
  using assms unfolding bring_def
  by (intro list_all2_appendI) (auto simp: list_all2_nthD)

lemma bring_step:
  assumes "j \<le> k" and "Suc k < length xs"
  shows "bring j k (xs[k := xs ! Suc k, Suc k := xs ! k]) = bring j (Suc k) xs"
proof -
  have "k < length xs" using assms(2) by simp
  from bring_cases [OF assms(1) this] obtain as bs y cs where
    1: "xs = as @ bs @ y # cs" "j = length as" "k = length as + length bs" .
  moreover from this assms(2) obtain z ds where 2: "cs = z # ds" by (cases cs) auto
  moreover have "xs[k := xs ! Suc k, Suc k := xs ! k] = as @ bs @ z # y # ds"
    unfolding 1 2 by (simp add: list_update_append nth_append)
  ultimately show ?thesis using bring_parts [of as "bs @ [y]" z ds] by simp
qed

lemma move_front_bring:
  "k < length cs \<Longrightarrow> \<exists>j \<le> k. move_front prio k cs = (j, bring j k cs)"
proof (induction prio k cs rule: move_front.induct)
  case (2 prio k cs)
  show ?case
  proof (cases "priority (info (cs ! k)) < prio")
    case True
    with 2 obtain j where "j \<le> k" and
      "move_front prio k (cs[k := cs ! Suc k, Suc k := cs ! k]) = (j, bring j k (cs[k := cs ! Suc k, Suc k := cs ! k]))"
      by auto
    with True 2(2) show ?thesis by (auto simp: bring_step intro!: exI [of _ j])
  qed (use 2 in auto)
qed simp

lemma incrementChildPrio_bring:
  assumes "k < length cs" and "length (indices i) = length cs"
  obtains j where "j \<le> k" and
    "incrementChildPrio k i cs =
       (j, i\<lparr>indices := bring j k (indices i)\<rparr>, bring j k (cs[k := inc_priority (cs ! k)]))"
proof -
  let ?cs = "cs[k := inc_priority (cs ! k)]"
  obtain j where j: "j \<le> k" "move_front (priority (info (?cs ! k))) k ?cs = (j, bring j k ?cs)"
    using move_front_bring [of k ?cs] assms by fastforce
  then have "incrementChildPrio k i cs = (j, i\<lparr>indices := bring j k (indices i)\<rparr>, bring j k ?cs)"
    using assms by (cases "j = k") (simp_all add: incrementChildPrio_def Let_def bring_def [of j k "indices i"])
  with j that show ?thesis by blast
qed

text \<open>Well-formed trees stay well formed under the changes an insertion makes below a node.\<close>

lemma static_treeD:
  assumes "static_tree (Node i cs)"
  shows "length (indices i) = length cs"
    and "k < length cs \<Longrightarrow> static_tree (cs ! k)"
    and "k < length cs \<Longrightarrow> path (info (cs ! k)) \<noteq> [] \<and> hd (path (info (cs ! k))) = indices i ! k"
  using assms by (auto simp: list_all2_lengthD list_all_length dest: list_all2_nthD2)

lemma static_tree_reorder:
  assumes "static_tree (Node i cs)" and "j \<le> k" and "k < length cs"
  shows "static_tree (Node (i\<lparr>indices := bring j k (indices i)\<rparr>) (bring j k cs))"
    and "routes_of (Node (i\<lparr>indices := bring j k (indices i)\<rparr>) (bring j k cs)) = routes_of (Node i cs)"
  using assms static_treeD(1) [OF assms(1)] by (auto simp: list_all2_bring list_all_iff split: option.splits)

lemma static_tree_update:
  assumes "static_tree (Node i cs)" and "k < length cs" and "static_tree c" and "path (info c) \<noteq> []"
    and "hd (path (info c)) = indices i ! k"
  shows "static_tree (Node i (cs[k := c]))"
  using assms by (auto simp: list_all2_conv_all_nth nth_list_update list_all_length)

lemma static_tree_append:
  assumes "static_tree (Node i cs)" and "static_tree c" and "path (info c) \<noteq> []"
    and "hd (path (info c)) \<notin> set (indices i)"
  shows "static_tree (Node (i\<lparr>indices := indices i @ [hd (path (info c))]\<rparr>) (cs @ [c]))"
  using assms by (auto simp: list_all2_appendI)

lemma UN_set_update:
  assumes "k < length cs" and "f c = insert x (f (cs ! k))"
  shows "(\<Union>c \<in> set (cs[k := c]). f c) = insert x (\<Union>c \<in> set cs. f c)"
proof -
  let ?r = "set (take k cs) \<union> set (drop (Suc k) cs)"
  have "set (cs[k := c]) = insert c ?r" using assms(1) by (simp add: upd_conv_take_nth_drop)
  moreover have "set cs = insert (cs ! k) ?r"
    using arg_cong [OF id_take_nth_drop [OF assms(1)], of set] by simp
  ultimately show ?thesis using assms(2) by simp
qed

lemma routes_of_update:
  assumes "k < length cs" and "routes_of c = insert (p, h) (routes_of (cs ! k))"
  shows "routes_of (Node i (cs[k := c])) = insert (path i @ p, h) (routes_of (Node i cs))"
  by (simp add: UN_set_update [where f = routes_of, OF assms])

text \<open>The longest common prefix, and the node after its edge was split there.\<close>

lemma common_len_take: "take (common_len p q) p = take (common_len p q) q"
  by (induction p q rule: common_len.induct) auto

lemma common_len_le: "common_len p q \<le> length p" "common_len p q \<le> length q"
  by (induction p q rule: common_len.induct) auto

lemma common_len_differ:
  "common_len p q < length p \<Longrightarrow> common_len p q < length q \<Longrightarrow> p ! common_len p q \<noteq> q ! common_len p q"
  by (induction p q rule: common_len.induct) (auto split: if_splits)

lemma common_len_pos: "p \<noteq> [] \<Longrightarrow> q \<noteq> [] \<Longrightarrow> hd p = hd q \<Longrightarrow> common_len p q > 0"
  by (cases p; cases q) auto

lemma max_of_children_eq: "\<exists>m. max_of_children cs ch = ch\<lparr>maxParams := m\<rparr>"
proof (induction cs arbitrary: ch)
  case Nil
  show ?case by (rule exI [of _ "maxParams ch"]) (simp add: max_of_children_def)
next
  case (Cons c cs)
  let ?ch = "if maxParams (info c) > maxParams ch then ch\<lparr>maxParams := maxParams (info c)\<rparr> else ch"
  obtain m where "max_of_children cs ?ch = ?ch\<lparr>maxParams := m\<rparr>" using Cons by blast
  then show ?case by (intro exI [of _ m]) (simp add: max_of_children_def)
qed

lemma split_static:
  assumes "static_tree n" and "i = common_len p (path (info n))" and "i < length (path (info n))"
  obtains f c where "split_edge i p full index n = Node f [c]" and "static_tree (Node f [c])"
    and "routes_of (Node f [c]) = routes_of n" and "path f = take i p" and "handlers f = None"
    and "indices f = [path (info n) ! i]"
proof -
  obtain g cs where n: "n = Node g cs" by (cases n)
  obtain m where m: "max_of_children cs (new_node\<lparr>path := drop i (path g), wildChild := wildChild g, indices := indices g,
           handlers := handlers g, priority := priority g - 1, fullPath := fullPath g\<rparr>) =
      new_node\<lparr>path := drop i (path g), wildChild := wildChild g, indices := indices g,
           handlers := handlers g, priority := priority g - 1, fullPath := fullPath g\<rparr>\<lparr>maxParams := m\<rparr>"
    using max_of_children_eq by blast
  have "take i p = take i (path g)" and i: "i < length (path g)"
    using assms(2,3) common_len_take by (auto simp: n)
  then have pre: "take i p @ drop i (path g) @ r = path g @ r" for r
    by (simp flip: append_assoc)
  have pre0: "take i p @ drop i (path g) = path g" using pre [of "[]"] by simp
  show ?thesis
    by (rule that [OF _ _ _ _ _ _], unfold split_edge_def Let_def n node.sel m, rule refl)
      (use assms(1) i in \<open>simp_all add: n new_node_def pre pre0 hd_drop_conv_nth image_Un image_image split_def
        split: option.split\<close>)
qed

text \<open>
  What adding a route to a tree has to do: panic on a path that has a handler, otherwise extend the
  routes by the new one.  A node keeps the first byte of its edge.
\<close>

definition adds :: "string \<Rightarrow> 'h \<Rightarrow> 'h node \<Rightarrow> 'h node run \<Rightarrow> bool" where
  "adds p h n r \<longleftrightarrow>
     (if \<exists>h'. (p, h') \<in> routes_of n then r = Panics
      else \<exists>n'. r = Returns n' \<and> static_tree n' \<and> routes_of n' = insert (p, h) (routes_of n) \<and>
        (path (info n) \<noteq> [] \<and> p \<noteq> [] \<and> hd p = hd (path (info n)) \<longrightarrow> path (info n') \<noteq> [] \<and> hd (path (info n')) = hd p))"

lemma adds_cong:
  "adds p h n r \<Longrightarrow> routes_of n' = routes_of n \<Longrightarrow>
     (path (info n') \<noteq> [] \<and> p \<noteq> [] \<and> hd p = hd (path (info n')) \<Longrightarrow> path (info n) \<noteq> [] \<and> hd p = hd (path (info n))) \<Longrightarrow>
     adds p h n' r"
  by (auto simp: adds_def split: if_splits)

lemma adds_below:
  assumes "static_tree (Node f cs)" and "r \<noteq> []" and "find_index (hd r) (indices f) = Some k" and "j \<le> k"
    and "adds r h (cs ! k) res"
  shows "adds (path f @ r) h (Node f cs)
    (case res of Panics \<Rightarrow> Panics
     | Returns c \<Rightarrow> Returns (Node (f\<lparr>indices := bring j k (indices f)\<rparr>) (bring j k (cs[k := c]))))"
proof -
  note sd = static_treeD [OF assms(1)]
  have k: "k < length cs" "indices f ! k = hd r" using find_index_Some [OF assms(3)] sd(1) by auto
  have same: "(path f @ r, h') \<in> routes_of (Node f cs) \<longleftrightarrow> (r, h') \<in> routes_of (cs ! k)" for h'
    using assms(2,3) by (simp add: routes_of_iff [OF assms(1)] del: routes_of.simps)
  show ?thesis
  proof (cases "\<exists>h'. (r, h') \<in> routes_of (cs ! k)")
    case True
    then show ?thesis using assms(5) same by (simp add: adds_def del: routes_of.simps)
  next
    case False
    then obtain c where c: "res = Returns c" "static_tree c" "routes_of c = insert (r, h) (routes_of (cs ! k))"
      "path (info c) \<noteq> []" "hd (path (info c)) = hd r"
      using assms(2,5) sd(3) [OF k(1)] k(2) by (auto simp: adds_def)
    have st: "static_tree (Node f (cs[k := c]))" by (rule static_tree_update) (use assms(1) c k in auto)
    show ?thesis
      using False c(1) same static_tree_reorder [OF st assms(4)] k(1) routes_of_update [OF k(1) c(3), of f]
      by (simp add: adds_def del: routes_of.simps static_tree.simps)
  qed
qed

lemma adds_beside:
  assumes "static_tree (Node f cs)" and "r \<noteq> []" and "find_index (hd r) (indices f) = None" and "j \<le> length cs"
    and "static_tree c" and "path (info c) = r" and "routes_of c = {(r, h)}"
  shows "adds (path f @ r) h (Node f cs)
    (Returns (Node (f\<lparr>indices := bring j (length cs) (indices f @ [hd r])\<rparr>) (bring j (length cs) (cs @ [c]))))"
proof -
  have st: "static_tree (Node (f\<lparr>indices := indices f @ [hd r]\<rparr>) (cs @ [c]))"
    using static_tree_append [OF assms(1,5)] assms(2,3,6) by (simp add: find_index_None)
  have no: "\<nexists>h'. (path f @ r, h') \<in> routes_of (Node f cs)"
    using assms(2,3) by (simp add: routes_of_iff [OF assms(1)] del: routes_of.simps)
  have "routes_of (Node (f\<lparr>indices := indices f @ [hd r]\<rparr>) (cs @ [c])) =
      insert (path f @ r, h) (routes_of (Node f cs))"
    using assms(7) by (auto split: option.splits)
  then show ?thesis
    using no static_tree_reorder [OF st assms(4)]
    by (simp add: adds_def del: routes_of.simps static_tree.simps)
qed

lemma adds_here:
  assumes "static_tree (Node f cs)"
  shows "adds (path f) h (Node f cs)
    (if handlers f \<noteq> None then Panics else Returns (Node (f\<lparr>handlers := Some h\<rparr>) cs))"
  using assms routes_of_iff [OF assms, of "path f"] by (auto simp: adds_def)

lemma height_child:
  assumes "c \<in> set cs" shows "height c < height (Node f cs)"
proof -
  have "height c \<le> Max (set (0 # map height cs))" using assms by (intro Max_ge) auto
  also have "\<dots> = fold max (map height cs) 0" by (rule Max.set_eq_fold)
  finally show ?thesis by (simp add: less_Suc_eq_le)
qed

lemma inc_priority_Node: "inc_priority (Node f cs) = Node (f\<lparr>priority := priority f + 1\<rparr>) cs"
  by (simp add: inc_priority_def)

lemma inc_priority_info [simp]:
  "path (info (inc_priority n)) = path (info n)" "children (inc_priority n) = children n"
  "nType (info (inc_priority n)) = nType (info n)"
  by (simp_all add: inc_priority_def)

lemma height_inc_priority [simp]: "height (inc_priority n) = height n"
  by (cases n) (simp add: inc_priority_Node)

lemma static_inc_priority [simp]: "static_tree (inc_priority n) = static_tree n"
  by (cases n) (simp add: inc_priority_Node)

lemma routes_inc_priority [simp]: "routes_of (inc_priority n) = routes_of n"
  by (cases n) (simp add: inc_priority_Node split: option.split)

lemma adds_inc_priority [simp]: "adds p h (inc_priority n) r = adds p h n r"
  by (simp add: adds_def)

definition no_wildcard :: "string \<Rightarrow> bool" where
  "no_wildcard p \<longleftrightarrow> CHR '':'' \<notin> set p \<and> CHR ''*'' \<notin> set p"

lemma countParams_static: "no_wildcard p \<Longrightarrow> countParams p = 0"
proof -
  assume "no_wildcard p"
  then have "filter (\<lambda>c. c = CHR '':'' \<or> c = CHR ''*'') p = []" by (auto simp: no_wildcard_def filter_empty_conv)
  then show ?thesis by (simp add: countParams_def)
qed

lemma insertChild_static:
  "insertChild 0 p full h n = Returns (Node ((info n)\<lparr>path := p, handlers := Some h, fullPath := full\<rparr>) (children n))"
  by (simp add: insertChild_def insert_loop.simps)

text \<open>The node at which one turn of the walk works, after its edge was split if need be.\<close>

lemma walk_node:
  assumes "static_tree n" and "i = common_len p (path (info n))"
  obtains f cs where "(if i < length (path (info n)) then split_edge i p full index n else n) = Node f cs"
    and "static_tree (Node f cs)" and "routes_of (Node f cs) = routes_of n" and "path f = take i p"
    and "\<And>k. i < length p \<Longrightarrow> find_index (p ! i) (indices f) = Some k \<Longrightarrow> height (cs ! k) < height n"
proof (cases "i < length (path (info n))")
  case True
  obtain f c where s: "split_edge i p full index n = Node f [c]" "static_tree (Node f [c])"
    "routes_of (Node f [c]) = routes_of n" "path f = take i p" "indices f = [path (info n) ! i]"
    using split_static [OF assms True] by metis
  have "p ! i \<noteq> path (info n) ! i" if "i < length p"
    using common_len_differ [of p "path (info n)"] True that assms(2) by simp
  with s True show ?thesis by (intro that [of f "[c]"]) (auto simp del: routes_of.simps static_tree.simps)
next
  case False
  obtain f cs where n: "n = Node f cs" by (cases n)
  have i: "i = length (path f)" using False common_len_le(2) [of p "path f"] assms(2) by (simp add: n)
  show ?thesis
  proof (rule that)
    show "path f = take i p" using common_len_take [of p "path f"] i assms(2) by (simp add: n)
    fix k assume "find_index (p ! i) (indices f) = Some k"
    then have "k < length cs" using find_index_Some static_treeD(1) assms(1) n by metis
    then show "height (cs ! k) < height n" by (simp add: n height_child del: height.simps)
  qed (use False assms(1) n in auto)
qed

text \<open>One turn of the walk for a path without wildcards, at a static node.\<close>

lemma walk_turn:
  assumes "static_tree (Node f cs)" and "no_wildcard p" and "i = common_len p (path (info n))"
    and "(if i < length (path (info n)) then split_edge i p full index n else n) = Node f cs"
  shows "walk (Suc fuel) full h p 0 index n =
    (if i < length p then
       case find_index (p ! i) (indices f) of
         Some k \<Rightarrow>
           (case incrementChildPrio k f cs of
              (k', f', cs') \<Rightarrow> put_child f' cs' k' (walk fuel full h (drop i p) 0 (index + length (path f)) (cs' ! k')))
       | None \<Rightarrow>
           (case incrementChildPrio (length cs) (f\<lparr>indices := indices f @ [p ! i]\<rparr>)
                (cs @ [Node (new_node\<lparr>maxParams := 0, fullPath := full\<rparr>) []]) of
              (k', f', cs') \<Rightarrow> put_child f' cs' k' (Some (insertChild 0 (drop i p) full h (cs' ! k'))))
     else Some (if handlers f \<noteq> None then Panics else Returns (Node (f\<lparr>handlers := Some h\<rparr>) cs)))"
proof -
  have n1: "Node (raise_maxParams 0 (info n)) (children n) = n" by (simp add: raise_maxParams_def)
  note w = walk.simps(2) [of fuel full h p 0 index n, unfolded n1 Let_def, folded assms(3), unfolded assms(4) node.sel]
  have f: "\<not> wildChild f" "nType f \<noteq> param_node" "length (indices f) = length cs"
    using assms(1) static_treeD(1) [OF assms(1)] by auto
  have k: "\<not> length cs \<le> k" if "find_index (p ! i) (indices f) = Some k" for k
    using find_index_Some [OF that] f(3) by simp
  have "p ! i \<noteq> CHR '':''" "p ! i \<noteq> CHR ''*''" if "i < length p"
    using assms(2) nth_mem [OF that] by (auto simp: no_wildcard_def)
  then show ?thesis unfolding w using f k by (auto split: option.split)
qed

lemma walk_below:
  assumes "static_tree (Node f cs)" and "r \<noteq> []" and "find_index (hd r) (indices f) = Some k"
    and "walk fuel full h r 0 ix (inc_priority (cs ! k)) = Some res" and "adds r h (cs ! k) res"
  shows "\<exists>res'. (case incrementChildPrio k f cs of
      (k', f', cs') \<Rightarrow> put_child f' cs' k' (walk fuel full h r 0 ix (cs' ! k'))) = Some res' \<and>
    adds (path f @ r) h (Node f cs) res'"
proof -
  have k: "k < length cs" and len: "length (indices f) = length cs"
    using find_index_Some [OF assms(3)] static_treeD(1) [OF assms(1)] by auto
  obtain j where j: "j \<le> k" and inc: "incrementChildPrio k f cs =
      (j, f\<lparr>indices := bring j k (indices f)\<rparr>, bring j k (cs[k := inc_priority (cs ! k)]))"
    using incrementChildPrio_bring [OF k len] .
  show ?thesis using adds_below [OF assms(1-3) j assms(5)] inc j k assms(4) by (simp add: put_child_def bring_update)
qed

lemma walk_beside:
  assumes "static_tree (Node f cs)" and "r \<noteq> []" and "find_index (hd r) (indices f) = None"
  shows "\<exists>res'. (case incrementChildPrio (length cs) (f\<lparr>indices := indices f @ [hd r]\<rparr>)
        (cs @ [Node (new_node\<lparr>maxParams := 0, fullPath := full\<rparr>) []]) of
      (k', f', cs') \<Rightarrow> put_child f' cs' k' (Some (insertChild 0 r full h (cs' ! k')))) = Some res' \<and>
    adds (path f @ r) h (Node f cs) res'"
proof -
  obtain j where j: "j \<le> length cs" and inc: "incrementChildPrio (length cs) (f\<lparr>indices := indices f @ [hd r]\<rparr>)
        (cs @ [Node (new_node\<lparr>maxParams := 0, fullPath := full\<rparr>) []]) =
      (j, f\<lparr>indices := bring j (length cs) (indices f @ [hd r])\<rparr>,
       bring j (length cs) (cs @ [inc_priority (Node (new_node\<lparr>maxParams := 0, fullPath := full\<rparr>) [])]))"
    using incrementChildPrio_bring [of "length cs" "cs @ [Node (new_node\<lparr>maxParams := 0, fullPath := full\<rparr>) []]"
        "f\<lparr>indices := indices f @ [hd r]\<rparr>"] static_treeD(1) [OF assms(1)]
    by (simp add: list_update_append) blast
  let ?c = "Node (new_node\<lparr>maxParams := 0, fullPath := full, priority := 1, path := r, handlers := Some h\<rparr>) []"
  have c: "static_tree ?c" "path (info ?c) = r" "routes_of ?c = {(r, h)}" by (auto simp: new_node_def)
  show ?thesis
    using adds_beside [OF assms j c] inc j
    by (simp add: put_child_def bring_update insertChild_static list_update_append inc_priority_Node new_node_def)
qed

lemma walk_static:
  assumes "static_tree n" and "height n \<le> fuel" and "no_wildcard p"
  shows "\<exists>r. walk fuel full h p 0 index n = Some r \<and> adds p h n r"
  using assms
proof (induction fuel arbitrary: n p index)
  case 0
  then show ?case by (cases n) simp
next
  case (Suc fuel)
  define i where "i = common_len p (path (info n))"
  obtain f cs where nd: "(if i < length (path (info n)) then split_edge i p full index n else n) = Node f cs"
    and st: "static_tree (Node f cs)" and rt: "routes_of (Node f cs) = routes_of n" and pf: "path f = take i p"
    and ht: "\<And>k. i < length p \<Longrightarrow> find_index (p ! i) (indices f) = Some k \<Longrightarrow> height (cs ! k) < height n"
    using walk_node [OF Suc.prems(1) i_def] by metis
  note w = walk_turn [OF st Suc.prems(3) i_def nd, of fuel h]
  have hdp: "hd p = hd (path f)" "path f \<noteq> []" if "path (info n) \<noteq> []" "p \<noteq> []" "hd p = hd (path (info n))"
    using common_len_pos [of p "path (info n)"] that pf i_def by auto
  have up: "adds p h n r" if "adds p h (Node f cs) r" for r
    by (rule adds_cong [OF that]) (use hdp rt in auto)
  show ?case
  proof (cases "i < length p")
    case False
    then have p: "path f = p" using pf by simp
    then show ?thesis using w False up [OF adds_here [OF st, of h, unfolded p]] by auto
  next
    case True
    define r where "r = drop i p"
    have r: "r \<noteq> []" "hd r = p ! i" "path f @ r = p" "no_wildcard r"
      using True pf Suc.prems(3) by (auto simp: r_def hd_drop_conv_nth no_wildcard_def dest: in_set_dropD)
    note w' = w [unfolded if_P [OF True], folded r_def, folded r(2)]
    show ?thesis
    proof (cases "find_index (hd r) (indices f)")
      case (Some k)
      have k: "k < length cs" using find_index_Some [OF Some] static_treeD(1) [OF st] by simp
      have "height (inc_priority (cs ! k)) \<le> fuel" using ht True Some r(2) Suc.prems(2) by fastforce
      with Suc.IH [OF _ this r(4)] static_treeD(2) [OF st k] obtain res where
        "walk fuel full h r 0 (index + length (path f)) (inc_priority (cs ! k)) = Some res" "adds r h (cs ! k) res"
        by fastforce
      from walk_below [OF st r(1) Some this, unfolded r(3)] up show ?thesis unfolding w' Some option.case by blast
    next
      case None
      from walk_beside [OF st r(1) None, of full h, unfolded r(3)] up show ?thesis unfolding w' None option.case by blast
    qed
  qed
qed

text \<open>
  A tree of the router: static, and without a handler for the empty path.  Adding a static path to
  it extends its routes or panics.
\<close>

definition router_tree :: "'h node \<Rightarrow> bool" where
  "router_tree n \<longleftrightarrow> static_tree n \<and> (\<forall>h. ([], h) \<notin> routes_of n)"

lemma addRoute_static:
  assumes "router_tree n" and "no_wildcard p" and "p \<noteq> []"
  shows "\<exists>r. addRoute p h n = Some r \<and>
    (if \<exists>h'. (p, h') \<in> routes_of n then r = Panics
     else \<exists>n'. r = Returns n' \<and> router_tree n' \<and> routes_of n' = insert (p, h) (routes_of n))"
proof (cases "length (path (info n)) > 0 \<or> length (children n) > 0")
  case True
  have "static_tree (inc_priority n)" "height (inc_priority n) \<le> height (inc_priority n) + 2"
    using assms(1) by (auto simp: router_tree_def)
  from walk_static [OF this assms(2), of p h 0] obtain r where
    "walk (height n + 2) p h p 0 0 (inc_priority n) = Some r" "adds p h n r" by auto
  then show ?thesis
    using True assms by (auto simp: addRoute_def Let_def countParams_static adds_def router_tree_def split: if_splits)
next
  case False
  then obtain i where n: "n = Node i []" "path i = []" by (cases n) auto
  with assms(1) have "handlers i = None" "\<not> wildChild i" "indices i = []"
    by (auto simp: router_tree_def split: option.splits)
  with n assms(2,3) show ?thesis
    by (auto simp: addRoute_def Let_def countParams_static insertChild_static inc_priority_Node router_tree_def)
qed

section \<open>Adding a path always ends\<close>

text \<open>With fuel above the height of the tree the walk ends, whatever the tree and the path are.\<close>

lemma height_Node: "height (Node i (children n)) = height n"
  by (cases n) simp

lemma put_child_Some [simp]: "(\<exists>y. put_child i cs k r = Some y) \<longleftrightarrow> (\<exists>y. r = Some y)"
  by (auto simp: put_child_def)

lemma split_edge_parts:
  obtains f c where "split_edge i p full index n = Node f [c]" and "\<not> wildChild f"
    and "nType f = nType (info n)" and "indices f = [path (info n) ! i]" and "nType (info c) = static_node"
    and "path (info c) = drop i (path (info n))"
proof -
  obtain m where "max_of_children (children n) (new_node\<lparr>path := drop i (path (info n)), wildChild := wildChild (info n), indices := indices (info n),
           handlers := handlers (info n), priority := priority (info n) - 1, fullPath := fullPath (info n)\<rparr>) =
      new_node\<lparr>path := drop i (path (info n)), wildChild := wildChild (info n), indices := indices (info n),
           handlers := handlers (info n), priority := priority (info n) - 1, fullPath := fullPath (info n)\<rparr>\<lparr>maxParams := m\<rparr>"
    using max_of_children_eq by blast
  then show ?thesis using that by (simp add: split_edge_def Let_def new_node_def)
qed

text \<open>At a node whose edge differs in the first byte the walk ends at once.\<close>

lemma walk_mismatch:
  assumes "p \<noteq> []" and "path (info n) \<noteq> []" and "hd p \<noteq> hd (path (info n))" and "nType (info n) \<noteq> param_node"
  shows "walk (Suc fuel) full h p numParams index n \<noteq> None"
proof -
  define n1 where "n1 = Node (raise_maxParams numParams (info n)) (children n)"
  have n1: "path (info n1) = path (info n)" "nType (info n1) = nType (info n)"
    by (simp_all add: n1_def raise_maxParams_def)
  have i: "common_len p (path (info n)) = 0" using assms(1-3) by (cases p; cases "path (info n)") auto
  obtain f c where s: "split_edge 0 p full index n1 = Node f [c]" "\<not> wildChild f" "nType f = nType (info n1)"
    "indices f = [path (info n1) ! 0]"
    by (rule split_edge_parts)
  have "p ! 0 \<noteq> path (info n) ! 0" using assms(1-3) by (simp add: hd_conv_nth)
  then show ?thesis
    using assms s n1 i
    by (simp add: walk.simps(2) Let_def n1_def [symmetric] put_child_def split: prod.split)
qed

text \<open>The child the walk goes on with after its priority was raised.\<close>

lemma incrementChildPrio_child:
  assumes "k < length cs" and "incrementChildPrio k i cs = (j, i', cs')"
  shows "cs' ! j = inc_priority (cs ! k)"
proof -
  let ?cs = "cs[k := inc_priority (cs ! k)]"
  obtain j' where "j' \<le> k" "move_front (priority (info (?cs ! k))) k ?cs = (j', bring j' k ?cs)"
    using move_front_bring [of k ?cs] assms(1) by auto
  then show ?thesis using assms by (auto simp: incrementChildPrio_def Let_def)
qed

lemma walk_ends_split:
  assumes "n1 = Node (raise_maxParams numParams (info n)) (children n)" and "i = common_len p (path (info n1))"
    and "i < length (path (info n1))" and "0 < fuel"
  shows "walk (Suc fuel) full h p numParams index n \<noteq> None"
proof -
  note w = walk.simps(2) [of fuel full h p numParams index n, unfolded Let_def, folded assms(1), folded assms(2)]
  obtain f c where s: "split_edge i p full index n1 = Node f [c]" "\<not> wildChild f"
    "indices f = [path (info n1) ! i]" "nType (info c) = static_node" "path (info c) = drop i (path (info n1))"
    by (rule split_edge_parts)
  show ?thesis
  proof (cases "i < length p")
    case False
    with assms(3) s show ?thesis unfolding w by simp
  next
    case True
    have ne: "p ! i \<noteq> path (info n1) ! i" using common_len_differ [of p "path (info n1)"] True assms(2,3) by simp
    obtain fuel' where fuel: "fuel = Suc fuel'" using assms(4) by (cases fuel) auto
    have "walk fuel full h (drop i p) numParams ix (inc_priority c) \<noteq> None" for ix
      unfolding fuel by (rule walk_mismatch) (use True assms(3) s ne in \<open>auto simp: hd_drop_conv_nth\<close>)
    with True assms(3) s ne show ?thesis
      unfolding w by (auto simp: put_child_def [of _ _ _ "Some _"] split: prod.split)
  qed
qed

lemma walk_ends_whole:
  assumes "n1 = Node (raise_maxParams numParams (info n)) (children n)" and "i = common_len p (path (info n1))"
    and "\<not> i < length (path (info n1))"
    and down: "\<And>c c' q np ix. c \<in> set (children n1) \<Longrightarrow> height c' = height c \<Longrightarrow> walk fuel full h q np ix c' \<noteq> None"
  shows "walk (Suc fuel) full h p numParams index n \<noteq> None"
proof -
  note w = walk.simps(2) [of fuel full h p numParams index n, unfolded Let_def, folded assms(1), folded assms(2),
      unfolded if_not_P [OF assms(3)]]
  consider (leaf) "\<not> i < length p" | (wild) "i < length p" "wildChild (info n1)"
    | (slash) "i < length p" "\<not> wildChild (info n1)"
        "nType (info n1) = param_node \<and> drop i p ! 0 = CHR ''/'' \<and> length (children n1) = 1"
    | (index) "i < length p" "\<not> wildChild (info n1)"
        "\<not> (nType (info n1) = param_node \<and> drop i p ! 0 = CHR ''/'' \<and> length (children n1) = 1)"
    by blast
  then show ?thesis
  proof cases
    case leaf
    then show ?thesis unfolding w by simp
  next
    case wild
    then show ?thesis
      using down [OF _ height_Node] unfolding w by (cases "children n1") auto
  next
    case slash
    then have "walk fuel full h q np ix (inc_priority (children n1 ! 0)) \<noteq> None" for q np ix
      by (intro down [of "children n1 ! 0"]) auto
    with slash show ?thesis unfolding w by simp
  next
    case index
    show ?thesis
    proof (cases "find_index (drop i p ! 0) (indices (info n1))")
      case None
      with index show ?thesis
        unfolding w by (auto simp only: if_True if_False option.case put_child_def split: prod.split if_split)
    next
      case (Some k)
      obtain k' j' cs' where r: "incrementChildPrio k (info n1) (children n1) = (k', j', cs')" by (rule prod_cases3)
      have "walk fuel full h q np ix (cs' ! k') \<noteq> None" if "k < length (children n1)" for q np ix
        using down [of "children n1 ! k" "cs' ! k'"] incrementChildPrio_child [OF that r] that by simp
      with Some index r show ?thesis unfolding w by (cases "k < length (children n1)") auto
    qed
  qed
qed

lemma walk_total:
  assumes "height n < fuel"
  shows "walk fuel full h p numParams index n \<noteq> None"
  using assms
proof (induction fuel arbitrary: n p numParams index)
  case (Suc fuel)
  define n1 where "n1 = Node (raise_maxParams numParams (info n)) (children n)"
  define i where "i = common_len p (path (info n1))"
  have "walk fuel full h q np ix c' \<noteq> None" if "c \<in> set (children n1)" "height c' = height c" for c c' q np ix
  proof -
    have "height c < height n"
      using height_child [of c "children n" "info n"] that(1) by (simp add: n1_def height_Node del: height.simps)
    then show ?thesis using Suc.IH [of c' q np ix] Suc.prems that(2) by simp
  qed
  moreover have "0 < fuel" using Suc.prems by (cases n) auto
  ultimately show ?case using walk_ends_split [OF n1_def i_def] walk_ends_whole [OF n1_def i_def] by metis
qed simp

lemma addRoute_total: "addRoute p h n \<noteq> None"
  using walk_total [of "inc_priority n" "height (inc_priority n) + 2"] by (simp add: addRoute_def Let_def)

section \<open>Properties\<close>

text \<open>
  C22. Adding a route always ends, with a tree or a panic, for every tree and every path, wildcards
  included: the fuel the model gives to the walk is never used up.
\<close>

theorem addRoute_ends: "\<exists>r. addRoute p h n = Some r"
  using addRoute_total [of p h n] by simp

end
