(* ===== verification/Gin_Path.thy ===== *)
theory Gin_Path
  imports Go_Base
begin

text \<open>
  The cleaning of request paths (\<open>src/vender/src/github.com/gin-gonic/gin/path.go\<close>): one pass over
  the bytes that writes into the path itself as long as it can and into a buffer from then on.  It
  is compared with a definition over the list of path elements.
\<close>

section \<open>The loop over the bytes\<close>

text \<open>The buffer is \<open>None\<close> as long as what is written agrees with the path.\<close>

definition bufApp :: "string \<Rightarrow> nat \<Rightarrow> char \<Rightarrow> string option \<Rightarrow> string option run" where
  "bufApp s w c buf =
     (case buf of
        None \<Rightarrow>
          if w \<ge> length s then Panics
          else if s ! w = c then Returns None
          else Returns (Some ((take w s @ replicate (length s - w) (CHR 0x00))[w := c]))
      | Some b \<Rightarrow> if w < length b then Returns (Some (b[w := c])) else Panics)"

text \<open>The inner loop that goes back to the last slash.\<close>

fun back_to_slash :: "string \<Rightarrow> nat \<Rightarrow> nat run" where
  "back_to_slash b 0 = Returns 0"
| "back_to_slash b (Suc w) =
     (if w > 0 then
        if Suc w \<ge> length b then Panics
        else if b ! Suc w \<noteq> CHR ''/'' then back_to_slash b w
        else Returns (Suc w)
      else Returns (Suc w))"

text \<open>The inner loop that copies one element.\<close>

function copy_element :: "string \<Rightarrow> nat \<Rightarrow> nat \<Rightarrow> string option \<Rightarrow> (nat \<times> nat \<times> string option) run" where
  "copy_element p r w buf =
     (if r < length p \<and> p ! r \<noteq> CHR ''/'' then
        (case bufApp p w (p ! r) buf of
           Panics \<Rightarrow> Panics
         | Returns buf' \<Rightarrow> copy_element p (Suc r) (Suc w) buf')
      else Returns (r, w, buf))"
  by pat_completeness auto
termination by (relation "measure (\<lambda>(p, r, w, buf). length p - r)") auto

declare copy_element.simps [simp del]

lemma copy_element_mono: "copy_element p r w buf = Returns (r', w', buf') \<Longrightarrow> r \<le> r'"
  by (induction p r w buf rule: copy_element.induct)
    (subst (asm) (2) copy_element.simps, auto split: if_splits run.splits)

lemma copy_element_less:
  "copy_element p r w buf = Returns (r', w', buf') \<Longrightarrow> r < length p \<Longrightarrow> p ! r \<noteq> CHR ''/'' \<Longrightarrow>
     length p - r' < length p - r"
  by (subst (asm) copy_element.simps) (auto split: run.splits dest: copy_element_mono)

function clean_loop :: "string \<Rightarrow> nat \<Rightarrow> nat \<Rightarrow> string option \<Rightarrow> bool \<Rightarrow> (nat \<times> string option \<times> bool) run" where
  "clean_loop p r w buf trailing =
     (if r < length p then
        if p ! r = CHR ''/'' then clean_loop p (r + 1) w buf trailing
        else if p ! r = CHR ''.'' \<and> r + 1 = length p then clean_loop p (r + 1) w buf True
        else if p ! r = CHR ''.'' \<and> p ! (r + 1) = CHR ''/'' then clean_loop p (r + 2) w buf trailing
        else if p ! r = CHR ''.'' \<and> p ! (r + 1) = CHR ''.'' \<and> (r + 2 = length p \<or> p ! (r + 2) = CHR ''/'') then
          (if w > 1 then
             (case back_to_slash (case buf of None \<Rightarrow> p | Some b \<Rightarrow> b) (w - 1) of
                Panics \<Rightarrow> Panics
              | Returns w' \<Rightarrow> clean_loop p (r + 3) w' buf trailing)
           else clean_loop p (r + 3) w buf trailing)
        else
          (case (if w > 1 then bufApp p w CHR ''/'' buf else Returns buf) of
             Panics \<Rightarrow> Panics
           | Returns buf1 \<Rightarrow>
               let w1 = (if w > 1 then w + 1 else w)
               in (case copy_element p r w1 buf1 of
                     Panics \<Rightarrow> Panics
                   | Returns (r', w', buf') \<Rightarrow> clean_loop p r' w' buf' trailing))
      else Returns (w, buf, trailing))"
  by pat_completeness auto
termination
  by (relation "measure (\<lambda>(p, r, w, buf, trailing). length p - r)")
    (auto intro: copy_element_less split: if_splits)

declare clean_loop.simps [simp del]

definition cleanPath :: "string \<Rightarrow> string run" where
  "cleanPath p =
     (if p = [] then Returns ''/''
      else
        let n = length p;
            r = (if p ! 0 \<noteq> CHR ''/'' then 0 else 1);
            buf = (if p ! 0 \<noteq> CHR ''/'' then Some (CHR ''/'' # replicate n (CHR 0x00)) else None)
        in case clean_loop p r 1 buf (n > 1 \<and> p ! (n - 1) = CHR ''/'') of
             Panics \<Rightarrow> Panics
           | Returns (w, buf1, trailing) \<Rightarrow>
               (case (if trailing \<and> w > 1 then bufApp p w CHR ''/'' buf1 else Returns buf1) of
                  Panics \<Rightarrow> Panics
                | Returns buf2 \<Rightarrow>
                    let w2 = (if trailing \<and> w > 1 then w + 1 else w)
                    in Returns (take w2 (case buf2 of None \<Rightarrow> p | Some b \<Rightarrow> b))))"

section \<open>The reference\<close>

text \<open>The elements of a path, the last one first: empty and \<open>.\<close> are skipped, \<open>..\<close> takes one back.\<close>

fun add_element :: "string \<Rightarrow> string list \<Rightarrow> string list" where
  "add_element e st = (if e = [] \<or> e = ''.'' then st else if e = ''..'' then tl st else e # st)"

definition rooted :: "string list \<Rightarrow> string" where
  "rooted st = CHR ''/'' # strings_Join (rev st) CHR ''/''"

definition clean_elements :: "string \<Rightarrow> string" where
  "clean_elements p =
     (let es = strings_Split p CHR ''/''; st = fold add_element es []
      in rooted st @ (if last es \<in> {[], ''.''} \<and> st \<noteq> [] then ''/'' else []))"

section \<open>Agreement\<close>

text \<open>What has been written so far, and the room there is.\<close>

definition view :: "string \<Rightarrow> nat \<Rightarrow> string option \<Rightarrow> string" where
  "view p w buf = take w (case buf of None \<Rightarrow> p | Some b \<Rightarrow> b)"

definition room :: "string \<Rightarrow> string option \<Rightarrow> nat" where
  "room p buf = length (case buf of None \<Rightarrow> p | Some b \<Rightarrow> b)"

lemma bufApp_writes:
  assumes "w < room p buf"
  obtains buf' where "bufApp p w c buf = Returns buf'" and "view p (Suc w) buf' = view p w buf @ [c]"
    and "room p buf' = room p buf"
proof (cases buf)
  case None
  with assms that show ?thesis
    by (cases "p ! w = c") (auto simp: bufApp_def view_def room_def take_Suc_conv_app_nth list_update_append nth_append)
next
  case (Some b)
  with assms that show ?thesis by (auto simp: bufApp_def view_def room_def take_Suc_conv_app_nth)
qed

lemma copy_element_writes:
  assumes "w + length (takeWhile (\<lambda>c. c \<noteq> CHR ''/'') (drop r p)) \<le> room p buf"
  shows "\<exists>buf'. copy_element p r w buf =
      Returns (r + length (takeWhile (\<lambda>c. c \<noteq> CHR ''/'') (drop r p)),
               w + length (takeWhile (\<lambda>c. c \<noteq> CHR ''/'') (drop r p)), buf') \<and>
    view p (w + length (takeWhile (\<lambda>c. c \<noteq> CHR ''/'') (drop r p))) buf' =
      view p w buf @ takeWhile (\<lambda>c. c \<noteq> CHR ''/'') (drop r p) \<and>
    room p buf' = room p buf"
  using assms
proof (induction p r w buf rule: copy_element.induct)
  case (1 p r w buf)
  show ?case
  proof (cases "r < length p \<and> p ! r \<noteq> CHR ''/''")
    case True
    then have d: "drop r p = p ! r # drop (Suc r) p" by (simp add: Cons_nth_drop_Suc)
    then have "w < room p buf" using 1(2) True by simp
    then obtain buf1 where b: "bufApp p w (p ! r) buf = Returns buf1"
      "view p (Suc w) buf1 = view p w buf @ [p ! r]" "room p buf1 = room p buf"
      using bufApp_writes by metis
    show ?thesis using 1(1) [OF True b(1)] 1(2) True b by (subst copy_element.simps) (auto simp: d)
  next
    case False
    then have "takeWhile (\<lambda>c. c \<noteq> CHR ''/'') (drop r p) = []" by (cases "r < length p") (auto simp: takeWhile_eq_Nil_iff hd_drop_conv_nth)
    with False show ?thesis by (subst copy_element.simps) auto
  qed
qed

lemma back_to_slash_stops:
  "1 \<le> l \<Longrightarrow> l \<le> w \<Longrightarrow> w < length b \<Longrightarrow> l = 1 \<or> b ! l = CHR ''/'' \<Longrightarrow>
     (\<And>j. l < j \<Longrightarrow> j \<le> w \<Longrightarrow> b ! j \<noteq> CHR ''/'') \<Longrightarrow> back_to_slash b w = Returns l"
  by (induction b w rule: back_to_slash.induct) (auto simp: le_Suc_eq)

lemma rooted_Cons: "rooted (e # st) = rooted st @ (if st = [] then e else CHR ''/'' # e)"
proof -
  have "strings_Join (ws @ [e]) c = strings_Join ws c @ (if ws = [] then e else c # e)" for ws c
    by (induction ws c rule: strings_Join.induct) auto
  then show ?thesis by (simp add: rooted_def)
qed

text \<open>The elements kept are real ones, so only the empty list is written as a single slash.\<close>

definition real_elements :: "string list \<Rightarrow> bool" where
  "real_elements st \<longleftrightarrow> (\<forall>e \<in> set st. e \<noteq> [] \<and> CHR ''/'' \<notin> set e)"

lemma length_rooted: "real_elements st \<Longrightarrow> length (rooted st) > 1 \<longleftrightarrow> st \<noteq> []"
  by (cases st) (auto simp: rooted_Cons real_elements_def rooted_def [of "[]"])

lemma length_rooted_pos: "length (rooted st) \<ge> 1"
  by (simp add: rooted_def)

lemma back_rooted:
  assumes "view p w buf = rooted (e # st)" and "w \<le> room p buf" and "real_elements (e # st)"
  shows "back_to_slash (case buf of None \<Rightarrow> p | Some b \<Rightarrow> b) (w - 1) = Returns (length (rooted st))"
    and "view p (length (rooted st)) buf = rooted st"
proof -
  let ?b = "case buf of None \<Rightarrow> p | Some b \<Rightarrow> b" and ?l = "length (rooted st)"
  have w: "w = length (rooted (e # st))" "w \<le> length ?b" and t: "take w ?b = rooted (e # st)"
    using assms(1,2) by (auto simp: view_def room_def dest: arg_cong [where f = length])
  have e: "e \<noteq> []" "CHR ''/'' \<notin> set e" using assms(3) by (auto simp: real_elements_def)
  have at: "?b ! j = rooted (e # st) ! j" if "j < w" for j using t that by (metis nth_take)
  show "view p ?l buf = rooted st"
    using arg_cong [OF t, of "take ?l"] w by (auto simp: view_def rooted_Cons min_def split: if_splits)
  show "back_to_slash ?b (w - 1) = Returns ?l"
  proof (rule back_to_slash_stops)
    show "1 \<le> ?l" by (rule length_rooted_pos)
    show "?l \<le> w - 1" "w - 1 < length ?b" using w e by (auto simp: rooted_Cons neq_Nil_conv)
    show "?l = 1 \<or> ?b ! ?l = CHR ''/''"
      using at [of ?l] w by (cases "st = []") (auto simp: rooted_Cons rooted_def [of "[]"])
    fix j assume j: "?l < j" "j \<le> w - 1"
    then have "rooted (e # st) ! j \<in> set e"
      using w e by (auto simp: rooted_Cons nth_append nth_Cons' split: if_splits)
    then show "?b ! j \<noteq> CHR ''/''" using at [of j] j w e by (auto simp: rooted_Cons)
  qed
qed

text \<open>What the loop is left with: what it has written, the elements it stands for, and its room.\<close>

definition writes :: "string \<Rightarrow> nat \<Rightarrow> nat \<Rightarrow> string option \<Rightarrow> string list \<Rightarrow> bool" where
  "writes p k w buf st \<longleftrightarrow> view p w buf = rooted st \<and> w = length (rooted st) \<and> w \<le> room p buf \<and>
     real_elements st \<and> room p buf = k"

lemma writes_add:
  assumes "writes p k w buf st" and "e \<noteq> []" and "e = takeWhile (\<lambda>c. c \<noteq> CHR ''/'') (drop r p)"
    and "w + (if w > 1 then 1 else 0) + length e \<le> k"
  obtains buf1 buf' where "(if w > 1 then bufApp p w CHR ''/'' buf else Returns buf) = Returns buf1"
    and "copy_element p r (if w > 1 then w + 1 else w) buf1 =
      Returns (r + length e, w + (if w > 1 then 1 else 0) + length e, buf')"
    and "writes p k (w + (if w > 1 then 1 else 0) + length e) buf' (e # st)"
proof -
  have v: "view p w buf = rooted st" "w = length (rooted st)" "room p buf = k" "real_elements st"
    using assms(1) by (auto simp: writes_def)
  have st: "w > 1 \<longleftrightarrow> st \<noteq> []" using length_rooted [OF v(4)] v(2) by simp
  have real: "real_elements (e # st)"
    using v(4) assms(2,3) by (auto simp: real_elements_def dest: set_takeWhileD)
  obtain buf1 where b: "(if w > 1 then bufApp p w CHR ''/'' buf else Returns buf) = Returns buf1"
    "view p (if w > 1 then w + 1 else w) buf1 = rooted st @ (if w > 1 then ''/'' else [])" "room p buf1 = k"
  proof (cases "w > 1")
    case True
    then have "w < room p buf" using assms(2,4) v(3) by simp
    with True v that show ?thesis using bufApp_writes [of w p buf "CHR ''/''"] by auto
  qed (use v that in auto)
  obtain buf' where c: "copy_element p r (if w > 1 then w + 1 else w) buf1 =
      Returns (r + length e, (if w > 1 then w + 1 else w) + length e, buf')"
    "view p ((if w > 1 then w + 1 else w) + length e) buf' = view p (if w > 1 then w + 1 else w) buf1 @ e"
    "room p buf' = k"
    using copy_element_writes [of "if w > 1 then w + 1 else w" r p buf1, folded assms(3)] assms(4) b(3)
    by (auto split: if_splits)
  have "writes p k (w + (if w > 1 then 1 else 0) + length e) buf' (e # st)"
    using c b real st v(2) assms(4) by (auto simp: writes_def rooted_Cons split: if_splits)
  with b(1) c(1) that show ?thesis by auto
qed

lemma writes_pop:
  assumes "writes p k w buf st" and "w > 1"
  obtains w' where "back_to_slash (case buf of None \<Rightarrow> p | Some b \<Rightarrow> b) (w - 1) = Returns w'"
    and "writes p k w' buf (tl st)" and "w' \<le> w"
proof -
  from assms obtain e st' where st: "st = e # st'" using length_rooted by (cases st) (auto simp: writes_def)
  have w: "view p w buf = rooted (e # st')" "w \<le> room p buf" "real_elements (e # st')" "w = length (rooted (e # st'))"
    using assms(1) st by (auto simp: writes_def)
  have le: "length (rooted st') \<le> w" using w(4) by (simp add: rooted_Cons)
  show ?thesis
    using back_rooted [OF w(1-3)] assms(1) st le
    by (intro that [of "length (rooted st')"]) (auto simp: writes_def real_elements_def)
qed

text \<open>The next element of a path and the rest of it.\<close>

lemma split_next:
  assumes "e = takeWhile (\<lambda>c. c \<noteq> CHR ''/'') s"
  shows "fold add_element (strings_Split s CHR ''/'') st =
      fold add_element (strings_Split (drop (length e) s) CHR ''/'') (add_element e st)"
    and "drop (length e) s \<noteq> [] \<Longrightarrow>
      last (strings_Split s CHR ''/'') = last (strings_Split (drop (length e) s) CHR ''/'')"
    and "drop (length e) s = [] \<Longrightarrow> last (strings_Split s CHR ''/'') = e"
proof -
  have d: "drop (length e) s = dropWhile (\<lambda>c. c \<noteq> CHR ''/'') s" and ns: "CHR ''/'' \<notin> set e"
    by (auto simp: assms dropWhile_eq_drop dest: set_takeWhileD)
  have s: "s = e @ drop (length e) s" by (simp only: d) (simp add: assms)
  have *: "drop (length e) s = [] \<or> (\<exists>s'. drop (length e) s = CHR ''/'' # s')"
    by (cases "drop (length e) s") (auto simp: d dropWhile_eq_Cons_conv)
  from * show "fold add_element (strings_Split s CHR ''/'') st =
      fold add_element (strings_Split (drop (length e) s) CHR ''/'') (add_element e st)"
    by (subst (1) s) (auto simp: strings_Split_append [OF ns] strings_Split_single [OF ns])
  from * show "last (strings_Split s CHR ''/'') = last (strings_Split (drop (length e) s) CHR ''/'')"
    if "drop (length e) s \<noteq> []"
    using that by (subst (1) s) (auto simp: strings_Split_append [OF ns])
  show "last (strings_Split s CHR ''/'') = e" if "drop (length e) s = []"
    using that by (subst (1) s) (simp add: strings_Split_single [OF ns])
qed

text \<open>
  The invariant of the loop.  \<open>d\<close> is the room beyond the path; what is written stays behind what is
  read, and a path that ends with a slash leaves room for it.
\<close>

definition loop_inv :: "string \<Rightarrow> nat \<Rightarrow> bool \<Rightarrow> nat \<Rightarrow> nat \<Rightarrow> string option \<Rightarrow> string list \<Rightarrow> bool" where
  "loop_inv p d trailing r w buf st \<longleftrightarrow>
     writes p (length p + d) w buf st \<and> w \<le> r + d \<and>
     (r < length p \<and> p ! r \<noteq> CHR ''/'' \<and> w > 1 \<longrightarrow> w < r + d) \<and>
     (trailing \<longleftrightarrow> length p > 1 \<and> last p = CHR ''/'') \<and> (trailing \<longrightarrow> w < length p + d)"

text \<open>What the loop delivers for the elements that are left.\<close>

definition delivers :: "string \<Rightarrow> nat \<Rightarrow> bool \<Rightarrow> nat \<Rightarrow> (nat \<times> string option \<times> bool) run \<Rightarrow> string list \<Rightarrow> bool" where
  "delivers p d trailing r res st \<longleftrightarrow>
     (let es = strings_Split (drop r p) CHR ''/''; t = (trailing \<or> last es = ''.'')
      in \<exists>w' buf'. res = Returns (w', buf', t) \<and>
           writes p (length p + d) w' buf' (fold add_element es st) \<and> (t \<longrightarrow> w' < length p + d))"

text \<open>The suffixes of a path at a position inside it.\<close>

lemma drop_parts:
  "r < length p \<Longrightarrow> drop r p = p ! r # drop (Suc r) p"
  "Suc r < length p \<Longrightarrow> drop r p = p ! r # p ! Suc r # drop (r + 2) p"
  "r + 2 < length p \<Longrightarrow> drop r p = p ! r # p ! Suc r # p ! (r + 2) # drop (r + 3) p"
  using Cons_nth_drop_Suc [of "r + 2" p] by (simp_all add: Cons_nth_drop_Suc eval_nat_numeral)

text \<open>The step of the loop at \<open>..\<close>.\<close>

lemma step_up:
  assumes "loop_inv p d trailing r w buf st" and "p ! r = CHR ''.''" and "Suc r < length p" and "p ! Suc r = CHR ''.''"
    and "r + 2 = length p \<or> p ! (r + 2) = CHR ''/''"
  obtains w' where "clean_loop p r w buf trailing = clean_loop p (r + 3) w' buf trailing"
    and "loop_inv p d trailing (r + 3) w' buf (tl st)"
    and "\<And>res. delivers p d trailing (r + 3) res (tl st) \<Longrightarrow> delivers p d trailing r res st"
proof -
  note step = clean_loop.simps [of p r w buf trailing]
  have wr: "writes p (length p + d) w buf st" using assms(1) by (simp add: loop_inv_def)
  obtain w' where w': "writes p (length p + d) w' buf (tl st)" "w' \<le> w"
    "clean_loop p r w buf trailing = clean_loop p (r + 3) w' buf trailing"
  proof (cases "w > 1")
    case True
    from writes_pop [OF wr this] obtain w' where
      "back_to_slash (case buf of None \<Rightarrow> p | Some b \<Rightarrow> b) (w - 1) = Returns w'"
      "writes p (length p + d) w' buf (tl st)" "w' \<le> w" .
    then show ?thesis by (intro that [of w']) (use step assms True in simp_all)
  next
    case False
    then have "st = []" using wr length_rooted by (fastforce simp: writes_def)
    with that False step assms wr show ?thesis by auto
  qed
  have "drop r p = ''..'' \<and> drop (r + 3) p = [] \<or> drop r p = ''../'' @ drop (r + 3) p"
    using assms(2-5) drop_parts(2,3) [of r p] by (cases "r + 2 = length p") auto
  then have "delivers p d trailing r res st" if "delivers p d trailing (r + 3) res (tl st)" for res
    using that by (auto simp: delivers_def Let_def)
  with w' assms(1) show ?thesis by (intro that [of w']) (auto simp: loop_inv_def)
qed

text \<open>The element at a position: what follows it, and that it stops before a slash at the end.\<close>

lemma element_at:
  assumes "r < length p" and "e = takeWhile (\<lambda>c. c \<noteq> CHR ''/'') (drop r p)"
  shows "r + length e \<le> length p"
    and "r + length e < length p \<Longrightarrow> p ! (r + length e) = CHR ''/''"
    and "last p = CHR ''/'' \<Longrightarrow> r + length e < length p"
proof -
  have "length e \<le> length (drop r p)" unfolding assms(2) by (rule length_takeWhile_le)
  then show le: "r + length e \<le> length p" using assms(1) by simp
  show "p ! (r + length e) = CHR ''/''" if "r + length e < length p"
    using nth_length_takeWhile [of "\<lambda>c. c \<noteq> CHR ''/''" "drop r p"] that by (simp add: assms(2) add.commute)
  show "r + length e < length p" if "last p = CHR ''/''"
  proof (rule ccontr)
    assume "\<not> r + length e < length p"
    then have "length e = length (drop r p)" using le by simp
    then have "e = drop r p" by (metis assms(2) takeWhile_eq_take take_all order_refl)
    then have "CHR ''/'' \<notin> set (drop r p)" by (metis assms(2) set_takeWhileD)
    moreover have "last (drop r p) \<in> set (drop r p)" using assms(1) by (intro last_in_set) simp
    ultimately show False using that assms(1) by (metis last_drop)
  qed
qed

text \<open>The step of the loop at a real element.\<close>

lemma step_element:
  assumes "loop_inv p d trailing r w buf st" and "r < length p" and "p ! r \<noteq> CHR ''/''"
    and "\<not> (p ! r = CHR ''.'' \<and> Suc r = length p)" and "\<not> (p ! r = CHR ''.'' \<and> p ! Suc r = CHR ''/'')"
    and "\<not> (p ! r = CHR ''.'' \<and> p ! Suc r = CHR ''.'' \<and> (r + 2 = length p \<or> p ! (r + 2) = CHR ''/''))"
  obtains e w' buf' where "clean_loop p r w buf trailing = clean_loop p (r + length e) w' buf' trailing" and "e \<noteq> []"
    and "loop_inv p d trailing (r + length e) w' buf' (e # st)"
    and "\<And>res. delivers p d trailing (r + length e) res (e # st) \<Longrightarrow> delivers p d trailing r res st"
proof -
  define e where "e = takeWhile (\<lambda>c. c \<noteq> CHR ''/'') (drop r p)"
  note nx = split_next [OF e_def] and at = element_at [OF assms(2) e_def]
  have inv: "writes p (length p + d) w buf st" "w \<le> r + d" "w > 1 \<Longrightarrow> w < r + d"
    "trailing \<Longrightarrow> last p = CHR ''/''" "trailing \<longleftrightarrow> length p > 1 \<and> last p = CHR ''/''"
    using assms(1-3) by (auto simp: loop_inv_def)
  have e: "e \<noteq> []" "e \<noteq> ''.''" "e \<noteq> ''..''"
    using assms(2-6) drop_parts [of r p] by (auto simp: e_def takeWhile_eq_Nil_iff split: if_splits)
  let ?w = "w + (if w > 1 then 1 else 0) + length e"
  have w: "?w \<le> r + length e + d" using inv(2,3) by auto
  then have "?w \<le> length p + d" using at(1) by simp
  from writes_add [OF inv(1) e(1) e_def this] obtain buf1 buf' where
    b: "(if w > 1 then bufApp p w CHR ''/'' buf else Returns buf) = Returns buf1"
    "copy_element p r (if w > 1 then w + 1 else w) buf1 = Returns (r + length e, ?w, buf')"
    and wr: "writes p (length p + d) ?w buf' (e # st)" .
  have "clean_loop p r w buf trailing = clean_loop p (r + length e) ?w buf' trailing"
    unfolding clean_loop.simps [of p r w buf trailing] using assms(2-6) b by (auto simp: Let_def)
  moreover have "loop_inv p d trailing (r + length e) ?w buf' (e # st)"
    using wr w at(2,3) inv(4,5) by (auto simp: loop_inv_def)
  moreover have "last (strings_Split (drop (r + length e) p) CHR ''/'') = ''.'' \<longleftrightarrow>
      last (strings_Split (drop r p) CHR ''/'') = ''.''"
    using nx(2,3) e(2) at(1) by (cases "length p \<le> r + length e") (auto simp: add.commute)
  then have "delivers p d trailing r res st" if "delivers p d trailing (r + length e) res (e # st)" for res
    using that nx(1) [of st] e by (simp add: delivers_def Let_def add.commute)
  ultimately show ?thesis using e(1) that by blast
qed

text \<open>The loop never panics and delivers the elements.\<close>

lemma clean_loop_elements:
  "loop_inv p d trailing r w buf st \<Longrightarrow> delivers p d trailing r (clean_loop p r w buf trailing) st"
proof (induction "length p - r" arbitrary: r w buf st rule: less_induct)
  case less
  note step = clean_loop.simps [of p r w buf trailing] and dp = drop_parts [of r p]
  consider (stop) "\<not> r < length p" | (slash) "r < length p" "p ! r = CHR ''/''"
    | (dot_end) "p ! r = CHR ''.''" "Suc r = length p"
    | (dot) "p ! r = CHR ''.''" "Suc r < length p" "p ! Suc r = CHR ''/''"
    | (up) "p ! r = CHR ''.''" "Suc r < length p" "p ! Suc r = CHR ''.''" "r + 2 = length p \<or> p ! (r + 2) = CHR ''/''"
    | (element) "r < length p" "p ! r \<noteq> CHR ''/''" "\<not> (p ! r = CHR ''.'' \<and> Suc r = length p)"
        "\<not> (p ! r = CHR ''.'' \<and> p ! Suc r = CHR ''/'')"
        "\<not> (p ! r = CHR ''.'' \<and> p ! Suc r = CHR ''.'' \<and> (r + 2 = length p \<or> p ! (r + 2) = CHR ''/''))"
    by (metis Suc_lessI)
  then show ?case
  proof cases
    case stop
    with less.prems step show ?thesis by (auto simp: delivers_def loop_inv_def)
  next
    case slash
    then show ?thesis using less.hyps [of "r + 1" w buf st] less.prems step dp(1)
      by (simp add: loop_inv_def delivers_def Let_def)
  next
    case dot_end
    then show ?thesis
      using less.prems step clean_loop.simps [of p "Suc r" w buf True] dp(1) by (auto simp: loop_inv_def delivers_def)
  next
    case dot
    then show ?thesis using less.hyps [of "r + 2" w buf st] less.prems step dp(2)
      by (simp add: loop_inv_def delivers_def Let_def)
  next
    case up
    from step_up [OF less.prems this] less.hyps up(2) show ?thesis
      by (metis diff_less_mono2 less_add_same_cancel1 Suc_lessD zero_less_numeral)
  next
    case element
    from step_element [OF less.prems this] less.hyps element(1) show ?thesis
      by (metis diff_less_mono2 less_add_same_cancel1 length_greater_0_conv)
  qed
qed

lemma last_split_Nil: "last (strings_Split p c) = [] \<longleftrightarrow> p = [] \<or> last p = c"
proof (induction p)
  case (Cons a p)
  have "strings_Split p c = [[]] \<Longrightarrow> p = []" using strings_Join_Split [of p c] by simp
  with Cons show ?case by (auto split: list.splits)
qed simp

text \<open>At the end of the loop a slash is put back if the path ended with one or with \<open>.\<close>.\<close>

lemma clean_finish:
  assumes "clean_loop p r 1 buf t = Returns (w, buf1, trailing)" and "writes p k w buf1 st"
    and "trailing \<Longrightarrow> w < k"
  shows "(case (if trailing \<and> w > 1 then bufApp p w CHR ''/'' buf1 else Returns buf1) of
      Panics \<Rightarrow> Panics
    | Returns buf2 \<Rightarrow> Returns (view p (if trailing \<and> w > 1 then w + 1 else w) buf2)) =
    Returns (rooted st @ (if trailing \<and> st \<noteq> [] then ''/'' else []))"
proof -
  have v: "view p w buf1 = rooted st" "w > 1 \<longleftrightarrow> st \<noteq> []" "room p buf1 = k"
    using assms(2) length_rooted [of st] by (auto simp: writes_def)
  show ?thesis
  proof (cases "trailing \<and> w > 1")
    case True
    then have "w < room p buf1" using assms(3) v(3) by simp
    from bufApp_writes [OF this, of "CHR ''/''"] obtain buf2 where
      "bufApp p w CHR ''/'' buf1 = Returns buf2" "view p (Suc w) buf2 = view p w buf1 @ ''/''" .
    with True v show ?thesis by simp
  qed (use v in auto)
qed

lemma cleanPath_eq: "cleanPath p = Returns (clean_elements p)"
proof (cases "p = []")
  case True
  then show ?thesis by (simp add: cleanPath_def clean_elements_def rooted_def)
next
  case False
  define t where "t \<longleftrightarrow> length p > 1 \<and> last p = CHR ''/''"
  define r d :: nat where "r = (if p ! 0 \<noteq> CHR ''/'' then 0 else 1)" and "d = (if p ! 0 \<noteq> CHR ''/'' then 1 else 0)"
  define buf where "buf = (if p ! 0 \<noteq> CHR ''/'' then Some (CHR ''/'' # replicate (length p) (CHR 0x00)) else None)"
  define es where "es = strings_Split p CHR ''/''"
  have w0: "writes p (length p + d) 1 buf []" and rd: "1 \<le> r + d"
    using False by (cases p; simp add: writes_def view_def room_def rooted_def real_elements_def buf_def d_def r_def)+
  have rest: "fold add_element (strings_Split (drop r p) CHR ''/'') [] = fold add_element es []"
    "last (strings_Split (drop r p) CHR ''/'') = last es"
    using False by (cases p; simp add: r_def es_def)+
  have "loop_inv p d t r 1 buf []" using w0 rd t_def by (auto simp: loop_inv_def)
  from clean_loop_elements [OF this]
  obtain w buf1 where l: "clean_loop p r 1 buf t = Returns (w, buf1, t \<or> last es = ''.'')"
    and wr: "writes p (length p + d) w buf1 (fold add_element es [])"
    and lt: "t \<or> last es = ''.'' \<Longrightarrow> w < length p + d"
    unfolding delivers_def Let_def rest by blast
  have "last es = [] \<longleftrightarrow> p = [] \<or> last p = CHR ''/''"
    unfolding es_def by (rule last_split_Nil)
  then have tr: "(t \<or> last es = ''.'') \<and> fold add_element es [] \<noteq> [] \<longleftrightarrow>
      last es \<in> {[], ''.''} \<and> fold add_element es [] \<noteq> []"
    using False by (cases p; cases "tl p") (auto simp: t_def es_def split: if_splits)
  have "cleanPath p = (case (if (t \<or> last es = ''.'') \<and> w > 1 then bufApp p w CHR ''/'' buf1 else Returns buf1) of
      Panics \<Rightarrow> Panics
    | Returns buf2 \<Rightarrow> Returns (view p (if (t \<or> last es = ''.'') \<and> w > 1 then w + 1 else w) buf2))"
    using False l unfolding cleanPath_def Let_def
    by (simp only: if_False last_conv_nth [OF False, symmetric] t_def [symmetric] r_def [symmetric] buf_def [symmetric]
        run.case prod.case view_def)
  also have "\<dots> = Returns (rooted (fold add_element es []) @
      (if (t \<or> last es = ''.'') \<and> fold add_element es [] \<noteq> [] then ''/'' else []))"
    by (rule clean_finish [OF l wr lt])
  finally show ?thesis unfolding tr by (simp only: clean_elements_def Let_def es_def)
qed

text \<open>A cleaned path is clean.\<close>

lemma fold_add_element_proper:
  "list_all (\<lambda>e. e \<notin> {[], ''.'', ''..''}) st \<Longrightarrow> list_all (\<lambda>e. e \<notin> {[], ''.'', ''..''}) (fold add_element es st)"
proof (induction es arbitrary: st)
  case (Cons e es)
  have "list_all (\<lambda>e. e \<notin> {[], ''.'', ''..''}) (add_element e st)" using Cons.prems by (cases st) auto
  from Cons.IH [OF this] show ?case by (simp del: add_element.simps)
qed simp

lemma fold_add_element_set: "set (fold add_element es st) \<subseteq> set es \<union> set st"
proof (induction es arbitrary: st)
  case (Cons e es)
  have "set (add_element e st) \<subseteq> insert e (set st)" by (cases st) auto
  with Cons.IH [of "add_element e st"] show ?case by (auto simp del: add_element.simps)
qed simp

lemma fold_add_element_keep:
  "list_all (\<lambda>e. e \<notin> {[], ''.'', ''..''}) es \<Longrightarrow> fold add_element es st = rev es @ st"
  by (induction es arbitrary: st) auto

lemma clean_elements_idem: "clean_elements (clean_elements p) = clean_elements p"
proof -
  define es st where "es = strings_Split p CHR ''/''" and "st = fold add_element es []"
  have proper: "list_all (\<lambda>e. e \<notin> {[], ''.'', ''..''}) st" unfolding st_def by (rule fold_add_element_proper) simp
  have ns: "CHR ''/'' \<notin> set e" if "e \<in> set st" for e
    using that fold_add_element_set [of es "[]"] strings_Split_no_sep [of e p] by (auto simp: st_def es_def)
  have cp: "clean_elements p = rooted st @ (if last es \<in> {[], ''.''} \<and> st \<noteq> [] then ''/'' else [])"
    by (simp add: clean_elements_def Let_def es_def st_def)
  show ?thesis
  proof (cases "st = []")
    case True
    then show ?thesis unfolding cp by (simp add: clean_elements_def rooted_def)
  next
    case False
    have join: "strings_Split (strings_Join (rev st @ ws) CHR ''/'') CHR ''/'' = rev st @ ws"
      if "\<forall>w \<in> set ws. CHR ''/'' \<notin> set w" for ws
      using False ns that by (intro strings_Split_Join) auto
    have slash: "strings_Join (rev st @ [[]]) CHR ''/'' = strings_Join (rev st) CHR ''/'' @ ''/''"
    proof -
      have "ws \<noteq> [] \<Longrightarrow> strings_Join (ws @ [[]]) c = strings_Join ws c @ [c]" for ws c
        by (induction ws c rule: strings_Join.induct) auto
      then show ?thesis using False by simp
    qed
    have keep: "fold add_element (rev st) [] = st" using proper by (simp add: fold_add_element_keep list_all_iff)
    have hd: "hd st \<notin> {[], ''.''}" using proper False by (cases st) auto
    show ?thesis
      unfolding cp using join [of "[]"] join [of "[[]]"] slash keep hd False
      by (auto simp: clean_elements_def Let_def rooted_def last_rev)
  qed
qed

section \<open>Properties\<close>

text \<open>
  C38. The cleaning of a request path never reads or writes out of range, and the byte loop gives what
  its comment promises: the elements of the path without empty ones and \<open>.\<close>, each \<open>..\<close> taking back
  the element before it and never leaving the root, with a slash at the end if the path ended with a
  slash or \<open>.\<close>.  Cleaning once is enough.
\<close>

theorem cleanPath_elements:
  "cleanPath p = Returns (clean_elements p) \<and> cleanPath (clean_elements p) = Returns (clean_elements p)"
  by (simp add: cleanPath_eq clean_elements_idem)

end
