(* ===== verification/Gin_Router.thy ===== *)
theory Gin_Router
  imports Gin_Tree Gin_Path "HOL-Library.AList"
begin

text \<open>
  The engine of the HTTP framework (\<open>src/vender/src/github.com/gin-gonic/gin\<close>, \<open>gin.go\<close>,
  \<open>routergroup.go\<close>, \<open>utils.go\<close>): one routing tree per HTTP method, the registration of handlers and
  the choice of the handlers for a request.  \<open>'h\<close> is the type of handler functions; what a chain of
  handlers does when it is run is not part of the router.
\<close>

section \<open>Paths\<close>

text \<open>\<open>path.Clean\<close> and \<open>path.Join\<close> of the Go library, by their documented rules.\<close>

fun add_relative :: "string \<Rightarrow> string list \<Rightarrow> string list" where
  "add_relative e st =
     (if e = [] \<or> e = ''.'' then st
      else if e = ''..'' then (if st = [] \<or> hd st = ''..'' then e # st else tl st)
      else e # st)"

definition path_Clean :: "string \<Rightarrow> string" where
  "path_Clean p =
     (let es = strings_Split p CHR ''/''
      in if p \<noteq> [] \<and> hd p = CHR ''/'' then rooted (fold add_element es [])
         else let st = fold add_relative es []
              in if st = [] then ''.'' else strings_Join (rev st) CHR ''/'')"

definition path_Join :: "string list \<Rightarrow> string" where
  "path_Join es =
     (case dropWhile (\<lambda>e. e = []) es of [] \<Rightarrow> [] | es' \<Rightarrow> path_Clean (strings_Join es' CHR ''/''))"

definition lastChar :: "string \<Rightarrow> char run" where
  "lastChar s = (if s = [] then Panics else Returns (last s))"

definition joinPaths :: "string \<Rightarrow> string \<Rightarrow> string run" where
  "joinPaths absolutePath relativePath =
     (if relativePath = [] then Returns absolutePath
      else
        let finalPath = path_Join [absolutePath, relativePath]
        in case lastChar relativePath of
             Panics \<Rightarrow> Panics
           | Returns c \<Rightarrow>
               if c = CHR ''/'' then
                 (case lastChar finalPath of
                    Panics \<Rightarrow> Panics
                  | Returns d \<Rightarrow> Returns (if d \<noteq> CHR ''/'' then finalPath @ ''/'' else finalPath))
               else Returns finalPath)"

section \<open>The engine\<close>

record 'h Engine =
  Handlers :: "'h list"
  basePath :: string
  RedirectTrailingSlash :: bool
  RedirectFixedPath :: bool
  HandleMethodNotAllowed :: bool
  UseRawPath :: bool
  UnescapePathValues :: bool
  allNoRoute :: "'h list"
  allNoMethod :: "'h list"
  noRoute :: "'h list"
  noMethod :: "'h list"
  trees :: "(string \<times> 'h list node) list"

definition New_engine :: "'h Engine" where
  "New_engine =
     \<lparr>Handlers = [], basePath = ''/'', RedirectTrailingSlash = True, RedirectFixedPath = False,
      HandleMethodNotAllowed = False, UseRawPath = False, UnescapePathValues = True, allNoRoute = [],
      allNoMethod = [], noRoute = [], noMethod = [], trees = []\<rparr>"

definition abortIndex :: nat where "abortIndex = 63"

definition combineHandlers :: "'h list \<Rightarrow> 'h Engine \<Rightarrow> 'h list run" where
  "combineHandlers hs e =
     (if length (Handlers e) + length hs \<ge> abortIndex then Panics else Returns (Handlers e @ hs))"

definition rebuild404Handlers :: "'h Engine \<Rightarrow> 'h Engine run" where
  "rebuild404Handlers e =
     (case combineHandlers (noRoute e) e of Panics \<Rightarrow> Panics | Returns hs \<Rightarrow> Returns (e\<lparr>allNoRoute := hs\<rparr>))"

definition rebuild405Handlers :: "'h Engine \<Rightarrow> 'h Engine run" where
  "rebuild405Handlers e =
     (case combineHandlers (noMethod e) e of Panics \<Rightarrow> Panics | Returns hs \<Rightarrow> Returns (e\<lparr>allNoMethod := hs\<rparr>))"

definition Use :: "'h list \<Rightarrow> 'h Engine \<Rightarrow> 'h Engine run" where
  "Use middleware e =
     (case rebuild404Handlers (e\<lparr>Handlers := Handlers e @ middleware\<rparr>) of
        Panics \<Rightarrow> Panics
      | Returns e1 \<Rightarrow> rebuild405Handlers e1)"

text \<open>\<open>logger\<close> and \<open>recovery\<close> are the middleware functions \<open>Logger()\<close> and \<open>Recovery()\<close> return.\<close>

definition Default :: "'h \<Rightarrow> 'h \<Rightarrow> 'h Engine run" where
  "Default logger recovery = Use [logger, recovery] New_engine"

fun trees_get :: "(string \<times> 'n) list \<Rightarrow> string \<Rightarrow> 'n option" where
  "trees_get [] method = None"
| "trees_get ((m, root) # ts) method = (if m = method then Some root else trees_get ts method)"

definition new_root :: "'h node" where
  "new_root = Node (new_node\<lparr>fullPath := ''/''\<rparr>) []"

definition engine_addRoute :: "string \<Rightarrow> string \<Rightarrow> 'h list \<Rightarrow> 'h Engine \<Rightarrow> 'h Engine run option" where
  "engine_addRoute method p hs e =
     (if p = [] \<or> p ! 0 \<noteq> CHR ''/'' then Some Panics
      else if method = [] then Some Panics
      else if hs = [] then Some Panics
      else
        let root = (case trees_get (trees e) method of None \<Rightarrow> new_root | Some root \<Rightarrow> root)
        in map_option (\<lambda>r. case r of Panics \<Rightarrow> Panics
             | Returns root' \<Rightarrow> Returns (e\<lparr>trees := AList.update method root' (trees e)\<rparr>)) (addRoute p hs root))"

definition handle :: "string \<Rightarrow> string \<Rightarrow> 'h list \<Rightarrow> 'h Engine \<Rightarrow> 'h Engine run option" where
  "handle httpMethod relativePath hs e =
     (case joinPaths (basePath e) relativePath of
        Panics \<Rightarrow> Some Panics
      | Returns absolutePath \<Rightarrow>
          (case combineHandlers hs e of
             Panics \<Rightarrow> Some Panics
           | Returns merged \<Rightarrow> engine_addRoute httpMethod absolutePath merged e))"

definition POST :: "string \<Rightarrow> 'h list \<Rightarrow> 'h Engine \<Rightarrow> 'h Engine run option" where
  "POST relativePath hs e = handle ''POST'' relativePath hs e"

definition GET :: "string \<Rightarrow> 'h list \<Rightarrow> 'h Engine \<Rightarrow> 'h Engine run option" where
  "GET relativePath hs e = handle ''GET'' relativePath hs e"

section \<open>Requests\<close>

record Request =
  req_Method :: string
  url_Path :: string
  url_RawPath :: string
  X_Forwarded_Prefix :: string

text \<open>
  What becomes of a request: a chain of handlers is run with the values of the wildcards, the client
  is redirected, or an error status is served by a chain of handlers.
\<close>

datatype 'h outcome =
    Serve "'h list" "(string \<times> string) list" string
  | Redirect int string
  | ServeError int "'h list"

definition redirect_code :: "Request \<Rightarrow> int" where
  "redirect_code req = (if req_Method req \<noteq> ''GET'' then 307 else 301)"

definition redirectTrailingSlash :: "Request \<Rightarrow> 'h outcome" where
  "redirectTrailingSlash req =
     (let prefix = path_Clean (X_Forwarded_Prefix req);
          p = (if prefix \<noteq> ''.'' then prefix @ ''/'' @ url_Path req else url_Path req)
      in Redirect (redirect_code req)
           (if length p > 1 \<and> p ! (length p - 1) = CHR ''/'' then take (length p - 1) p else p @ ''/''))"

text \<open>\<open>ci\<close> stands for \<open>findCaseInsensitivePath\<close>, which is used only when \<open>RedirectFixedPath\<close> is on.\<close>

definition redirectFixedPath ::
    "('n \<Rightarrow> string \<Rightarrow> bool \<Rightarrow> string option) \<Rightarrow> Request \<Rightarrow> 'n \<Rightarrow> bool \<Rightarrow> 'h outcome option run" where
  "redirectFixedPath ci req root trailingSlash =
     (case cleanPath (url_Path req) of
        Panics \<Rightarrow> Panics
      | Returns p \<Rightarrow> Returns (map_option (Redirect (redirect_code req)) (ci root p trailingSlash)))"

definition no_value :: "nat \<Rightarrow> 'h nodeValue" where
  "no_value n = \<lparr>v_handlers = None, v_params = [], v_cap = n, v_tsr = False, v_fullPath = []\<rparr>"

text \<open>The loop that asks the trees of the other methods.\<close>

fun method_allowed :: "bool \<Rightarrow> string \<Rightarrow> string \<Rightarrow> (string \<times> 'h node) list \<Rightarrow> bool run" where
  "method_allowed unescape httpMethod rPath [] = Returns False"
| "method_allowed unescape httpMethod rPath ((m, root) # ts) =
     (if m = httpMethod then method_allowed unescape httpMethod rPath ts
      else case getValue unescape root rPath (no_value 0) of
             Panics \<Rightarrow> Panics
           | Returns v \<Rightarrow>
               if v_handlers v \<noteq> None then Returns True else method_allowed unescape httpMethod rPath ts)"

definition not_served :: "'h Engine \<Rightarrow> bool \<Rightarrow> string \<Rightarrow> string \<Rightarrow> 'h outcome run" where
  "not_served e unescape httpMethod rPath =
     (case (if HandleMethodNotAllowed e then method_allowed unescape httpMethod rPath (trees e) else Returns False) of
        Panics \<Rightarrow> Panics
      | Returns b \<Rightarrow> Returns (if b then ServeError 405 (allNoMethod e) else ServeError 404 (allNoRoute e)))"

text \<open>\<open>cap\<close> is the capacity of the slice of parameters in the context taken from the pool.\<close>

definition handleHTTPRequest ::
    "('h list node \<Rightarrow> string \<Rightarrow> bool \<Rightarrow> string option) \<Rightarrow> nat \<Rightarrow> 'h Engine \<Rightarrow> Request \<Rightarrow> 'h outcome run" where
  "handleHTTPRequest ci cap e req =
     (let raw = UseRawPath e \<and> url_RawPath req \<noteq> [];
          unescape = (raw \<and> UnescapePathValues e)
      in case cleanPath (if raw then url_RawPath req else url_Path req) of
           Panics \<Rightarrow> Panics
         | Returns rPath \<Rightarrow>
             (case trees_get (trees e) (req_Method req) of
                None \<Rightarrow> not_served e unescape (req_Method req) rPath
              | Some root \<Rightarrow>
                  (case getValue unescape root rPath (no_value cap) of
                     Panics \<Rightarrow> Panics
                   | Returns v \<Rightarrow>
                       (case v_handlers v of
                          Some hs \<Rightarrow> Returns (Serve hs (v_params v) (v_fullPath v))
                        | None \<Rightarrow>
                            if req_Method req \<noteq> ''CONNECT'' \<and> rPath \<noteq> ''/'' then
                              if v_tsr v \<and> RedirectTrailingSlash e then Returns (redirectTrailingSlash req)
                              else if RedirectFixedPath e then
                                (case redirectFixedPath ci req root (RedirectFixedPath e) of
                                   Panics \<Rightarrow> Panics
                                 | Returns (Some out) \<Rightarrow> Returns out
                                 | Returns None \<Rightarrow> not_served e unescape (req_Method req) rPath)
                              else not_served e unescape (req_Method req) rPath
                            else not_served e unescape (req_Method req) rPath))))"

section \<open>Tables of routes\<close>

text \<open>Registering a list of routes, with the operation \<open>add\<close> of a table.\<close>

fun add_routes :: "('k \<Rightarrow> 'v \<Rightarrow> 't \<Rightarrow> 't run option) \<Rightarrow> ('k \<times> 'v) list \<Rightarrow> 't \<Rightarrow> 't run option" where
  "add_routes add [] t = Some (Returns t)"
| "add_routes add ((k, v) # rs) t =
     (case add k v t of
        None \<Rightarrow> None
      | Some Panics \<Rightarrow> Some Panics
      | Some (Returns t') \<Rightarrow> add_routes add rs t')"

text \<open>
  What a table of routes promises: adding a route extends the routes by it, or panics when there is
  one for the key; a lookup answers from the routes.
\<close>

locale route_table =
  fixes ok :: "'t \<Rightarrow> bool" and table :: "'t \<Rightarrow> ('k \<times> 'v) set" and good :: "'k \<Rightarrow> 'v \<Rightarrow> bool"
    and add :: "'k \<Rightarrow> 'v \<Rightarrow> 't \<Rightarrow> 't run option" and look :: "'t \<Rightarrow> 'k \<Rightarrow> 'v option run"
  assumes add_taken: "ok t \<Longrightarrow> good k v \<Longrightarrow> k \<in> fst ` table t \<Longrightarrow> add k v t = Some Panics"
    and add_free: "ok t \<Longrightarrow> good k v \<Longrightarrow> k \<notin> fst ` table t \<Longrightarrow>
      \<exists>t'. add k v t = Some (Returns t') \<and> ok t' \<and> table t' = insert (k, v) (table t)"
    and look_table: "ok t \<Longrightarrow> \<exists>r. look t k = Returns r \<and> (\<forall>v. r = Some v \<longleftrightarrow> (k, v) \<in> table t)"
begin

lemma add_routes_free:
  assumes "ok t" and "list_all (\<lambda>(k, v). good k v) rs" and "distinct (map fst rs)"
    and "fst ` set rs \<inter> fst ` table t = {}"
  shows "\<exists>t'. add_routes add rs t = Some (Returns t') \<and> ok t' \<and> table t' = set rs \<union> table t"
  using assms
proof (induction rs arbitrary: t)
  case (Cons kv rs)
  obtain k v where kv: "kv = (k, v)" by fastforce
  obtain t' where "add k v t = Some (Returns t')" "ok t'" "table t' = insert (k, v) (table t)"
    using add_free [of t k v] Cons.prems kv by auto
  moreover from this have "fst ` set rs \<inter> fst ` table t' = {}" using Cons.prems(3,4) kv by auto
  ultimately show ?case using Cons.IH [of t'] Cons.prems(2,3) kv by auto
qed simp

lemma add_routes_taken:
  assumes "ok t" and "list_all (\<lambda>(k, v). good k v) rs"
    and "\<not> (distinct (map fst rs) \<and> fst ` set rs \<inter> fst ` table t = {})"
  shows "add_routes add rs t = Some Panics"
  using assms
proof (induction rs arbitrary: t)
  case (Cons kv rs)
  obtain k v where kv: "kv = (k, v)" by fastforce
  show ?case
  proof (cases "k \<in> fst ` table t")
    case True
    then show ?thesis using add_taken [of t k v] Cons.prems kv by auto
  next
    case False
    then obtain t' where "add k v t = Some (Returns t')" "ok t'" "table t' = insert (k, v) (table t)"
      using add_free [of t k v] Cons.prems kv by auto
    moreover from this have "add_routes add rs t' = Some Panics"
      using Cons.IH [of t'] Cons.prems kv False by auto
    ultimately show ?thesis by (simp add: kv)
  qed
qed simp

text \<open>From an empty table: all routes are found if no key occurs twice, otherwise the program stops.\<close>

lemma add_routes_look:
  assumes "ok t" and "table t = {}" and "list_all (\<lambda>(k, v). good k v) rs"
  shows "if distinct (map fst rs)
    then \<exists>t'. add_routes add rs t = Some (Returns t') \<and> ok t' \<and> table t' = set rs \<and>
      (\<forall>k. look t' k = Returns (map_of rs k))
    else add_routes add rs t = Some Panics"
proof (cases "distinct (map fst rs)")
  case True
  obtain t' where t': "add_routes add rs t = Some (Returns t')" "ok t'" "table t' = set rs"
    using add_routes_free [OF assms(1,3) True] assms(2) by auto
  have "look t' k = Returns (map_of rs k)" for k
  proof -
    obtain r where r: "look t' k = Returns r" "\<And>v. r = Some v \<longleftrightarrow> (k, v) \<in> set rs"
      using look_table [OF t'(2), of k] t'(3) by auto
    then have "r = Some v \<longleftrightarrow> map_of rs k = Some v" for v using True by simp
    then have "r = map_of rs k" by (metis not_Some_eq)
    with r(1) show ?thesis by simp
  qed
  with t' True show ?thesis by auto
next
  case False
  with add_routes_taken [OF assms(1,3)] show ?thesis by simp
qed

end

section \<open>The trees and the engine as tables\<close>

definition tree_look :: "'h node \<Rightarrow> string \<Rightarrow> 'h option run" where
  "tree_look n p = (case getValue False n p (no_value 0) of Panics \<Rightarrow> Panics | Returns v \<Rightarrow> Returns (v_handlers v))"

definition good_path :: "string \<Rightarrow> bool" where
  "good_path p \<longleftrightarrow> p \<noteq> [] \<and> p ! 0 = CHR ''/'' \<and> no_wildcard p"

interpretation tree_table: route_table router_tree routes_of "\<lambda>p h. good_path p" addRoute tree_look
proof
  fix n :: "'h node" and p and h :: 'h
  assume n: "router_tree n"
  show "\<exists>r. tree_look n p = Returns r \<and> (\<forall>v. r = Some v \<longleftrightarrow> (p, v) \<in> routes_of n)"
    using getValue_static [of n "no_value 0" False p] n by (auto simp: router_tree_def tree_look_def no_value_def)
  assume p: "good_path p"
  note a = addRoute_static [OF n, of p h]
  show "p \<in> fst ` routes_of n \<Longrightarrow> addRoute p h n = Some Panics"
    using a p by (force simp: good_path_def split: if_splits)
  show "p \<notin> fst ` routes_of n \<Longrightarrow>
      \<exists>n'. addRoute p h n = Some (Returns n') \<and> router_tree n' \<and> routes_of n' = insert (p, h) (routes_of n)"
    using a p by (force simp: good_path_def split: if_splits)
qed

lemma trees_get_map_of: "trees_get ts m = map_of ts m"
  by (induction ts m rule: trees_get.induct) auto

text \<open>An engine with well-formed trees and the settings of \<open>b\<close>.\<close>

definition engine_ok :: "'h Engine \<Rightarrow> 'h Engine \<Rightarrow> bool" where
  "engine_ok b e \<longleftrightarrow> e\<lparr>trees := []\<rparr> = b\<lparr>trees := []\<rparr> \<and> (\<forall>(m, root) \<in> set (trees e). router_tree root)"

text \<open>Such an engine agrees with \<open>b\<close> on every field but the trees.\<close>

lemma engine_ok_field:
  assumes "engine_ok b e" and "\<And>e. f (e\<lparr>trees := []\<rparr>) = f e"
  shows "f e = f b"
  using assms unfolding engine_ok_def by metis

definition engine_routes :: "'h Engine \<Rightarrow> ((string \<times> string) \<times> 'h list) set" where
  "engine_routes e =
     {((m, p), hs) | m p hs. \<exists>root. trees_get (trees e) m = Some root \<and> (p, hs) \<in> routes_of root}"

definition good_route :: "string \<times> string \<Rightarrow> 'h list \<Rightarrow> bool" where
  "good_route mp hs \<longleftrightarrow> fst mp \<noteq> [] \<and> good_path (snd mp) \<and> hs \<noteq> []"

definition engine_add :: "string \<times> string \<Rightarrow> 'h list \<Rightarrow> 'h Engine \<Rightarrow> 'h Engine run option" where
  "engine_add mp hs e = engine_addRoute (fst mp) (snd mp) hs e"

definition engine_look :: "'h Engine \<Rightarrow> string \<times> string \<Rightarrow> 'h list option run" where
  "engine_look e mp =
     (case trees_get (trees e) (fst mp) of None \<Rightarrow> Returns None | Some root \<Rightarrow> tree_look root (snd mp))"

lemma router_tree_new_root [simp]: "router_tree new_root" "routes_of new_root = {}"
  by (auto simp: new_root_def router_tree_def new_node_def)

definition root_for :: "'h Engine \<Rightarrow> string \<Rightarrow> 'h list node" where
  "root_for e m = (case trees_get (trees e) m of None \<Rightarrow> new_root | Some root \<Rightarrow> root)"

lemma router_tree_root_for: "engine_ok b e \<Longrightarrow> router_tree (root_for e m)"
  using map_of_SomeD [of "trees e" m]
  by (auto simp: root_for_def engine_ok_def trees_get_map_of split: option.splits)

lemma engine_routes_root_for: "((m, p), hs) \<in> engine_routes e \<longleftrightarrow> (p, hs) \<in> routes_of (root_for e m)"
  by (auto simp: engine_routes_def root_for_def split: option.splits)

lemma engine_addRoute_good:
  "good_route (m, p) hs \<Longrightarrow> engine_addRoute m p hs e =
     map_option (\<lambda>r. case r of Panics \<Rightarrow> Panics
       | Returns root' \<Rightarrow> Returns (e\<lparr>trees := AList.update m root' (trees e)\<rparr>)) (addRoute p hs (root_for e m))"
  by (auto simp: engine_addRoute_def good_route_def good_path_def root_for_def Let_def)

lemma engine_update:
  assumes "engine_ok b e" and "router_tree root" and "routes_of root = insert (p, hs) (routes_of (root_for e m))"
  shows "engine_ok b (e\<lparr>trees := AList.update m root (trees e)\<rparr>)"
    and "engine_routes (e\<lparr>trees := AList.update m root (trees e)\<rparr>) = insert ((m, p), hs) (engine_routes e)"
proof -
  let ?e = "e\<lparr>trees := AList.update m root (trees e)\<rparr>"
  have get: "trees_get (AList.update m root (trees e)) m' = (if m' = m then Some root else trees_get (trees e) m')" for m'
    by (simp add: trees_get_map_of update_conv)
  have "set (AList.update m root ts) \<subseteq> insert (m, root) (set ts)" for ts
    by (induction ts) auto
  then show "engine_ok b ?e" using assms(1,2) by (auto simp: engine_ok_def dest!: subsetD)
  have "root_for ?e m' = (if m' = m then root else root_for e m')" for m' by (simp add: root_for_def get)
  then show "engine_routes ?e = insert ((m, p), hs) (engine_routes e)"
    by (auto simp: set_eq_iff engine_routes_root_for assms(3))
qed

interpretation engine_table: route_table "engine_ok b" engine_routes good_route engine_add engine_look
  for b :: "'h Engine"
proof
  fix e :: "'h Engine" and mp :: "string \<times> string" and hs :: "'h list"
  assume e: "engine_ok b e"
  obtain m p where mp: "mp = (m, p)" by fastforce
  note root = router_tree_root_for [OF e, of m]
  show "\<exists>r. engine_look e mp = Returns r \<and> (\<forall>v. r = Some v \<longleftrightarrow> (mp, v) \<in> engine_routes e)"
    using tree_table.look_table [OF root, of p]
    by (auto simp: engine_look_def mp engine_routes_root_for root_for_def split: option.splits)
  assume good: "good_route mp hs"
  then have p: "good_path p" by (simp add: good_route_def mp)
  have taken: "mp \<in> fst ` engine_routes e \<longleftrightarrow> p \<in> fst ` routes_of (root_for e m)"
    by (force simp: mp engine_routes_def root_for_def split: option.splits)
  note add = engine_addRoute_good [OF good [unfolded mp], of e]
  show "engine_add mp hs e = Some Panics" if "mp \<in> fst ` engine_routes e"
    using tree_table.add_taken [OF root p] that taken add by (simp add: engine_add_def mp)
  show "\<exists>e'. engine_add mp hs e = Some (Returns e') \<and> engine_ok b e' \<and> engine_routes e' = insert (mp, hs) (engine_routes e)"
    if "mp \<notin> fst ` engine_routes e"
    using tree_table.add_free [OF root p, of hs] that taken add engine_update [OF e, of _ p hs m]
    by (auto simp: engine_add_def mp)
qed

section \<open>Requests to a table\<close>

text \<open>The path a request is routed by.\<close>

definition request_path :: "'h Engine \<Rightarrow> Request \<Rightarrow> string" where
  "request_path e req =
     clean_elements (if UseRawPath e \<and> url_RawPath req \<noteq> [] then url_RawPath req else url_Path req)"

lemma method_allowed_static:
  "\<forall>(m, root) \<in> set ts. router_tree root \<Longrightarrow> \<exists>b. method_allowed unescape m' p ts = Returns b"
proof (induction ts)
  case (Cons t ts)
  obtain m root where t: "t = (m, root)" by fastforce
  obtain v where "getValue unescape root p (no_value 0) = Returns v"
    using getValue_static [of root "no_value 0" unescape p] Cons.prems t by (auto simp: router_tree_def no_value_def)
  with Cons t show ?case by auto
qed auto

lemma not_served_static:
  assumes "engine_ok b e"
  shows "\<exists>c hs. not_served e unescape m p = Returns (ServeError c hs)"
  using method_allowed_static [of "trees e" unescape m p] assms
  by (cases "HandleMethodNotAllowed e") (auto simp: not_served_def engine_ok_def)

lemma handleHTTPRequest_static:
  assumes "engine_ok b e"
  shows "\<exists>out. handleHTTPRequest ci cap e req = Returns out \<and>
    (\<forall>hs ps. (\<exists>f. out = Serve hs ps f) \<longleftrightarrow> ((req_Method req, request_path e req), hs) \<in> engine_routes e \<and> ps = [])"
proof -
  define raw where "raw \<longleftrightarrow> UseRawPath e \<and> url_RawPath req \<noteq> []"
  define un where "un \<longleftrightarrow> raw \<and> UnescapePathValues e"
  define p m where "p = request_path e req" and "m = req_Method req"
  obtain c chs where ns: "not_served e un m p = Returns (ServeError c chs)"
    using not_served_static [OF assms] by blast
  have clean: "cleanPath (if raw then url_RawPath req else url_Path req) = Returns p"
    by (simp add: cleanPath_eq p_def request_path_def raw_def)
  note h = handleHTTPRequest_def [of ci cap e req, folded raw_def, unfolded Let_def, folded un_def,
      unfolded clean run.case, folded m_def]
  show ?thesis
  proof (cases "trees_get (trees e) m")
    case None
    then show ?thesis using h ns by (auto simp: engine_routes_def simp flip: m_def)
  next
    case (Some root)
    then have root: "router_tree root" "root_for e m = root"
      using router_tree_root_for [OF assms, of m] by (auto simp: root_for_def)
    obtain v where v: "getValue un root p (no_value cap) = Returns v"
      "\<And>hs. v_handlers v = Some hs \<longleftrightarrow> (p, hs) \<in> routes_of root" "v_params v = []"
      using getValue_static [of root "no_value cap" un p] root(1) by (auto simp: router_tree_def no_value_def)
    have iff: "((m, p), hs) \<in> engine_routes e \<longleftrightarrow> v_handlers v = Some hs" for hs
      using v(2) root(2) by (simp add: engine_routes_root_for)
    show ?thesis
    proof (cases "v_handlers v")
      case (Some hs)
      then show ?thesis using h v(1,3) \<open>trees_get (trees e) m = Some root\<close> iff by (auto simp flip: m_def p_def)
    next
      case None
      have "\<exists>out. handleHTTPRequest ci cap e req = Returns out \<and> (\<forall>hs ps f. out \<noteq> Serve hs ps f)"
        using h v(1) None Some ns
        by (auto simp: redirectTrailingSlash_def redirectFixedPath_def cleanPath_eq Let_def split: option.splits)
      then show ?thesis using iff None by (auto simp flip: m_def p_def)
    qed
  qed
qed

section \<open>Properties\<close>

text \<open>
  C15. The engine refines a table of routes.  Registering routes without wildcards succeeds exactly
  when no method and path occur twice and panics otherwise; afterwards every request is answered, and
  it is served by a chain of handlers exactly when the table has that chain for its method and its
  cleaned path.
\<close>

theorem engine_refines_table:
  assumes "list_all (\<lambda>(mp, hs). good_route mp hs) rs" and "trees b = []"
  shows "if distinct (map fst rs)
    then \<exists>e. add_routes engine_add rs b = Some (Returns e) \<and>
      (\<forall>ci cap req. \<exists>out. handleHTTPRequest ci cap e req = Returns out \<and>
        (\<forall>hs ps. (\<exists>f. out = Serve hs ps f) \<longleftrightarrow> map_of rs (req_Method req, request_path b req) = Some hs \<and> ps = []))
    else add_routes engine_add rs b = Some Panics"
proof -
  have b: "engine_ok b b" "engine_routes b = {}" using assms(2) by (auto simp: engine_ok_def engine_routes_def)
  have rp: "request_path e = request_path b" if "engine_ok b e" for e
    using engine_ok_field [OF that, of UseRawPath] by (simp add: request_path_def fun_eq_iff)
  show ?thesis
  proof (cases "distinct (map fst rs)")
    case True
    then obtain e where e: "add_routes engine_add rs b = Some (Returns e)" "engine_ok b e" "engine_routes e = set rs"
      using engine_table.add_routes_free [OF b(1) assms(1)] b(2) by auto
    show ?thesis
      using True e handleHTTPRequest_static [OF e(2)] by (simp add: rp [OF e(2)])
  next
    case False
    then show ?thesis using engine_table.add_routes_taken [OF b(1) assms(1)] by simp
  qed
qed

theorem engine_refines_table_witness:
  "\<exists>e f. add_routes engine_add [((''GET'', ''/ping''), [True]), ((''POST'', ''/ping''), [False])] New_engine = Some (Returns e) \<and>
     handleHTTPRequest (\<lambda>_ _ _. None) 0 e
       \<lparr>req_Method = ''GET'', url_Path = ''//x/../ping'', url_RawPath = [], X_Forwarded_Prefix = []\<rparr> =
     Returns (Serve [True] [] f)"
proof -
  let ?rs = "[((''GET'', ''/ping''), [True]), ((''POST'', ''/ping''), [False])]"
    and ?req = "\<lparr>req_Method = ''GET'', url_Path = ''//x/../ping'', url_RawPath = [], X_Forwarded_Prefix = []\<rparr>"
  have good: "list_all (\<lambda>(mp, hs). good_route mp hs) ?rs"
    by (simp add: good_route_def good_path_def no_wildcard_def)
  have e: "trees (New_engine :: bool Engine) = []" by (simp add: New_engine_def)
  have p: "request_path (New_engine :: bool Engine) ?req = ''/ping''"
    by (simp add: request_path_def New_engine_def clean_elements_def rooted_def)
  have d: "distinct (map fst ?rs)" by simp
  from engine_refines_table [OF good e, unfolded if_P [OF d]] obtain e where
    1: "add_routes engine_add ?rs New_engine = Some (Returns e) \<and>
      (\<forall>ci cap req. \<exists>out. handleHTTPRequest ci cap e req = Returns out \<and>
        (\<forall>hs ps. (\<exists>f. out = Serve hs ps f) \<longleftrightarrow>
          map_of ?rs (req_Method req, request_path (New_engine :: bool Engine) req) = Some hs \<and> ps = []))" ..
  note 2 = conjunct2 [OF 1, rule_format]
  from 2 [of "\<lambda>_ _ _. None" 0 ?req] obtain out where
    out: "handleHTTPRequest (\<lambda>_ _ _. None) 0 e ?req = Returns out" "\<exists>f. out = Serve [True] [] f"
    unfolding p by auto
  with conjunct1 [OF 1] show ?thesis by blast
qed

end
