(* ===== verification/Http_Routes.thy ===== *)
theory Http_Routes
  imports Http Gin_Router
begin

text \<open>
  The routes of the HTTP interface (\<open>src/service/httpservice/route.go\<close>), registered with the engine
  of the framework.
\<close>

section \<open>InitRouter\<close>

text \<open>The handlers of the program and the two middleware functions of \<open>gin.Default\<close>.\<close>

datatype http_handler = H_RemoteShellRun | H_GetShellResult | H_FileTrans | H_Logger | H_Recovery

text \<open>A call after another one that may panic; \<open>None\<close> is a walk that ran out of fuel.\<close>

definition and_then :: "'a run option \<Rightarrow> ('a \<Rightarrow> 'b run option) \<Rightarrow> 'b run option" where
  "and_then r f = (case r of None \<Rightarrow> None | Some Panics \<Rightarrow> Some Panics | Some (Returns x) \<Rightarrow> f x)"

text \<open>The log file is opened first, and a failure panics.\<close>

definition InitRouter :: "(string \<Rightarrow> error option) \<Rightarrow> Conf \<Rightarrow> http_handler Engine run option" where
  "InitRouter openFile cf =
     (case openFile (GetStr cf ''server'' ''logdir'' @ ''/'' @ GetStr cf ''server'' ''httplogname'') of
        Some err \<Rightarrow> Some Panics
      | None \<Rightarrow>
          and_then (Some (Default H_Logger H_Recovery)) (\<lambda>router.
          and_then (POST ''/api/v1/agent/remoteshell'' [H_RemoteShellRun] router) (\<lambda>router1.
          and_then (GET ''/api/v1/agent/getShellResult'' [H_GetShellResult] router1) (\<lambda>router2.
          POST ''/api/v1/agent/fileTrans'' [H_FileTrans] router2))))"

section \<open>Lemmas\<close>

text \<open>The table the three registrations stand for.\<close>

definition routes :: "((string \<times> string) \<times> http_handler list) list" where
  "routes =
     [((''POST'', ''/api/v1/agent/remoteshell''), [H_Logger, H_Recovery, H_RemoteShellRun]),
      ((''GET'', ''/api/v1/agent/getShellResult''), [H_Logger, H_Recovery, H_GetShellResult]),
      ((''POST'', ''/api/v1/agent/fileTrans''), [H_Logger, H_Recovery, H_FileTrans])]"

definition router0 :: "http_handler Engine" where
  "router0 = New_engine\<lparr>Handlers := [H_Logger, H_Recovery], allNoRoute := [H_Logger, H_Recovery],
     allNoMethod := [H_Logger, H_Recovery]\<rparr>"

lemma Default_router0: "Default H_Logger H_Recovery = Returns router0"
  by (simp add: Default_def Use_def rebuild404Handlers_def rebuild405Handlers_def combineHandlers_def
      abortIndex_def router0_def New_engine_def)

lemma joinPaths_routes:
  "joinPaths ''/'' ''/api/v1/agent/remoteshell'' = Returns ''/api/v1/agent/remoteshell''"
  "joinPaths ''/'' ''/api/v1/agent/getShellResult'' = Returns ''/api/v1/agent/getShellResult''"
  "joinPaths ''/'' ''/api/v1/agent/fileTrans'' = Returns ''/api/v1/agent/fileTrans''"
  by (simp_all add: joinPaths_def lastChar_def path_Join_def path_Clean_def rooted_def)

text \<open>Registering below an engine with the settings of \<open>router0\<close> adds a route of the table.\<close>

lemma handle_router0:
  assumes "engine_ok router0 e" and "joinPaths ''/'' p = Returns p"
  shows "handle m p [h] e = engine_add (m, p) [H_Logger, H_Recovery, h] e"
  using assms(2) engine_ok_field [OF assms(1), of basePath] engine_ok_field [OF assms(1), of Handlers]
  by (simp add: handle_def engine_add_def combineHandlers_def abortIndex_def router0_def New_engine_def)

lemma routes_good: "list_all (\<lambda>(mp, hs). good_route mp hs) routes" "distinct (map fst routes)"
  by (simp_all add: routes_def good_route_def good_path_def no_wildcard_def)

lemma router0_empty: "engine_ok router0 router0" "engine_routes router0 = {}"
  by (simp_all add: engine_ok_def engine_routes_def router0_def New_engine_def)

lemma and_then_add:
  assumes "engine_ok router0 e" and "joinPaths ''/'' p = Returns p"
    and "\<And>e'. engine_ok router0 e' \<Longrightarrow> f e' = add_routes engine_add rs e'"
    and "good_route (m, p) [H_Logger, H_Recovery, h]"
  shows "and_then (handle m p [h] e) f = add_routes engine_add (((m, p), [H_Logger, H_Recovery, h]) # rs) e"
proof (cases "(m, p) \<in> fst ` engine_routes e")
  case True
  with engine_table.add_taken [OF assms(1,4)] show ?thesis by (simp add: handle_router0 [OF assms(1,2)] and_then_def)
next
  case False
  with engine_table.add_free [OF assms(1,4)] assms(3) show ?thesis
    by (auto simp: handle_router0 [OF assms(1,2)] and_then_def)
qed

lemma InitRouter_routes:
  assumes "openFile (GetStr cf ''server'' ''logdir'' @ ''/'' @ GetStr cf ''server'' ''httplogname'') = None"
  shows "InitRouter openFile cf = add_routes engine_add routes router0"
proof -
  have good: "good_route mp hs" if "(mp, hs) \<in> set routes" for mp hs
    using routes_good(1) that by (auto simp: list_all_iff)
  have 3: "POST ''/api/v1/agent/fileTrans'' [H_FileTrans] e = add_routes engine_add (drop 2 routes) e"
    if "engine_ok router0 e" for e
    by (simp add: POST_def handle_router0 [OF that joinPaths_routes(3)] routes_def split: option.split run.split)
  have 2: "and_then (GET ''/api/v1/agent/getShellResult'' [H_GetShellResult] e)
      (\<lambda>r. POST ''/api/v1/agent/fileTrans'' [H_FileTrans] r) = add_routes engine_add (drop 1 routes) e"
    if "engine_ok router0 e" for e
    using and_then_add [OF that joinPaths_routes(2) 3 good] by (simp add: GET_def routes_def)
  have 1: "and_then (POST ''/api/v1/agent/remoteshell'' [H_RemoteShellRun] router0) (\<lambda>r1.
      and_then (GET ''/api/v1/agent/getShellResult'' [H_GetShellResult] r1)
        (\<lambda>r. POST ''/api/v1/agent/fileTrans'' [H_FileTrans] r)) = add_routes engine_add routes router0"
    using and_then_add [OF router0_empty(1) joinPaths_routes(1) 2 good] by (simp add: POST_def routes_def)
  show ?thesis
    unfolding InitRouter_def assms option.case Default_router0 and_then_def [of "Some (Returns router0)"] run.case
    by (rule 1)
qed

lemma InitRouter_serves:
  assumes "openFile (GetStr cf ''server'' ''logdir'' @ ''/'' @ GetStr cf ''server'' ''httplogname'') = None"
  shows "\<exists>router. InitRouter openFile cf = Some (Returns router) \<and>
    (\<forall>ci cap req.
      (case map_of routes (req_Method req, clean_elements (url_Path req)) of
         Some hs \<Rightarrow> \<exists>f. handleHTTPRequest ci cap router req = Returns (Serve hs [] f)
       | None \<Rightarrow> handleHTTPRequest ci cap router req \<in>
           {Returns (redirectTrailingSlash req), Returns (ServeError 404 [H_Logger, H_Recovery])}))"
proof -
  obtain e where e: "InitRouter openFile cf = Some (Returns e)" "engine_ok router0 e" "engine_routes e = set routes"
    using engine_table.add_routes_free [OF router0_empty(1) routes_good] router0_empty(2) InitRouter_routes [of openFile cf, OF assms]
    by auto
  have f: "UseRawPath e = False" "RedirectFixedPath e = False" "HandleMethodNotAllowed e = False"
    "allNoRoute e = [H_Logger, H_Recovery]"
    using engine_ok_field [OF e(2), of UseRawPath] engine_ok_field [OF e(2), of RedirectFixedPath]
      engine_ok_field [OF e(2), of HandleMethodNotAllowed] engine_ok_field [OF e(2), of allNoRoute]
    by (simp_all add: router0_def New_engine_def)
  have "case map_of routes (req_Method req, clean_elements (url_Path req)) of
         Some hs \<Rightarrow> \<exists>f. handleHTTPRequest ci cap e req = Returns (Serve hs [] f)
       | None \<Rightarrow> handleHTTPRequest ci cap e req \<in>
           {Returns (redirectTrailingSlash req), Returns (ServeError 404 [H_Logger, H_Recovery])}" for ci cap req
  proof -
    let ?mp = "(req_Method req, clean_elements (url_Path req))"
    have rp: "request_path e req = clean_elements (url_Path req)" by (simp add: request_path_def f)
    have iff: "(?mp, hs) \<in> set routes \<longleftrightarrow> map_of routes ?mp = Some hs" for hs using routes_good(2) by simp
    obtain out where out: "handleHTTPRequest ci cap e req = Returns out"
      "\<And>hs ps. (\<exists>f. out = Serve hs ps f) \<longleftrightarrow> map_of routes ?mp = Some hs \<and> ps = []"
      using handleHTTPRequest_static [OF e(2), of ci cap req] unfolding rp e(3) iff by blast
    show ?thesis
    proof (cases "map_of routes ?mp")
      case None
      then have "\<And>hs ps f. out \<noteq> Serve hs ps f" using out(2) by auto
      with out(1) None show ?thesis
        by (auto simp: handleHTTPRequest_def f Let_def not_served_def split: run.splits option.splits if_splits)
    next
      case (Some hs)
      then have "\<exists>f. out = Serve hs [] f" using out(2) by simp
      with out(1) Some show ?thesis by auto
    qed
  qed
  with e(1) show ?thesis by blast
qed

lemma InitRouter_answers:
  "\<exists>r. InitRouter openFile cf = Some r \<and> (\<forall>router. r = Returns router \<longrightarrow>
    (\<forall>ci cap req hs. (\<exists>f. handleHTTPRequest ci cap router req = Returns (Serve hs [] f)) \<longleftrightarrow>
      map_of routes (req_Method req, clean_elements (url_Path req)) = Some hs))"
proof (cases "openFile (GetStr cf ''server'' ''logdir'' @ ''/'' @ GetStr cf ''server'' ''httplogname'')")
  case None
  obtain router where router: "InitRouter openFile cf = Some (Returns router)"
    and serves: "\<And>ci cap req. case map_of routes (req_Method req, clean_elements (url_Path req)) of
         Some hs \<Rightarrow> \<exists>f. handleHTTPRequest ci cap router req = Returns (Serve hs [] f)
       | None \<Rightarrow> handleHTTPRequest ci cap router req \<in>
           {Returns (redirectTrailingSlash req), Returns (ServeError 404 [H_Logger, H_Recovery])}"
    using InitRouter_serves [of openFile cf, OF None] by blast
  have "(\<exists>f. handleHTTPRequest ci cap router req = Returns (Serve hs [] f)) \<longleftrightarrow>
      map_of routes (req_Method req, clean_elements (url_Path req)) = Some hs" for ci cap req hs
    using serves [of ci cap req]
    by (cases "map_of routes (req_Method req, clean_elements (url_Path req))")
      (auto simp: redirectTrailingSlash_def Let_def)
  with router show ?thesis by simp
next
  case (Some err)
  then show ?thesis by (simp add: InitRouter_def)
qed

section \<open>Properties\<close>

text \<open>
  When the log file can be opened the router is built without a panic, and from then on a POST
  to \<open>/api/v1/agent/remoteshell\<close> or \<open>/api/v1/agent/fileTrans\<close> and a GET of
  \<open>/api/v1/agent/getShellResult\<close> run their handler behind the logger and the recovery, whatever way
  the path is written before cleaning.  Every other request is answered by a redirect to the path
  with or without its last slash, or by status 404; no handler runs for it.
\<close>

lemma InitRouter_dispatch:
  assumes "openFile (GetStr cf ''server'' ''logdir'' @ ''/'' @ GetStr cf ''server'' ''httplogname'') = None"
  shows "\<exists>router. InitRouter openFile cf = Some (Returns router) \<and>
    (\<forall>ci cap req.
      (case map_of routes (req_Method req, clean_elements (url_Path req)) of
         Some hs \<Rightarrow> \<exists>f. handleHTTPRequest ci cap router req = Returns (Serve hs [] f)
       | None \<Rightarrow> handleHTTPRequest ci cap router req \<in>
           {Returns (redirectTrailingSlash req), Returns (ServeError 404 [H_Logger, H_Recovery])}))"
  using assms by (rule InitRouter_serves)

end
