(* ===== verification/Logs.thy ===== *)
theory Logs
  imports Config
begin

text \<open>
  The two log packages (\<open>src/util/serverlog/serverlog.go\<close>, \<open>src/util/agentlog/agentlog.go\<close>), which
  differ in their initialisation only.  The library \<open>logrus\<close> keeps the level, the format and the
  output file and writes an entry when its level is enabled.  The text of a call is given
  formatted; \<open>runtime.Caller\<close> gives the file and line of the call, or nothing.
\<close>

section \<open>logrus\<close>

datatype log_level = ErrorLevel | WarnLevel | InfoLevel | DebugLevel

text \<open>The numbers of the levels; a level is enabled when its number is at most the set one.\<close>

fun level_number :: "log_level \<Rightarrow> nat" where
  "level_number ErrorLevel = 2"
| "level_number WarnLevel = 3"
| "level_number InfoLevel = 4"
| "level_number DebugLevel = 5"

record log_entry =
  entry_level :: log_level
  entry_fields :: "string \<rightharpoonup> string"
  entry_text :: string

record logger =
  log_level_set :: log_level
  timestamp_format :: string
  full_timestamp :: bool
  log_output :: "string option"
  entries :: "log_entry list"

definition logrus_log :: "log_level \<Rightarrow> (string \<rightharpoonup> string) \<Rightarrow> string \<Rightarrow> logger \<Rightarrow> logger" where
  "logrus_log lvl fs t lg =
     (if level_number lvl \<le> level_number (log_level_set lg)
      then lg\<lparr>entries := entries lg @ [\<lparr>entry_level = lvl, entry_fields = fs, entry_text = t\<rparr>]\<rparr> else lg)"

section \<open>Initialisation\<close>

text \<open>
  \<open>strings.ToUpper\<close> as far as a comparison with an ASCII word can see it: the ASCII letters, and
  the two other letters (dotless i, long s) whose upper case is an ASCII letter.
\<close>

definition upper_char :: "char \<Rightarrow> char" where
  "upper_char c =
     (let n = of_char c :: nat in if 97 \<le> n \<and> n \<le> 122 then char_of (n - 32) else c)"

fun to_upper :: "string \<Rightarrow> string" where
  "to_upper [] = []"
| "to_upper [c] = [upper_char c]"
| "to_upper (c # d # s) =
     (if c = CHR 0xC4 \<and> d = CHR 0xB1 then CHR ''I'' # to_upper s
      else if c = CHR 0xC5 \<and> d = CHR 0xBF then CHR ''S'' # to_upper s
      else upper_char c # to_upper (d # s))"

definition parse_level :: "string \<Rightarrow> log_level" where
  "parse_level loglevel =
     (let u = to_upper loglevel
      in if u = ''DEBUG'' then DebugLevel
         else if u = ''INFO'' then InfoLevel
         else if u = ''WARN'' then WarnLevel
         else if u = ''ERROR'' then ErrorLevel
         else DebugLevel)"

definition log_time_format :: string where
  "log_time_format = ''2006-01-02 15:04:05''"

definition ServerInitLog :: "(string \<Rightarrow> error option) \<Rightarrow> Conf \<Rightarrow> logger \<Rightarrow> logger run" where
  "ServerInitLog openFile cf lg =
     (let logfile = GetStr cf ''server'' ''logname''; loglevel = GetStr cf ''server'' ''loglevel'';
          lg' = lg\<lparr>timestamp_format := log_time_format, full_timestamp := True,
                   log_level_set := parse_level loglevel\<rparr>
      in case openFile logfile of
           Some err \<Rightarrow> Panics
         | None \<Rightarrow> Returns (lg'\<lparr>log_output := Some logfile\<rparr>))"

definition AgentInitLog :: "(string \<Rightarrow> error option) \<Rightarrow> string \<Rightarrow> string \<Rightarrow> logger \<Rightarrow> logger run" where
  "AgentInitLog openFile logfile loglevel lg =
     (let lg' = lg\<lparr>timestamp_format := log_time_format, full_timestamp := True,
                   log_level_set := parse_level loglevel\<rparr>
      in case openFile logfile of
           Some err \<Rightarrow> Panics
         | None \<Rightarrow> Returns (lg'\<lparr>log_output := Some logfile\<rparr>))"

section \<open>The calls\<close>

text \<open>\<open>file[strings.LastIndex(file, "/")+1:]\<close>.\<close>

definition base_name :: "string \<Rightarrow> string" where
  "base_name f = rev (takeWhile (\<lambda>c. c \<noteq> CHR ''/'') (rev f))"

definition gofile :: "(string \<times> int) option \<Rightarrow> string" where
  "gofile caller =
     (case caller of
        None \<Rightarrow> ''['' @ ''<???>'' @ '':'' @ Itoa 1 @ ''] ''
      | Some (f, line) \<Rightarrow> ''['' @ base_name f @ '':'' @ Itoa line @ ''] '')"

text \<open>The functions of the package \<open>serverlog\<close>.\<close>

definition Debugln :: "(string \<times> int) option \<Rightarrow> string \<Rightarrow> logger \<Rightarrow> logger" where
  "Debugln caller t lg = logrus_log DebugLevel [''gofile'' \<mapsto> gofile caller] t lg"

definition Debugf :: "(string \<times> int) option \<Rightarrow> string \<Rightarrow> logger \<Rightarrow> logger" where
  "Debugf caller t lg = logrus_log DebugLevel [''gofile'' \<mapsto> gofile caller] t lg"

definition Warnln :: "(string \<times> int) option \<Rightarrow> string \<Rightarrow> logger \<Rightarrow> logger" where
  "Warnln caller t lg = logrus_log WarnLevel [''gofile'' \<mapsto> gofile caller] t lg"

definition Warnf :: "(string \<times> int) option \<Rightarrow> string \<Rightarrow> logger \<Rightarrow> logger" where
  "Warnf caller t lg = logrus_log WarnLevel [''gofile'' \<mapsto> gofile caller] t lg"

definition Infoln :: "(string \<times> int) option \<Rightarrow> string \<Rightarrow> logger \<Rightarrow> logger" where
  "Infoln caller t lg = logrus_log InfoLevel [''gofile'' \<mapsto> gofile caller] t lg"

definition Infof :: "(string \<times> int) option \<Rightarrow> string \<Rightarrow> logger \<Rightarrow> logger" where
  "Infof caller t lg = logrus_log InfoLevel [''gofile'' \<mapsto> gofile caller] t lg"

definition Errorln :: "(string \<times> int) option \<Rightarrow> string \<Rightarrow> logger \<Rightarrow> logger" where
  "Errorln caller t lg = logrus_log ErrorLevel [''gofile'' \<mapsto> gofile caller] t lg"

definition Errorf :: "(string \<times> int) option \<Rightarrow> string \<Rightarrow> logger \<Rightarrow> logger" where
  "Errorf caller t lg = logrus_log ErrorLevel [''gofile'' \<mapsto> gofile caller] t lg"

definition WithFields :: "(string \<times> int) option \<Rightarrow> (string \<rightharpoonup> string) \<Rightarrow> (string \<rightharpoonup> string)" where
  "WithFields caller fs = fs(''gofile'' \<mapsto> gofile caller)"

text \<open>The functions of the package \<open>agentlog\<close>.\<close>

definition agent_Debugln :: "(string \<times> int) option \<Rightarrow> string \<Rightarrow> logger \<Rightarrow> logger" where
  "agent_Debugln caller t lg = logrus_log DebugLevel [''gofile'' \<mapsto> gofile caller] t lg"

definition agent_Debugf :: "(string \<times> int) option \<Rightarrow> string \<Rightarrow> logger \<Rightarrow> logger" where
  "agent_Debugf caller t lg = logrus_log DebugLevel [''gofile'' \<mapsto> gofile caller] t lg"

definition agent_Warnln :: "(string \<times> int) option \<Rightarrow> string \<Rightarrow> logger \<Rightarrow> logger" where
  "agent_Warnln caller t lg = logrus_log WarnLevel [''gofile'' \<mapsto> gofile caller] t lg"

definition agent_Warnf :: "(string \<times> int) option \<Rightarrow> string \<Rightarrow> logger \<Rightarrow> logger" where
  "agent_Warnf caller t lg = logrus_log WarnLevel [''gofile'' \<mapsto> gofile caller] t lg"

definition agent_Infoln :: "(string \<times> int) option \<Rightarrow> string \<Rightarrow> logger \<Rightarrow> logger" where
  "agent_Infoln caller t lg = logrus_log InfoLevel [''gofile'' \<mapsto> gofile caller] t lg"

definition agent_Infof :: "(string \<times> int) option \<Rightarrow> string \<Rightarrow> logger \<Rightarrow> logger" where
  "agent_Infof caller t lg = logrus_log InfoLevel [''gofile'' \<mapsto> gofile caller] t lg"

definition agent_Errorln :: "(string \<times> int) option \<Rightarrow> string \<Rightarrow> logger \<Rightarrow> logger" where
  "agent_Errorln caller t lg = logrus_log ErrorLevel [''gofile'' \<mapsto> gofile caller] t lg"

definition agent_Errorf :: "(string \<times> int) option \<Rightarrow> string \<Rightarrow> logger \<Rightarrow> logger" where
  "agent_Errorf caller t lg = logrus_log ErrorLevel [''gofile'' \<mapsto> gofile caller] t lg"

definition agent_WithFields :: "(string \<times> int) option \<Rightarrow> (string \<rightharpoonup> string) \<Rightarrow> (string \<rightharpoonup> string)" where
  "agent_WithFields caller fs = fs(''gofile'' \<mapsto> gofile caller)"

lemmas server_log_defs = Debugln_def Debugf_def Warnln_def Warnf_def Infoln_def Infof_def Errorln_def Errorf_def WithFields_def

lemmas agent_log_defs = agent_Debugln_def agent_Debugf_def agent_Warnln_def agent_Warnf_def agent_Infoln_def agent_Infof_def agent_Errorln_def agent_Errorf_def agent_WithFields_def

section \<open>Properties\<close>

lemma base_name_no_slash: "CHR ''/'' \<notin> set (base_name f)"
  by (auto simp: base_name_def dest: set_takeWhileD)

lemma base_name_suffix: "\<exists>d. f = d @ base_name f"
proof -
  have "rev f = takeWhile (\<lambda>c. c \<noteq> CHR ''/'') (rev f) @ dropWhile (\<lambda>c. c \<noteq> CHR ''/'') (rev f)" by simp
  then have "f = rev (dropWhile (\<lambda>c. c \<noteq> CHR ''/'') (rev f)) @ base_name f"
    by (metis base_name_def rev_append rev_rev_ident)
  then show ?thesis by blast
qed

text \<open>
  The package of the agent logs exactly as the package of the server: each of its functions
  is equal to the function of the same name.
\<close>

lemma agentlog_eq_serverlog:
  "agent_Debugln = Debugln \<and> agent_Debugf = Debugf \<and> agent_Warnln = Warnln \<and> agent_Warnf = Warnf \<and>
   agent_Infoln = Infoln \<and> agent_Infof = Infof \<and> agent_Errorln = Errorln \<and> agent_Errorf = Errorf \<and>
   agent_WithFields = WithFields"
  by (simp add: server_log_defs agent_log_defs fun_eq_iff)

text \<open>
  After \<open>AgentInitLog\<close> with the level INFO (in any case of its letters) a debug message is
  dropped and an error message is appended once, with the base name of the calling file; an
  unknown level logs everything.
\<close>

lemma AgentInitLog_levels:
  assumes "AgentInitLog openFile logfile loglevel lg = Returns lg'"
  shows "entries (agent_Errorf caller t lg') =
      entries lg @ [\<lparr>entry_level = ErrorLevel, entry_fields = [''gofile'' \<mapsto> gofile caller], entry_text = t\<rparr>]
    \<and> (entries (agent_Debugf caller t lg') = entries lg \<longleftrightarrow>
         to_upper loglevel \<in> {''INFO'', ''WARN'', ''ERROR''})"
  using assms
  by (auto simp: AgentInitLog_def agent_log_defs logrus_log_def parse_level_def Let_def
      split: option.splits if_splits)

definition fresh_logger :: logger where
  "fresh_logger =
     \<lparr>log_level_set = InfoLevel, timestamp_format = [], full_timestamp = False, log_output = None, entries = []\<rparr>"

end
