(* ===== verification/Server_Streams.thy ===== *)
theory Server_Streams
  imports Server_Steps Agent
begin

text \<open>
  The types of the messages the server writes: every connection whose client is still valid carries
  whole packets, each with the payload its type code announces, and the agent has a handler for each
  of these codes.
\<close>

section \<open>Typed messages\<close>

text \<open>The type code and the protobuf message it stands for, in the direction from server to agent.\<close>

definition server_message :: "Msg \<Rightarrow> bool" where
  "server_message m \<longleftrightarrow>
     (case MsgProto m of
        None \<Rightarrow> MsgType m = HeartBeat_Rsp
      | Some (PB_ShellRun x) \<Rightarrow> MsgType m = ShellRun_Msg \<and> shell_unrecognized x = []
      | Some (PB_FileTrans x) \<Rightarrow> MsgType m = FileTrans_Msg
      | Some (PB_ScriptRun x) \<Rightarrow> MsgType m = ScriptRun_Msg
      | Some _ \<Rightarrow> False)"

definition typed_client :: "TcpClient \<Rightarrow> bool" where
  "typed_client c \<longleftrightarrow>
     (Valid c \<longrightarrow> (\<exists>ms. list_all server_message ms \<and> outbound (Conn c) = concat (map msg_packet ms)))"

definition typed_server :: "TcpServer \<Rightarrow> bool" where
  "typed_server s \<longleftrightarrow> (\<forall>r c. heap s r = Some c \<longrightarrow> typed_client c)"

lemma typed_client_cong:
  "typed_client c \<Longrightarrow> outbound (Conn c') = outbound (Conn c) \<Longrightarrow> (Valid c' \<Longrightarrow> Valid c) \<Longrightarrow> typed_client c'"
  by (auto simp: typed_client_def)

lemma typed_SendMsg:
  assumes "typed_client c" and "server_message m"
  shows "typed_client (SendMsg cf now m c)"
proof -
  let ?k = "(Conn c)\<lparr>write_deadline := Some (now + seconds (GetInt cf ''tcp'' ''writetimeout''))\<rparr>"
  show ?thesis
  proof (cases rule: conn_Write_cases [of "msg_packet m" ?k])
    case (1 k')
    have "typed_client (c\<lparr>Conn := k'\<rparr>)"
      unfolding typed_client_def
    proof
      assume "Valid (c\<lparr>Conn := k'\<rparr>)"
      then obtain ms where "list_all server_message ms" "outbound (Conn c) = concat (map msg_packet ms)"
        using assms(1) by (auto simp: typed_client_def)
      with assms(2) 1(2) show "\<exists>ms. list_all server_message ms \<and>
          outbound (Conn (c\<lparr>Conn := k'\<rparr>)) = concat (map msg_packet ms)"
        by (intro exI [of _ "ms @ [m]"]) simp
    qed
    with 1(1) show ?thesis by (simp add: SendMsg_def)
  next
    case (2 n e k')
    then show ?thesis by (simp add: SendMsg_def SetValid_def typed_client_def)
  qed
qed

lemma typed_SendMsg_pow: "typed_client c \<Longrightarrow> server_message m \<Longrightarrow> typed_client ((SendMsg cf now m ^^ n) c)"
  by (induction n) (auto intro: typed_SendMsg)

lemma GetMsg_turn_frame:
  "GetMsg_turn cf now c = Again c' \<Longrightarrow> outbound (Conn c') = outbound (Conn c) \<and> Valid c' = Valid c"
  "GetMsg_turn cf now c = Return rr c' \<Longrightarrow> outbound (Conn c') = outbound (Conn c) \<and> Valid c' = Valid c"
  by (auto simp: GetMsg_turn_def take_message_def Let_def set_read_deadline_def
      dest!: conn_Read_frame split: if_splits prod.splits read_result.splits option.splits)

lemma typed_HandleMsg:
  assumes "typed_client c" and "HandleMsg api cf now m c e = (err, c', e')"
  shows "typed_client c'"
proof -
  have "typed_client (SetLastHeartBeatSyncTime t c)" for t
    by (rule typed_client_cong [OF assms(1)]) (simp_all add: SetLastHeartBeatSyncTime_def)
  moreover have "server_message \<lparr>MsgType = HeartBeat_Rsp, MsgData = [], MsgProto = None\<rparr>"
    by (simp add: server_message_def)
  ultimately show ?thesis
    using assms by (auto simp: HandleMsg_def HandleHeartBeatMsg_def intro!: typed_SendMsg
        split: if_splits prod.splits option.splits)
qed

section \<open>The running server\<close>

lemma typed_put_client: "typed_server s \<Longrightarrow> typed_client c \<Longrightarrow> typed_server (put_client r c s)"
  by (auto simp: typed_server_def)

lemma typed_server_at: "typed_server s \<Longrightarrow> heap s r = Some c \<Longrightarrow> typed_client c"
  by (auto simp: typed_server_def)

lemma typed_Multicast:
  assumes "typed_server s" and "visits ks s" and "table_ok s" and "server_message m"
  shows "typed_server (Multicast cf now ks ips m s)"
  unfolding typed_server_def
proof (intro allI impI)
  fix r c assume "heap (Multicast cf now ks ips m s) r = Some c"
  then show "typed_client c"
    using typed_server_at [OF assms(1)] typed_SendMsg_pow [OF _ assms(4)]
    by (auto simp: Multicast_heap [OF assms(2,3)] split: if_splits)
qed

lemma commands_typed:
  "RemoteShellRun api cf now ks n cmd ips s e = (res, s', e') \<Longrightarrow>
     s' = s \<or> (\<exists>m. server_message m \<and> s' = Multicast cf now ks ips m s)"
  "RemoteScriptRun api cf now ks n nm av ips s e = (res, s', e') \<Longrightarrow>
     s' = s \<or> (\<exists>m. server_message m \<and> s' = Multicast cf now ks ips m s)"
  "RemoteFileSend fs cf now ks src dst ips s = (res, s') \<Longrightarrow>
     s' = s \<or> (\<exists>m. server_message m \<and> s' = Multicast cf now ks ips m s)"
proof -
  have types: "server_message \<lparr>MsgType = ShellRun_Msg, MsgData = [],
      MsgProto = Some (PB_ShellRun (ShellRun_zero\<lparr>Runcmd := c, shell_Taskid := t\<rparr>))\<rparr>"
    "server_message \<lparr>MsgType = ScriptRun_Msg, MsgData = [], MsgProto = Some (PB_ScriptRun y)\<rparr>"
    "server_message \<lparr>MsgType = FileTrans_Msg, MsgData = [], MsgProto = Some (PB_FileTrans z)\<rparr>" for c t y z
    by (simp_all add: server_message_def ShellRun_zero_def)
  show "RemoteShellRun api cf now ks n cmd ips s e = (res, s', e') \<Longrightarrow>
     s' = s \<or> (\<exists>m. server_message m \<and> s' = Multicast cf now ks ips m s)"
    using types(1) by (force simp: RemoteShellRun_def Let_def split: prod.splits sum.splits)
  show "RemoteScriptRun api cf now ks n nm av ips s e = (res, s', e') \<Longrightarrow>
     s' = s \<or> (\<exists>m. server_message m \<and> s' = Multicast cf now ks ips m s)"
    using types(2) by (force simp: RemoteScriptRun_def Let_def split: prod.splits sum.splits)
  show "RemoteFileSend fs cf now ks src dst ips s = (res, s') \<Longrightarrow>
     s' = s \<or> (\<exists>m. server_message m \<and> s' = Multicast cf now ks ips m s)"
    using types(3) by (force simp: RemoteFileSend_def Let_def split: sum.splits)
qed

lemma srv_step_typed:
  assumes "srv_step api cf w w'" and "world_inv w" and "typed_server (srv w)"
  shows "typed_server (srv w')"
  using assms
proof (induction rule: srv_step.induct)
  case (accept w r k addr s')
  have "typed_client (NewClient k i)" for i
    using accept(3) by (auto simp: typed_client_def NewClient_def new_conn_def intro: exI [of _ "[]"])
  with accept show ?case
    by (auto simp: HandleConn_register_def typed_server_def ran_def split: sum.splits if_splits)
next
  case (refuse w addr k r s')
  then show ?case using register_None [OF refuse(2)] by simp
next
  case (read_more w r c now c')
  with GetMsg_turn_frame(1) [OF read_more(4)] typed_server_at show ?case
    by (auto intro!: typed_put_client intro: typed_client_cong)
next
  case (read_msg w r c now m c')
  with GetMsg_turn_frame(2) [OF read_msg(4)] typed_server_at show ?case
    by (auto intro!: typed_put_client intro: typed_client_cong)
next
  case (read_end w r c now err c')
  then show ?case
    using GetMsg_turn_ClientID(2) [OF read_end(4)]
    by (auto simp: typed_server_def read_end_state [OF read_end(3)] SetValid_def typed_client_def)
next
  case (read_panic w r c now)
  then show ?case by simp
next
  case (handle w js m r js' c now err c' e')
  then have "typed_client c'" by (blast intro: typed_HandleMsg typed_server_at)
  with handle show ?case by (simp add: typed_put_client)
next
  case (shell w ks now n cmd iplist res s' e')
  then show ?case using commands_typed(1) [OF shell(3)] by (auto simp: world_inv_def intro!: typed_Multicast)
next
  case (script w ks now n name argvs iplist res s' e')
  then show ?case using commands_typed(2) [OF script(3)] by (auto simp: world_inv_def intro!: typed_Multicast)
next
  case (file_send w ks fs now src dst iplist res s')
  then show ?case using commands_typed(3) [OF file_send(3)] by (auto simp: world_inv_def intro!: typed_Multicast)
qed

lemma reachable_typed: "reachable api cf e w \<Longrightarrow> typed_server (srv w)"
  unfolding reachable_def
proof (induction rule: rtranclp_induct)
  case base
  show ?case by (simp add: typed_server_def boot_def InitServer_def)
next
  case (step y z)
  then show ?case using reachable_inv [of api cf e y] srv_step_typed by (auto simp: reachable_def)
qed

text \<open>The agent has a handler for every type the server uses.\<close>

lemma agent_knows:
  "server_message m \<Longrightarrow> agent_HandleMsg api mc env (mk_msg (MsgType m) d) st = Returns (err, st') \<Longrightarrow> err = None"
  by (auto simp: server_message_def agent_HandleMsg_def mk_msg_def
      split: option.splits proto_Message.splits prod.splits run.splits if_splits)

section \<open>Properties\<close>



end
