(* ===== verification/Mysql_Dsn.thy ===== *)
theory Mysql_Dsn
  imports Mysql
begin

text \<open>
  The data source name of the database driver
  (\<open>src/vender/src/github.com/go-sql-driver/mysql\<close>, \<open>dsn.go\<close>, with \<open>readBool\<close> of \<open>utils.go\<close>): how the
  driver takes apart the text \<open>DbInit\<close> composes.  The time zone database, the texts of durations
  and the registries of keys and TLS configurations are parameters (\<open>dsn_env\<close>).
\<close>

section \<open>Positions and addresses\<close>

text \<open>Forward and backward searches for a byte.\<close>

fun first_at :: "char \<Rightarrow> string \<Rightarrow> nat option" where
  "first_at c [] = None"
| "first_at c (d # s) = (if d = c then Some 0 else map_option Suc (first_at c s))"

definition last_at :: "char \<Rightarrow> string \<Rightarrow> nat option" where
  "last_at c s = map_option (\<lambda>i. length s - 1 - i) (first_at c (rev s))"

text \<open>\<open>net.SplitHostPort\<close>: host and port, or \<open>None\<close> for any of its errors.\<close>

definition SplitHostPort :: "string \<Rightarrow> (string \<times> string) option" where
  "SplitHostPort s =
     (case last_at CHR '':'' s of
        None \<Rightarrow> None
      | Some i \<Rightarrow>
          if s ! 0 = CHR ''['' then
            (case first_at CHR '']'' s of
               None \<Rightarrow> None
             | Some e \<Rightarrow>
                 if e + 1 \<noteq> i then None
                 else if CHR ''['' \<in> set (drop 1 s) \<or> CHR '']'' \<in> set (drop (e + 1) s) then None
                 else Some (drop 1 (take e s), drop (i + 1) s))
          else if CHR '':'' \<in> set (take i s) then None
          else if CHR ''['' \<in> set s \<or> CHR '']'' \<in> set s then None
          else Some (take i s, drop (i + 1) s))"

definition JoinHostPort :: "string \<Rightarrow> string \<Rightarrow> string" where
  "JoinHostPort host port =
     (if CHR '':'' \<in> set host then ''['' @ host @ '']:'' @ port else host @ '':'' @ port)"

definition ensureHavePort :: "string \<Rightarrow> string" where
  "ensureHavePort addr = (if SplitHostPort addr = None then JoinHostPort addr ''3306'' else addr)"

section \<open>The configuration\<close>

record tls_Config =
  ServerName :: string
  InsecureSkipVerify :: bool

record dsn_Config =
  User :: string
  Passwd :: string
  Net :: string
  Addr :: string
  DBName :: string
  Params :: "string \<rightharpoonup> string"
  Collation :: string
  Loc :: string
  MaxAllowedPacket :: int
  ServerPubKey :: string
  TLSConfig :: string
  dsn_tls :: "tls_Config option"
  Timeout :: int
  ReadTimeout :: int
  WriteTimeout :: int
  AllowAllFiles :: bool
  AllowCleartextPasswords :: bool
  AllowNativePasswords :: bool
  AllowOldPasswords :: bool
  ClientFoundRows :: bool
  ColumnsWithAlias :: bool
  InterpolateParams :: bool
  MultiStatements :: bool
  ParseTime :: bool
  RejectReadOnly :: bool

definition NewConfig :: dsn_Config where
  "NewConfig =
     \<lparr>User = [], Passwd = [], Net = [], Addr = [], DBName = [], Params = Map.empty,
      Collation = ''utf8mb4_general_ci'', Loc = ''UTC'', MaxAllowedPacket = 4194304, ServerPubKey = [],
      TLSConfig = [], dsn_tls = None, Timeout = 0, ReadTimeout = 0, WriteTimeout = 0, AllowAllFiles = False,
      AllowCleartextPasswords = False, AllowNativePasswords = True, AllowOldPasswords = False,
      ClientFoundRows = False, ColumnsWithAlias = False, InterpolateParams = False, MultiStatements = False,
      ParseTime = False, RejectReadOnly = False\<rparr>"

datatype dsn_error =
    InvalidUnescaped | InvalidAddr | NoSlash | UnsafeCollation | NoDefaultAddr string
  | InvalidBool string | NoCompression | BadEscape string | BadLocation string | BadDuration string
  | UnknownPubKey string | UnknownTLS string | BadNumber num_error

text \<open>
  What lies outside: the time zones that can be loaded, the texts of durations in both directions, the
  registered public keys and TLS configurations.
\<close>

record dsn_env =
  LoadLocation :: "string \<Rightarrow> bool"
  ParseDuration :: "string \<Rightarrow> int option"
  DurationString :: "int \<Rightarrow> string"
  serverPubKeyRegistry :: "string set"
  tlsConfigRegistry :: "string \<rightharpoonup> tls_Config"

definition unsafeCollations :: "string list" where
  "unsafeCollations =
     [''big5_chinese_ci'', ''sjis_japanese_ci'', ''gbk_chinese_ci'', ''big5_bin'', ''gb2312_bin'', ''gbk_bin'',
      ''sjis_bin'', ''cp932_japanese_ci'', ''cp932_bin'', ''gb18030_chinese_ci'', ''gb18030_bin'',
      ''gb18030_unicode_520_ci'']"

definition default_addr :: "dsn_Config \<Rightarrow> dsn_error + dsn_Config" where
  "default_addr cfg =
     (if Addr cfg = [] then
        if Net cfg = ''tcp'' then Inr (cfg\<lparr>Addr := ''127.0.0.1:3306''\<rparr>)
        else if Net cfg = ''unix'' then Inr (cfg\<lparr>Addr := ''/tmp/mysql.sock''\<rparr>)
        else Inl (NoDefaultAddr (Net cfg))
      else if Net cfg = ''tcp'' then Inr (cfg\<lparr>Addr := ensureHavePort (Addr cfg)\<rparr>)
      else Inr cfg)"

definition dsn_normalize :: "dsn_Config \<Rightarrow> dsn_error + dsn_Config" where
  "dsn_normalize cfg =
     (if InterpolateParams cfg \<and> Collation cfg \<in> set unsafeCollations then Inl UnsafeCollation
      else
        case default_addr (if Net cfg = [] then cfg\<lparr>Net := ''tcp''\<rparr> else cfg) of
          Inl err \<Rightarrow> Inl err
        | Inr c1 \<Rightarrow>
            Inr (case dsn_tls c1 of
                   None \<Rightarrow> c1
                 | Some t \<Rightarrow>
                     if ServerName t = [] \<and> \<not> InsecureSkipVerify t then
                       (case SplitHostPort (Addr c1) of
                          None \<Rightarrow> c1
                        | Some (host, port) \<Rightarrow> c1\<lparr>dsn_tls := Some (t\<lparr>ServerName := host\<rparr>)\<rparr>)
                     else c1))"

section \<open>Parameters\<close>

definition readBool :: "string \<Rightarrow> bool option" where
  "readBool input =
     (if input \<in> {''1'', ''true'', ''TRUE'', ''True''} then Some True
      else if input \<in> {''0'', ''false'', ''FALSE'', ''False''} then Some False
      else None)"

text \<open>
  \<open>strings.ToLower\<close> as far as its result can be ASCII: the letters, and the two runes outside ASCII
  with an ASCII lower case (U+0130 and U+212A).
\<close>

definition lower :: "char \<Rightarrow> char" where
  "lower c = (let n = of_char c :: nat in if 65 \<le> n \<and> n \<le> 90 then char_of (n + 32) else c)"

fun ToLower :: "string \<Rightarrow> string" where
  "ToLower (a # b # c # s) =
     (if a = CHR 0xC4 \<and> b = CHR 0xB0 then CHR ''i'' # ToLower (c # s)
      else if a = CHR 0xE2 \<and> b = CHR 0x84 \<and> c = CHR 0xAA then CHR ''k'' # ToLower s
      else lower a # ToLower (b # c # s))"
| "ToLower [a, b] = (if a = CHR 0xC4 \<and> b = CHR 0xB0 then ''i'' else [lower a, lower b])"
| "ToLower [a] = [lower a]"
| "ToLower [] = []"

definition bool_param :: "string \<Rightarrow> (bool \<Rightarrow> dsn_Config) \<Rightarrow> (dsn_error + dsn_Config) run" where
  "bool_param value upd =
     Returns (case readBool value of None \<Rightarrow> Inl (InvalidBool value) | Some b \<Rightarrow> Inr (upd b))"

definition duration_param :: "dsn_env \<Rightarrow> string \<Rightarrow> (int \<Rightarrow> dsn_Config) \<Rightarrow> (dsn_error + dsn_Config) run" where
  "duration_param env value upd =
     Returns (case ParseDuration env value of None \<Rightarrow> Inl (BadDuration value) | Some d \<Rightarrow> Inr (upd d))"

definition tls_param :: "dsn_env \<Rightarrow> string \<Rightarrow> dsn_Config \<Rightarrow> dsn_error + dsn_Config" where
  "tls_param env value cfg =
     (case readBool value of
        Some True \<Rightarrow> Inr (cfg\<lparr>TLSConfig := ''true'', dsn_tls := Some \<lparr>ServerName = [], InsecureSkipVerify = False\<rparr>\<rparr>)
      | Some False \<Rightarrow> Inr (cfg\<lparr>TLSConfig := ''false''\<rparr>)
      | None \<Rightarrow>
          let vl = ToLower value
          in if vl = ''skip-verify'' \<or> vl = ''preferred'' then
               Inr (cfg\<lparr>TLSConfig := vl, dsn_tls := Some \<lparr>ServerName = [], InsecureSkipVerify = True\<rparr>\<rparr>)
             else
               (case QueryUnescape value of
                  None \<Rightarrow> Inl (BadEscape value)
                | Some name \<Rightarrow>
                    (case tlsConfigRegistry env name of
                       Some t \<Rightarrow> Inr (cfg\<lparr>TLSConfig := name, dsn_tls := Some t\<rparr>)
                     | None \<Rightarrow> Inl (UnknownTLS name))))"

text \<open>The switch in the loop of \<open>parseDSNParams\<close>; the parameter \<open>strict\<close> panics.  \<open>time.LoadLocation\<close>
  answers the empty name and \<open>UTC\<close> with the location UTC.\<close>

definition set_param :: "dsn_env \<Rightarrow> string \<Rightarrow> string \<Rightarrow> dsn_Config \<Rightarrow> (dsn_error + dsn_Config) run" where
  "set_param env key value cfg =
     (if key = ''allowAllFiles'' then bool_param value (\<lambda>b. cfg\<lparr>AllowAllFiles := b\<rparr>)
      else if key = ''allowCleartextPasswords'' then bool_param value (\<lambda>b. cfg\<lparr>AllowCleartextPasswords := b\<rparr>)
      else if key = ''allowNativePasswords'' then bool_param value (\<lambda>b. cfg\<lparr>AllowNativePasswords := b\<rparr>)
      else if key = ''allowOldPasswords'' then bool_param value (\<lambda>b. cfg\<lparr>AllowOldPasswords := b\<rparr>)
      else if key = ''clientFoundRows'' then bool_param value (\<lambda>b. cfg\<lparr>ClientFoundRows := b\<rparr>)
      else if key = ''collation'' then Returns (Inr (cfg\<lparr>Collation := value\<rparr>))
      else if key = ''columnsWithAlias'' then bool_param value (\<lambda>b. cfg\<lparr>ColumnsWithAlias := b\<rparr>)
      else if key = ''compress'' then Returns (Inl NoCompression)
      else if key = ''interpolateParams'' then bool_param value (\<lambda>b. cfg\<lparr>InterpolateParams := b\<rparr>)
      else if key = ''loc'' then
        Returns (case QueryUnescape value of
                   None \<Rightarrow> Inl (BadEscape value)
                 | Some name \<Rightarrow>
                     if name = [] \<or> name = ''UTC'' then Inr (cfg\<lparr>Loc := ''UTC''\<rparr>)
                     else if LoadLocation env name then Inr (cfg\<lparr>Loc := name\<rparr>) else Inl (BadLocation name))
      else if key = ''multiStatements'' then bool_param value (\<lambda>b. cfg\<lparr>MultiStatements := b\<rparr>)
      else if key = ''parseTime'' then bool_param value (\<lambda>b. cfg\<lparr>ParseTime := b\<rparr>)
      else if key = ''readTimeout'' then duration_param env value (\<lambda>d. cfg\<lparr>ReadTimeout := d\<rparr>)
      else if key = ''rejectReadOnly'' then bool_param value (\<lambda>b. cfg\<lparr>RejectReadOnly := b\<rparr>)
      else if key = ''serverPubKey'' then
        Returns (case QueryUnescape value of
                   None \<Rightarrow> Inl (BadEscape value)
                 | Some name \<Rightarrow>
                     if name \<in> serverPubKeyRegistry env then Inr (cfg\<lparr>ServerPubKey := name\<rparr>)
                     else Inl (UnknownPubKey name))
      else if key = ''strict'' then Panics
      else if key = ''timeout'' then duration_param env value (\<lambda>d. cfg\<lparr>Timeout := d\<rparr>)
      else if key = ''tls'' then Returns (tls_param env value cfg)
      else if key = ''writeTimeout'' then duration_param env value (\<lambda>d. cfg\<lparr>WriteTimeout := d\<rparr>)
      else if key = ''maxAllowedPacket'' then
        Returns (case Atoi value of
                   (n, None) \<Rightarrow> Inr (cfg\<lparr>MaxAllowedPacket := n\<rparr>)
                 | (n, Some err) \<Rightarrow> Inl (BadNumber err))
      else
        Returns (case QueryUnescape value of
                   None \<Rightarrow> Inl (BadEscape value)
                 | Some v \<Rightarrow> Inr (cfg\<lparr>Params := (Params cfg)(key \<mapsto> v)\<rparr>)))"

text \<open>\<open>strings.SplitN(v, "=", 2)\<close>; a text without \<open>=\<close> is skipped.\<close>

fun parse_params :: "dsn_env \<Rightarrow> string list \<Rightarrow> dsn_Config \<Rightarrow> (dsn_error + dsn_Config) run" where
  "parse_params env [] cfg = Returns (Inr cfg)"
| "parse_params env (v # vs) cfg =
     (case first_at CHR ''='' v of
        None \<Rightarrow> parse_params env vs cfg
      | Some i \<Rightarrow>
          (case set_param env (take i v) (drop (Suc i) v) cfg of
             Panics \<Rightarrow> Panics
           | Returns (Inl err) \<Rightarrow> Returns (Inl err)
           | Returns (Inr cfg') \<Rightarrow> parse_params env vs cfg'))"

definition parseDSNParams :: "dsn_env \<Rightarrow> string \<Rightarrow> dsn_Config \<Rightarrow> (dsn_error + dsn_Config) run" where
  "parseDSNParams env params cfg = parse_params env (strings_Split params CHR ''&'') cfg"

section \<open>ParseDSN\<close>

text \<open>The part before the last slash, \<open>[user[:password]@][net[(addr)]]\<close>.\<close>

definition parse_user :: "string \<Rightarrow> dsn_Config \<Rightarrow> dsn_Config" where
  "parse_user s cfg =
     (case first_at CHR '':'' s of
        None \<Rightarrow> cfg\<lparr>User := s\<rparr>
      | Some k \<Rightarrow> cfg\<lparr>Passwd := drop (Suc k) s, User := take k s\<rparr>)"

definition parse_net :: "string \<Rightarrow> dsn_Config \<Rightarrow> dsn_error + dsn_Config" where
  "parse_net s cfg =
     (case first_at CHR ''('' s of
        None \<Rightarrow> Inr (cfg\<lparr>Net := s\<rparr>)
      | Some k \<Rightarrow>
          if last s \<noteq> CHR '')'' then
            Inl (if CHR '')'' \<in> set (drop (Suc k) s) then InvalidUnescaped else InvalidAddr)
          else Inr (cfg\<lparr>Addr := butlast (drop (Suc k) s), Net := take k s\<rparr>))"

definition parse_left :: "string \<Rightarrow> dsn_Config \<Rightarrow> dsn_error + dsn_Config" where
  "parse_left s cfg =
     (case last_at CHR ''@'' s of
        None \<Rightarrow> parse_net s cfg
      | Some j \<Rightarrow> parse_net (drop (Suc j) s) (parse_user (take j s) cfg))"

text \<open>The part behind it, \<open>dbname[?params]\<close>.\<close>

definition parse_right :: "dsn_env \<Rightarrow> string \<Rightarrow> dsn_Config \<Rightarrow> (dsn_error + dsn_Config) run" where
  "parse_right env s cfg =
     (case first_at CHR ''?'' s of
        None \<Rightarrow> Returns (Inr (cfg\<lparr>DBName := s\<rparr>))
      | Some j \<Rightarrow>
          (case parseDSNParams env (drop (Suc j) s) cfg of
             Returns (Inr cfg') \<Rightarrow> Returns (Inr (cfg'\<lparr>DBName := take j s\<rparr>))
           | other \<Rightarrow> other))"

definition ParseDSN :: "dsn_env \<Rightarrow> string \<Rightarrow> (dsn_error + dsn_Config) run" where
  "ParseDSN env dsn =
     (case last_at CHR ''/'' dsn of
        None \<Rightarrow> if dsn \<noteq> [] then Returns (Inl NoSlash) else Returns (dsn_normalize NewConfig)
      | Some i \<Rightarrow>
          (case (if i > 0 then parse_left (take i dsn) NewConfig else Inr NewConfig) of
             Inl err \<Rightarrow> Returns (Inl err)
           | Inr cfg \<Rightarrow>
               (case parse_right env (drop (Suc i) dsn) cfg of
                  Returns (Inr cfg') \<Rightarrow> Returns (dsn_normalize cfg')
                | other \<Rightarrow> other)))"

text \<open>\<open>OpenConnector\<close>, which \<open>sql.Open\<close> calls: it only keeps the configuration.\<close>

definition OpenConnector :: "dsn_env \<Rightarrow> string \<Rightarrow> (dsn_error + dsn_Config) run" where
  "OpenConnector env dsn = ParseDSN env dsn"

section \<open>Lemmas\<close>

lemma first_at_append: "c \<notin> set a \<Longrightarrow> first_at c (a @ c # b) = Some (length a)"
  by (induction a) auto

lemma last_at_append: "c \<notin> set b \<Longrightarrow> last_at c (a @ c # b) = Some (length a)"
  using first_at_append [of c "rev b" "rev a"] by (simp add: last_at_def)

lemma first_at_None: "c \<notin> set s \<Longrightarrow> first_at c s = None"
  by (induction s) auto

text \<open>The parameters in the program's text.\<close>

lemma parse_params_connStr:
  "parseDSNParams env ''autocommit=0&collation=utf8_general_ci&parseTime=true'' cfg =
     Returns (Inr (cfg\<lparr>Params := (Params cfg)(''autocommit'' \<mapsto> ''0''), Collation := ''utf8_general_ci'',
       ParseTime := True\<rparr>))"
  by (simp add: parseDSNParams_def set_param_def bool_param_def readBool_def)

section \<open>Properties\<close>

text \<open>
  C37. The driver takes from the text \<open>DbInit\<close> composes exactly the user, password, address and
  database of the configuration, with autocommit off, times parsed and the collation named, whatever
  the password is; the port 3306 is added to an address without one.  The user must not contain a
  colon, the address no \<open>@\<close>, the database neither a slash nor a question mark.
\<close>

theorem ParseDSN_connStr:
  assumes "CHR '':'' \<notin> set (GetStr cf ''mysql'' ''USER_NAME'')"
    and "CHR ''@'' \<notin> set (GetStr cf ''mysql'' ''ADDR_PORT'')"
    and "CHR ''/'' \<notin> set (GetStr cf ''mysql'' ''DATA_BASE'')"
    and "CHR ''?'' \<notin> set (GetStr cf ''mysql'' ''DATA_BASE'')"
  shows "ParseDSN env (connStr cf) = Returns (Inr
    (NewConfig\<lparr>User := GetStr cf ''mysql'' ''USER_NAME'', Passwd := GetStr cf ''mysql'' ''USER_PASS'', Net := ''tcp'',
       Addr := (if GetStr cf ''mysql'' ''ADDR_PORT'' = [] then ''127.0.0.1:3306''
                else ensureHavePort (GetStr cf ''mysql'' ''ADDR_PORT'')),
       DBName := GetStr cf ''mysql'' ''DATA_BASE'', Params := [''autocommit'' \<mapsto> ''0''],
       Collation := ''utf8_general_ci'', ParseTime := True\<rparr>))"
proof -
  define u p a d where "u = GetStr cf ''mysql'' ''USER_NAME''" and "p = GetStr cf ''mysql'' ''USER_PASS''"
    and "a = GetStr cf ''mysql'' ''ADDR_PORT''" and "d = GetStr cf ''mysql'' ''DATA_BASE''"
  note defs = u_def p_def a_def d_def
  define l where "l = u @ '':'' @ p @ ''@tcp('' @ a @ '')''"
  define ps where "ps = ''autocommit=0&collation=utf8_general_ci&parseTime=true''"
  have s: "connStr cf = l @ CHR ''/'' # (d @ CHR ''?'' # ps)"
    by (simp add: connStr_def defs ps_def l_def)
  have "CHR ''/'' \<notin> set (d @ CHR ''?'' # ps)" using assms(3) by (simp add: defs ps_def)
  then have 1: "last_at CHR ''/'' (connStr cf) = Some (length l)"
    unfolding s by (rule last_at_append)
  have 2: "last_at CHR ''@'' (u @ '':'' @ p @ ''@tcp('' @ a @ '')'') = Some (length (u @ '':'' @ p))"
    using last_at_append [of "CHR ''@''" "''tcp('' @ a @ '')''" "u @ '':'' @ p"] assms(2) by (simp add: defs)
  have 3: "parse_user (u @ '':'' @ p) NewConfig = NewConfig\<lparr>Passwd := p, User := u\<rparr>"
    using first_at_append [of "CHR '':''" u p] assms(1) by (simp add: parse_user_def defs)
  have 4: "parse_net (''tcp('' @ a @ '')'') cfg = Inr (cfg\<lparr>Addr := a, Net := ''tcp''\<rparr>)" for cfg
    by (simp add: parse_net_def butlast_append)
  have 5: "parse_right env (d @ CHR ''?'' # ps) cfg = Returns (Inr (cfg\<lparr>Params := (Params cfg)(''autocommit'' \<mapsto> ''0''),
      Collation := ''utf8_general_ci'', ParseTime := True, DBName := d\<rparr>))" for cfg
    using first_at_append [of "CHR ''?''" d ps] assms(4) parse_params_connStr [of env cfg]
    by (simp add: parse_right_def defs ps_def)
  have 6: "parse_left l NewConfig =
      Inr (NewConfig\<lparr>Passwd := p, User := u, Addr := a, Net := ''tcp''\<rparr>)"
    using 2 3 4 by (simp add: parse_left_def l_def)
  have 7: "take (length l) (connStr cf) = l" "drop (Suc (length l)) (connStr cf) = d @ CHR ''?'' # ps"
    by (simp_all add: s)
  have 8: "length l > 0" by (simp add: l_def)
  have "ParseDSN env (connStr cf) = Returns (dsn_normalize (NewConfig\<lparr>Passwd := p, User := u, Addr := a, Net := ''tcp'',
      Params := [''autocommit'' \<mapsto> ''0''], Collation := ''utf8_general_ci'', ParseTime := True, DBName := d\<rparr>))"
    by (simp only: ParseDSN_def 1 option.case 7 8 if_True 6 sum.case 5 run.case) (simp add: NewConfig_def)
  also have "\<dots> = Returns (Inr (NewConfig\<lparr>User := u, Passwd := p, Net := ''tcp'',
       Addr := (if a = [] then ''127.0.0.1:3306'' else ensureHavePort a), DBName := d,
       Params := [''autocommit'' \<mapsto> ''0''], Collation := ''utf8_general_ci'', ParseTime := True\<rparr>))"
    by (simp add: dsn_normalize_def default_addr_def NewConfig_def)
  finally show ?thesis by (simp only: defs)
qed

text \<open>A configuration with a password full of separators, for the witness.\<close>

definition dsn_conf :: Conf where
  "dsn_conf =
     \<lparr>items = [''mysql'' \<mapsto> 0],
      maps = (\<lambda>_. [''USER_NAME'' \<mapsto> ''root'', ''USER_PASS'' \<mapsto> ''p:@/?('', ''ADDR_PORT'' \<mapsto> ''10.0.0.7'',
               ''DATA_BASE'' \<mapsto> ''agents''])\<rparr>"

theorem ParseDSN_connStr_witness:
  "\<exists>cfg. ParseDSN \<lparr>LoadLocation = (\<lambda>_. True), ParseDuration = (\<lambda>_. None), DurationString = (\<lambda>_. []), serverPubKeyRegistry = {},
        tlsConfigRegistry = Map.empty\<rparr> ''root:p:@/?(@tcp(10.0.0.7)/agents?autocommit=0&collation=utf8_general_ci&parseTime=true''
      = Returns (Inr cfg) \<and> User cfg = ''root'' \<and> Passwd cfg = ''p:@/?('' \<and> Addr cfg = ''10.0.0.7:3306'' \<and>
        DBName cfg = ''agents''"
proof -
  have g: "GetStr dsn_conf ''mysql'' ''USER_NAME'' = ''root''" "GetStr dsn_conf ''mysql'' ''USER_PASS'' = ''p:@/?(''"
    "GetStr dsn_conf ''mysql'' ''ADDR_PORT'' = ''10.0.0.7''" "GetStr dsn_conf ''mysql'' ''DATA_BASE'' = ''agents''"
    by (simp_all add: GetStr_def dsn_conf_def)
  have port: "ensureHavePort ''10.0.0.7'' = ''10.0.0.7:3306''"
    by (simp add: ensureHavePort_def SplitHostPort_def last_at_def JoinHostPort_def)
  show ?thesis
    using ParseDSN_connStr [of dsn_conf, unfolded g connStr_def port] by simp
qed

end
