(* ===== verification/Commands.thy ===== *)
theory Commands
  imports Link Agent_Steps Goconfig Http_Routes Logs Server_Streams Mysql_Dsn
begin

text \<open>
  The two programs (\<open>src/command/agent/agent.go\<close>, \<open>src/command/server/server.go\<close>): the order in which
  they initialise their parts, up to the point where the goroutines take over.
\<close>

section \<open>The agent\<close>

text \<open>The registrations of \<open>main\<close>, one \<open>ClientDiscovery\<close> after the other.\<close>

fun register_all :: "'e etcd_api \<Rightarrow> EtcdClient \<Rightarrow> string \<Rightarrow> (string \<times> string) list \<Rightarrow> 'e \<Rightarrow> 'e run" where
  "register_all api ec localip [] e = Returns e"
| "register_all api ec localip ((infoname, infodata) # rest) e =
     (case ClientDiscovery api ec localip infoname infodata e of
        Panics \<Rightarrow> Panics
      | Returns e' \<Rightarrow> register_all api ec localip rest e')"

definition registrations :: "OsInfo \<Rightarrow> (string \<times> string) list" where
  "registrations o1 =
     [(''ip'', Localip o1), (''os'', Os o1), (''hostname'', Hostname o1), (''cpu'', Itoa (Cpu o1)),
      (''mem'', Mem o1), (''pingswitch'', ''OFF''), (''tcpswitch'', ''OFF''), (''pcapswitch'', ''OFF''),
      (''pcapiface'', []), (''pcapfilter'', [])]"

definition etcd_endpoint :: string where
  "etcd_endpoint = ''192.168.159.133:2379''"

text \<open>
  \<open>main\<close> of the agent.  The value of the key \<open>logdir\<close> is passed as the log file.
\<close>

definition agent_main ::
    "'e etcd_api \<Rightarrow> host \<Rightarrow> (string \<Rightarrow> error option) \<Rightarrow> OsInfo \<Rightarrow> logger \<Rightarrow> 'e
      \<Rightarrow> (OsInfo \<times> EtcdClient \<times> logger \<times> Agent \<times> 'e) run" where
  "agent_main api ho openFile o0 lg e =
     (case ColInit ho o0 of
        Panics \<Rightarrow> Panics
      | Returns o1 \<Rightarrow>
          let localip = Localip o1
          in (case ClientInit api localip [etcd_endpoint] e of
                Panics \<Rightarrow> Panics
              | Returns (ec, e1) \<Rightarrow>
                  let loglevel = cfg_value api e1 ''/server/cfg/common/loglevel'';
                      logdir = cfg_value api e1 ''/server/cfg/common/logdir''
                  in (case AgentInitLog openFile logdir loglevel lg of
                        Panics \<Rightarrow> Panics
                      | Returns lg' \<Rightarrow>
                          (case register_all api ec localip (registrations o1) e1 of
                             Panics \<Rightarrow> Panics
                           | Returns e2 \<Rightarrow> Returns (o1, ec, lg', NewAgent localip, e2)))))"

section \<open>The server\<close>

text \<open>\<open>None\<close> stands for a walk through the routing tree that ran out of fuel.\<close>

definition server_main ::
    "'f goconfig \<Rightarrow> 'e etcd_api \<Rightarrow> 'd sql_api \<Rightarrow> (string \<Rightarrow> error option) \<Rightarrow> string \<Rightarrow> logger \<Rightarrow> MySQLUtil
      \<Rightarrow> 'd \<Rightarrow> 'e \<Rightarrow> (Conf \<times> EtcdClient \<times> logger \<times> MySQLUtil \<times> TcpServer
          \<times> http_handler Engine \<times> 'e) run option" where
  "server_main gc api sql openFile confPath lg m d e =
     (case CfgInit gc confPath of
        Panics \<Rightarrow> Some Panics
      | Returns cf \<Rightarrow>
          (case ClientInit api ''127.0.0.1'' [etcd_endpoint] e of
             Panics \<Rightarrow> Some Panics
           | Returns (ec, e1) \<Rightarrow>
               (case ServerInitLog openFile cf lg of
                  Panics \<Rightarrow> Some Panics
                | Returns lg' \<Rightarrow>
                    (case DbInit sql cf d m of
                       Panics \<Rightarrow> Some Panics
                     | Returns m' \<Rightarrow>
                         and_then (InitRouter openFile cf)
                           (\<lambda>router. Some (Returns (cf, ec, lg', m', InitServer, router, e1)))))))"

section \<open>What a started agent has registered\<close>

lemma ClientDiscovery_kv:
  assumes "etcd_documented api kv" and "ClientDiscovery api ec ip nm v e = Returns e'"
  shows "kv e' = (kv e)(discovery_key ip nm \<mapsto> v)"
  using assms(2) etcd_PutLease [OF assms(1), of e "discovery_key ip nm" v "Leaseid ec"]
  by (auto simp: ClientDiscovery_def split: prod.splits option.splits)

lemma discovery_key_inj: "discovery_key ip a = discovery_key ip b \<longleftrightarrow> a = b"
  by (simp add: discovery_key_def)

lemma register_all_kv:
  assumes "etcd_documented api kv" and "register_all api ec ip kvs e = Returns e'"
    and "distinct (map fst kvs)"
  shows "(nm, v) \<in> set kvs \<Longrightarrow> kv e' (discovery_key ip nm) = Some v"
    and "k \<notin> discovery_key ip ` fst ` set kvs \<Longrightarrow> kv e' k = kv e k"
proof -
  have "((nm, v) \<in> set kvs \<longrightarrow> kv e' (discovery_key ip nm) = Some v) \<and>
      (\<forall>k. k \<notin> discovery_key ip ` fst ` set kvs \<longrightarrow> kv e' k = kv e k)"
    using assms(2,3)
  proof (induction kvs arbitrary: e)
    case (Cons x kvs)
    obtain n w where x: "x = (n, w)" by force
    from Cons.prems x obtain e1 where
      e1: "ClientDiscovery api ec ip n w e = Returns e1" "register_all api ec ip kvs e1 = Returns e'"
      by (auto split: run.splits)
    note kv1 = ClientDiscovery_kv [OF assms(1) e1(1)]
    have d: "distinct (map fst kvs)" "n \<notin> fst ` set kvs" using Cons.prems x by auto
    note IH = Cons.IH [OF e1(2) d(1)]
    have "discovery_key ip n \<notin> discovery_key ip ` fst ` set kvs"
      using d(2) by (simp add: image_iff discovery_key_inj)
    with IH kv1 have "kv e' (discovery_key ip n) = Some w" by simp
    with IH kv1 x show ?case by auto
  qed simp
  then show "(nm, v) \<in> set kvs \<Longrightarrow> kv e' (discovery_key ip nm) = Some v"
    and "k \<notin> discovery_key ip ` fst ` set kvs \<Longrightarrow> kv e' k = kv e k" by auto
qed

lemma registrations_distinct: "distinct (map fst (registrations o1))"
  by (simp add: registrations_def)

lemma agent_main_parts:
  assumes "agent_main api ho openFile o0 lg e = Returns (o1, ec, lg', a, e2)"
  obtains e1 where "ColInit ho o0 = Returns o1" and "a = NewAgent (Localip o1)"
    and "register_all api ec (Localip o1) (registrations o1) e1 = Returns e2"
  using assms by (auto simp: agent_main_def Let_def split: run.splits prod.splits)

section \<open>Properties\<close>

text \<open>
  A started agent has registered itself: etcd holds its address, platform, host name,
  processors, memory and the three switches, each under its own key, and the agent carries the
  same address.
\<close>

lemma agent_main_registers:
  assumes "etcd_documented api kv" and "agent_main api ho openFile o0 lg e = Returns (o1, ec, lg', a, e2)"
    and "(name, val) \<in> set (registrations o1)"
  shows "kv e2 (''/server/'' @ LocalIp a @ ''/'' @ name) = Some val"
proof -
  obtain e1 where "a = NewAgent (Localip o1)"
    "register_all api ec (Localip o1) (registrations o1) e1 = Returns e2"
    using agent_main_parts [OF assms(2)] by blast
  with register_all_kv(1) [OF assms(1) this(2) registrations_distinct assms(3)] show ?thesis
    by (simp add: NewAgent_def ResetAgent_def discovery_key_def)
qed

text \<open>The start of an agent on a machine with no memory counter.\<close>

definition demo_host :: host where
  "demo_host =
     \<lparr>GOOS = ''darwin'', dial_local_addr = Inr ''10.0.0.1:5000'', os_Hostname = Inr ''box'', GOMAXPROCS = 4,
      memory_status = (1, 0), host_exec = (\<lambda>_ _. ([], None))\<rparr>"

definition demo_os :: OsInfo where
  "demo_os = \<lparr>Os = ''darwin'', Localip = ''10.0.0.1'', Hostname = ''box'', Cpu = 4, Mem = ''Unsupport OS''\<rparr>"

lemma demo_ColInit: "ColInit demo_host \<lparr>Os = [], Localip = [], Hostname = [], Cpu = 0, Mem = []\<rparr> = Returns demo_os"
  by (simp add: ColInit_def GetLocalIp_def GetOS_def GetHostname_def GetCpu_def GetMem_def demo_host_def
      demo_os_def go_index_def)

lemma demo_agent_main:
  "\<exists>lg' e2. agent_main mem_api demo_host (\<lambda>_. None) \<lparr>Os = [], Localip = [], Hostname = [], Cpu = 0, Mem = []\<rparr>
     fresh_logger [] = Returns (demo_os, \<lparr>Ip = ''10.0.0.1'', Leaseid = 1\<rparr>, lg', NewAgent ''10.0.0.1'', e2)"
  by (simp add: agent_main_def demo_ColInit ClientInit_def AgentInitLog_def registrations_def
      ClientDiscovery_def mem_api_def go_index_def demo_os_def Let_def)

text \<open>
  Right after its start an agent probes nothing: as long as etcd answers, the first turns of
  the ping, the TCP and the capture loop see their switch OFF and go on without any probe.
\<close>

lemma agent_starts_idle:
  assumes "etcd_documented api kv" and "agent_main api ho openFile o0 lg e = Returns (o1, ec, lg', a, e2)"
    and "\<And>url. \<exists>kvs. api_GetPrefix api e2 url = Inr kvs"
  shows "PingDetct_turn api e2 ix resolve net now (a, i, x) = Returns (True, a, i, x) \<and>
    TcpDetct_turn api e2 ix resolve tnet now (a, x) = Returns (True, a, x) \<and>
    PcapDump_turn api e2 openLive dial pkts (a, c) = Returns (True, a, c)"
proof -
  obtain e1 where a: "a = NewAgent (Localip o1)"
    and r: "register_all api ec (Localip o1) (registrations o1) e1 = Returns e2"
    using agent_main_parts [OF assms(2)] by blast
  have sw: "cfg_value api e2 (''/server/'' @ LocalIp a @ ''/'' @ sw) = ''OFF''"
    if "(sw, ''OFF'') \<in> set (registrations o1)" for sw
  proof -
    have "kv e2 (''/server/'' @ LocalIp a @ ''/'' @ sw) = Some ''OFF''"
      using register_all_kv(1) [OF assms(1) r registrations_distinct that] a
      by (simp add: NewAgent_def ResetAgent_def discovery_key_def)
    moreover obtain kvs where "api_GetPrefix api e2 (''/server/'' @ LocalIp a @ ''/'' @ sw) = Inr kvs"
      using assms(3) by blast
    ultimately show ?thesis using GetSingleCfg_present [OF assms(1)] by (simp add: cfg_value_def)
  qed
  have v: "a_Valid a" "PingSwitch a = ''OFF''" "TcpSwitch a = ''OFF''" "PcapSwitch a = ''OFF''"
    by (simp_all add: a NewAgent_def ResetAgent_def)
  have same: "a\<lparr>PingSwitch := ''OFF''\<rparr> = a" "a\<lparr>TcpSwitch := ''OFF''\<rparr> = a" "a\<lparr>PcapSwitch := ''OFF''\<rparr> = a"
    by (simp_all add: a NewAgent_def ResetAgent_def)
  show ?thesis
    using sw [of "''pingswitch''"] sw [of "''tcpswitch''"] sw [of "''pcapswitch''"] v same
    by (simp add: PingDetct_turn_def TcpDetct_turn_def PcapDump_turn_def registrations_def Let_def)
qed



end
