(* ===== verification/Composed.thy ===== *)
theory Composed
  imports Server_Streams Agent_Steps Link
begin

text \<open>
  Server and agents as one system.  Every connection of the server has an agent at its other end;
  the network hands over the bytes one end has written to the other end, in order and in pieces of
  any size, or reports an error.  The server moves by \<open>srv_step\<close>, an agent by the turns of its six
  loops, and all of them share one etcd and one influx.  The records \<open>n_read\<close> and \<open>n_got\<close> are
  histories: the messages either end has taken from its reader (the agent's with the machine at
  that moment).
\<close>

section \<open>The system\<close>

record ('e, 'x) node =
  n_agent :: Agent
  n_around :: "('e, 'x) surroundings"
  n_running :: "loop set"
  n_up :: nat
  n_down :: nat
  n_read :: "Msg list"
  n_got :: "(Msg \<times> machine) list"

record ('e, 'x) system =
  sys_server :: "'e world"
  sys_nodes :: "client_ref \<rightharpoonup> ('e, 'x) node"
  sys_influx :: 'x

definition system_boot :: "'e \<Rightarrow> 'x \<Rightarrow> ('e, 'x) system" where
  "system_boot e x = \<lparr>sys_server = boot e, sys_nodes = Map.empty, sys_influx = x\<rparr>"

text \<open>An agent right after a successful dial: all six goroutines run, nothing has been exchanged.\<close>

definition dialed :: "Agent \<Rightarrow> ('e, 'x) surroundings \<Rightarrow> ('e, 'x) node" where
  "dialed a s =
     \<lparr>n_agent = a, n_around = s, n_running = UNIV, n_up = 0, n_down = 0, n_read = [], n_got = []\<rparr>"

text \<open>A connection between its set-up and its first use; writes may fail, but never in the middle.\<close>

definition unused_conn :: "conn \<Rightarrow> bool" where
  "unused_conn k \<longleftrightarrow> new_conn k \<and> inbound k = [] \<and> whole_writes k"

text \<open>One step writes less than 4 GB to a connection, so that every length field is exact.\<close>

definition modest :: "conn \<Rightarrow> conn \<Rightarrow> bool" where
  "modest k k' \<longleftrightarrow> length (outbound k') + 256 \<le> length (outbound k) + 2 ^ 32"

text \<open>The messages of client \<open>r\<close> a step of the server has taken from its readers.\<close>

definition read_by_server :: "'e world \<Rightarrow> 'e world \<Rightarrow> client_ref \<Rightarrow> Msg list" where
  "read_by_server w w' r =
     map fst (filter (\<lambda>j. snd j = r) (drop (length (jobs w)) (jobs w')))"

definition note_read :: "'e world \<Rightarrow> 'e world \<Rightarrow> (client_ref \<rightharpoonup> ('e, 'x) node) \<Rightarrow> (client_ref \<rightharpoonup> ('e, 'x) node)" where
  "note_read w w' ns =
     (\<lambda>r. map_option (\<lambda>n. n\<lparr>n_read := n_read n @ read_by_server w w' r\<rparr>) (ns r))"

text \<open>The message a turn of an agent's loop has taken from its reader.\<close>

definition read_by_agent ::
    "'e etcd_api \<Rightarrow> loop \<Rightarrow> 'e turn_in \<Rightarrow> 'e \<Rightarrow> Agent \<Rightarrow> (Msg \<times> machine) list" where
  "read_by_agent api l inp e a =
     (if l = LListen \<and> a_Valid a
      then (case agent_GetMsg_turn api (e, in_now inp) a of
              Return (Inr m) a' \<Rightarrow> [(m, in_machine inp)] | _ \<Rightarrow> [])
      else [])"

text \<open>What an agent finds around it, with the shared services as they are now.\<close>

definition view :: "('e, 'x) system \<Rightarrow> ('e, 'x) node \<Rightarrow> ('e, 'x) surroundings" where
  "view s n = (n_around n)\<lparr>s_etcd := etcd (sys_server s), s_influx := sys_influx s\<rparr>"

definition set_client :: "client_ref \<Rightarrow> TcpClient \<Rightarrow> ('e, 'x) system \<Rightarrow> ('e, 'x) system" where
  "set_client r c s = s\<lparr>sys_server := (sys_server s)\<lparr>srv := put_client r c (srv (sys_server s))\<rparr>\<rparr>"

definition set_node :: "client_ref \<Rightarrow> ('e, 'x) node \<Rightarrow> ('e, 'x) system \<Rightarrow> ('e, 'x) system" where
  "set_node r n s = s\<lparr>sys_nodes := (sys_nodes s)(r \<mapsto> n)\<rparr>"

definition client_at :: "('e, 'x) system \<Rightarrow> client_ref \<Rightarrow> TcpClient option" where
  "client_at s r = heap (srv (sys_server s)) r"

definition set_agent_conn :: "conn \<Rightarrow> ('e, 'x) node \<Rightarrow> ('e, 'x) node" where
  "set_agent_conn k n = n\<lparr>n_agent := (n_agent n)\<lparr>a_Conn := Some k\<rparr>\<rparr>"

inductive sys_step ::
    "'e etcd_api \<Rightarrow> 'x influx_api \<Rightarrow> Conf \<Rightarrow> ('e, 'x) system \<Rightarrow> ('e, 'x) system \<Rightarrow> bool"
  for api :: "'e etcd_api" and ix :: "'x influx_api" and cf :: Conf
where
  connect: "srv_step api cf (sys_server s) w' \<Longrightarrow> client_at s r = None \<Longrightarrow> heap (srv w') r = Some c \<Longrightarrow>
     unused_conn (Conn c) \<Longrightarrow>
     StartAgent_dial api (etcd (sys_server s)) dl (NewAgent localip) = (True, a) \<Longrightarrow>
     a_Conn a = Some k \<Longrightarrow> unused_conn k \<Longrightarrow>
     sys_step api ix cf s (set_node r (dialed a ar) (s\<lparr>sys_server := w'\<rparr>))"
| server_moves: "srv_step api cf (sys_server s) w' \<Longrightarrow>
     dom (heap (srv w')) = dom (heap (srv (sys_server s))) \<Longrightarrow>
     (\<And>r c c'. client_at s r = Some c \<Longrightarrow> heap (srv w') r = Some c' \<Longrightarrow> modest (Conn c) (Conn c')) \<Longrightarrow>
     sys_step api ix cf s
       (s\<lparr>sys_server := w', sys_nodes := note_read (sys_server s) w' (sys_nodes s)\<rparr>)"
| agent_moves: "sys_nodes s r = Some n \<Longrightarrow> l \<in> n_running n \<Longrightarrow>
     loop_turn api ix l inp (n_agent n, view s n) = Some (Returns (go, a, ar)) \<Longrightarrow>
     modest (agent_conn (n_agent n)) (agent_conn a) \<Longrightarrow>
     sys_step api ix cf s
       (set_node r (n\<lparr>n_agent := a, n_around := ar,
                      n_running := (if go then n_running n else n_running n - {l}),
                      n_got := n_got n @ read_by_agent api l inp (etcd (sys_server s)) (n_agent n)\<rparr>)
         (s\<lparr>sys_server := (sys_server s)\<lparr>etcd := s_etcd ar\<rparr>, sys_influx := s_influx ar\<rparr>))"
| agent_dies: "sys_nodes s r = Some n \<Longrightarrow> l \<in> n_running n \<Longrightarrow>
     loop_turn api ix l inp (n_agent n, view s n) = Some Panics \<Longrightarrow>
     sys_step api ix cf s (set_node r (n\<lparr>n_running := {}\<rparr>) s)"
| up: "sys_nodes s r = Some n \<Longrightarrow> client_at s r = Some c \<Longrightarrow> a_Conn (n_agent n) = Some k \<Longrightarrow>
     no_error (Conn c) \<Longrightarrow> n_up n + j \<le> length (outbound k) \<Longrightarrow>
     sys_step api ix cf s
       (set_node r (n\<lparr>n_up := n_up n + j\<rparr>)
         (set_client r (c\<lparr>Conn := hand_over (InData (take j (drop (n_up n) (outbound k)))) (Conn c)\<rparr>) s))"
| down: "sys_nodes s r = Some n \<Longrightarrow> client_at s r = Some c \<Longrightarrow> a_Conn (n_agent n) = Some k \<Longrightarrow>
     no_error k \<Longrightarrow> n_down n + j \<le> length (outbound (Conn c)) \<Longrightarrow>
     sys_step api ix cf s
       (set_node r (set_agent_conn (hand_over (InData (take j (drop (n_down n) (outbound (Conn c))))) k)
                     (n\<lparr>n_down := n_down n + j\<rparr>)) s)"
| up_fault: "client_at s r = Some c \<Longrightarrow>
     sys_step api ix cf s (set_client r (c\<lparr>Conn := hand_over (InErr err) (Conn c)\<rparr>) s)"
| down_fault: "sys_nodes s r = Some n \<Longrightarrow> a_Conn (n_agent n) = Some k \<Longrightarrow>
     sys_step api ix cf s (set_node r (set_agent_conn (hand_over (InErr err) k) n) s)"

definition sys_reachable ::
    "'e etcd_api \<Rightarrow> 'x influx_api \<Rightarrow> Conf \<Rightarrow> 'e \<Rightarrow> 'x \<Rightarrow> ('e, 'x) system \<Rightarrow> bool" where
  "sys_reachable api ix cf e x s = (sys_step api ix cf)\<^sup>*\<^sup>* (system_boot e x) s"

section \<open>What the two ends write\<close>

definition msg_pair :: "Msg \<Rightarrow> u32 \<times> byte list" where
  "msg_pair m = (MsgType m, msg_bytes m)"

lemma msg_packets: "concat (map msg_packet ms) = packets (map msg_pair ms)"
  by (induction ms) (simp_all add: msg_packet_eq msg_pair_def)

lemma agent_packet_msg: "agent_packet m = packets [msg_pair m]"
  by (simp add: agent_packet_eq msg_pair_def msg_bytes_def)

lemma modest_small:
  assumes "modest k k'" and "outbound k' = outbound k @ packets ms"
  shows "small ms"
  using assms by (intro small_bound) (simp add: modest_def)

text \<open>The server: whole packets of its own kinds of messages.\<close>

definition server_packet :: "u32 \<times> byte list \<Rightarrow> bool" where
  "server_packet x \<longleftrightarrow> (\<exists>m. server_message m \<and> x = msg_pair m)"

definition wrote :: "TcpClient \<Rightarrow> TcpClient \<Rightarrow> bool" where
  "wrote c c' \<longleftrightarrow>
     ReadBuf c' = ReadBuf c \<and> ReadMsgPayloadLth c' = ReadMsgPayloadLth c \<and>
     inbound (Conn c') = inbound (Conn c) \<and> (whole_writes (Conn c) \<longrightarrow> whole_writes (Conn c') \<and>
     (\<exists>ms. list_all server_packet ms \<and> outbound (Conn c') = outbound (Conn c) @ packets ms))"

lemma wrote_refl [simp]: "wrote c c"
  by (auto simp: wrote_def intro: exI [of _ "[]"])

lemma wrote_trans:
  assumes "wrote a b" and "wrote b c"
  shows "wrote a c"
proof (cases "whole_writes (Conn a)")
  case True
  with assms obtain ms ms' where
    "list_all server_packet ms" "outbound (Conn b) = outbound (Conn a) @ packets ms"
    "list_all server_packet ms'" "outbound (Conn c) = outbound (Conn b) @ packets ms'"
    by (auto simp: wrote_def)
  with assms True show ?thesis by (auto simp: wrote_def intro: exI [of _ "ms @ ms'"])
qed (use assms in \<open>auto simp: wrote_def\<close>)

lemma wrote_SendMsg:
  assumes "server_message m"
  shows "wrote c (SendMsg cf now m c)"
proof -
  let ?k = "(Conn c)\<lparr>write_deadline := Some (now + seconds (GetInt cf ''tcp'' ''writetimeout''))\<rparr>"
  obtain err k' where w: "conn_Write (msg_packet m) ?k = (err, k')" by force
  have s: "ReadBuf (SendMsg cf now m c) = ReadBuf c"
    "ReadMsgPayloadLth (SendMsg cf now m c) = ReadMsgPayloadLth c" "Conn (SendMsg cf now m c) = k'"
    using w by (simp_all add: SendMsg_def SetValid_def Let_def)
  have i: "inbound k' = inbound (Conn c)"
    using w by (auto simp: conn_Write_def split: if_splits list.splits out_event.splits)
  have "\<exists>ms. list_all server_packet ms \<and> outbound k' = outbound (Conn c) @ packets ms"
    if "whole_writes (Conn c)"
  proof -
    from conn_Write_whole(3) [OF w] that
    consider "outbound k' = outbound (Conn c) @ msg_packet m" | "outbound k' = outbound (Conn c)" by auto
    then show ?thesis
    proof cases
      case 1
      then show ?thesis
        using assms by (intro exI [of _ "[msg_pair m]"])
          (auto simp: msg_packet_eq msg_pair_def server_packet_def)
    qed (auto intro: exI [of _ "[]"])
  qed
  then show ?thesis using s i conn_Write_whole(1) [OF w] by (simp add: wrote_def)
qed

lemma wrote_SendMsg_pow: "server_message m \<Longrightarrow> wrote c ((SendMsg cf now m ^^ n) c)"
  by (induction n) (auto intro: wrote_trans wrote_SendMsg)

lemma wrote_HandleMsg:
  assumes "HandleMsg api cf now m c e = (err, c', e')"
  shows "wrote c c'"
proof -
  have "wrote c (SetLastHeartBeatSyncTime t c)" for t
    by (auto simp: wrote_def SetLastHeartBeatSyncTime_def intro: exI [of _ "[]"])
  moreover have "server_message \<lparr>MsgType = HeartBeat_Rsp, MsgData = [], MsgProto = None\<rparr>"
    by (simp add: server_message_def)
  ultimately show ?thesis
    using assms by (auto simp: HandleMsg_def HandleHeartBeatMsg_def intro: wrote_trans [OF _ wrote_SendMsg]
        split: if_splits prod.splits option.splits)
qed

lemma wrote_Multicast:
  assumes "visits ks s" and "table_ok s" and "server_message m" and "heap s r = Some c"
    and "heap (Multicast cf now ks ips m s) r = Some c'"
  shows "wrote c c'"
  using assms(4,5) wrote_SendMsg_pow [OF assms(3)]
  by (auto simp: Multicast_heap [OF assms(1,2)] split: if_splits)

text \<open>The agent: heartbeats, and replies to messages it has read.\<close>

definition script_reply :: "string \<Rightarrow> string \<Rightarrow> ScriptRunRsp" where
  "script_reply out taskid = ScriptRunRsp_zero\<lparr>RunRsp := out, scriptrsp_Taskid := taskid\<rparr>"

definition shell_answer :: "(Msg \<times> machine) list \<Rightarrow> u32 \<times> byte list \<Rightarrow> bool" where
  "shell_answer got x \<longleftrightarrow>
     (\<exists>d mc sm out. (mk_msg ShellRun_Msg d, mc) \<in> set got \<and>
        Unmarshal ShellRun_info ShellRun_zero d = (sm, None) \<and>
        ExecShell (m_GOOS mc) (m_exec mc) (Runcmd sm) = Inr out \<and>
        x = (ShellRun_Rsp, fst (Marshal ShellRunRsp_info (shell_reply out (shell_Taskid sm)))))"

definition script_answer :: "(Msg \<times> machine) list \<Rightarrow> u32 \<times> byte list \<Rightarrow> bool" where
  "script_answer got x \<longleftrightarrow>
     (\<exists>d mc sm out. (mk_msg ScriptRun_Msg d, mc) \<in> set got \<and>
        Unmarshal ScriptRun_info ScriptRun_zero d = (sm, None) \<and>
        ScriptExec (m_GOOS mc) (m_exec mc) (Scriptname sm) (Argvs sm) = Returns (Inr out) \<and>
        x = (ScriptRun_Rsp, fst (Marshal ScriptRunRsp_info (script_reply out (script_Taskid sm)))))"

definition agent_answer :: "(Msg \<times> machine) list \<Rightarrow> u32 \<times> byte list \<Rightarrow> bool" where
  "agent_answer got x \<longleftrightarrow>
     (\<exists>t. x = (HeartBeat_Msg, fst (Marshal Heartbeat_info (heartbeat t)))) \<or>
     shell_answer got x \<or> script_answer got x"

lemma agent_answer_mono: "agent_answer got x \<Longrightarrow> set got \<subseteq> set got' \<Longrightarrow> agent_answer got' x"
  unfolding agent_answer_def shell_answer_def script_answer_def by blast

definition agent_wrote :: "(Msg \<times> machine) list \<Rightarrow> Agent \<Rightarrow> Agent \<Rightarrow> bool" where
  "agent_wrote got a a' \<longleftrightarrow>
     a_ReadBuf a' = a_ReadBuf a \<and> a_ReadMsgPayloadLth a' = a_ReadMsgPayloadLth a \<and>
     (\<forall>k. a_Conn a = Some k \<and> whole_writes k \<longrightarrow>
       (\<exists>k' ms. a_Conn a' = Some k' \<and> whole_writes k' \<and> inbound k' = inbound k \<and>
          list_all (agent_answer got) ms \<and> outbound k' = outbound k @ packets ms))"

lemma agent_wrote_same:
  "a_ReadBuf a' = a_ReadBuf a \<Longrightarrow> a_ReadMsgPayloadLth a' = a_ReadMsgPayloadLth a \<Longrightarrow>
     a_Conn a' = a_Conn a \<Longrightarrow> agent_wrote got a a'"
  by (auto simp: agent_wrote_def intro: exI [of _ "[]"])

lemma agent_wrote_SendMsg:
  assumes "agent_SendMsg api env m a = Returns a'" and "agent_answer got (msg_pair m)"
  shows "agent_wrote got a a'"
proof -
  have same: "a_ReadBuf a' = a_ReadBuf a" "a_ReadMsgPayloadLth a' = a_ReadMsgPayloadLth a"
    using assms(1) by (auto simp: agent_SendMsg_def Let_def split: prod.splits option.splits if_splits)
  have "\<exists>k' ms. a_Conn a' = Some k' \<and> whole_writes k' \<and> inbound k' = inbound k \<and>
      list_all (agent_answer got) ms \<and> outbound k' = outbound k @ packets ms"
    if k: "a_Conn a = Some k" "whole_writes k" for k
  proof -
    obtain d err k' where w: "conn_Write (agent_packet m) (k\<lparr>write_deadline := d\<rparr>) = (err, k')"
      "a_Conn a' = Some k'"
      using assms(1) k by (auto simp: agent_SendMsg_def Let_def split: prod.splits if_splits)
    note cw = conn_Write_whole [OF w(1)]
    from cw(3) k(2) consider "outbound k' = outbound k @ agent_packet m" | "outbound k' = outbound k"
      by auto
    then show ?thesis
    proof cases
      case 1
      then show ?thesis using cw(1,2) k w(2) assms(2)
        by (intro exI [of _ k'] exI [of _ "[msg_pair m]"]) (auto simp: agent_packet_msg)
    next
      case 2
      then show ?thesis using cw(1,2) k w(2) by (intro exI [of _ k'] exI [of _ "[]"]) auto
    qed
  qed
  with same show ?thesis by (auto simp: agent_wrote_def)
qed

lemma agent_wrote_Heartbeat:
  assumes "Heartbeat_turn api env t a = Returns (go, a')"
  shows "agent_wrote got a a'"
proof -
  let ?m = "\<lparr>MsgType = HeartBeat_Msg, MsgData = [], MsgProto = Some (PB_Heartbeat (heartbeat t))\<rparr>"
  have "agent_answer got (msg_pair ?m)"
    by (auto simp: agent_answer_def msg_pair_def msg_bytes_def)
  then show ?thesis
    using assms by (auto simp: Heartbeat_turn_def heartbeat_def [symmetric] Let_def
        intro: agent_wrote_SendMsg agent_wrote_same split: if_splits run.splits)
qed

lemma agent_wrote_shell:
  assumes "HandleShellRunMsg api mc env (mk_msg ShellRun_Msg p) a = Returns a'"
    and "(mk_msg ShellRun_Msg p, mc) \<in> set got"
  shows "agent_wrote got a a'"
proof (cases "\<exists>sm out. Unmarshal ShellRun_info ShellRun_zero p = (sm, None) \<and>
    ExecShell (m_GOOS mc) (m_exec mc) (Runcmd sm) = Inr out")
  case True
  then obtain sm out where run: "Unmarshal ShellRun_info ShellRun_zero p = (sm, None)"
    "ExecShell (m_GOOS mc) (m_exec mc) (Runcmd sm) = Inr out" by blast
  let ?m = "\<lparr>MsgType = ShellRun_Rsp, MsgData = [],
    MsgProto = Some (PB_ShellRunRsp (shell_reply out (shell_Taskid sm)))\<rparr>"
  have "shell_answer got (msg_pair ?m)"
    unfolding shell_answer_def msg_pair_def
    using run assms(2) by (intro exI [of _ p] exI [of _ mc] exI [of _ sm] exI [of _ out])
      (simp add: msg_bytes_def)
  then have "agent_answer got (msg_pair ?m)" by (simp add: agent_answer_def)
  with assms(1) run show ?thesis
    by (auto simp: HandleShellRunMsg_def mk_msg_def shell_reply_def intro: agent_wrote_SendMsg)
next
  case False
  with assms(1) show ?thesis
    by (auto simp: HandleShellRunMsg_def mk_msg_def intro!: agent_wrote_same
        split: prod.splits option.splits sum.splits)
qed

lemma agent_wrote_script:
  assumes "HandleScriptRunMsg api mc env (mk_msg ScriptRun_Msg p) a = Returns a'"
    and "(mk_msg ScriptRun_Msg p, mc) \<in> set got"
  shows "agent_wrote got a a'"
proof (cases "\<exists>sm out. Unmarshal ScriptRun_info ScriptRun_zero p = (sm, None) \<and>
    ScriptExec (m_GOOS mc) (m_exec mc) (Scriptname sm) (Argvs sm) = Returns (Inr out)")
  case True
  then obtain sm out where run: "Unmarshal ScriptRun_info ScriptRun_zero p = (sm, None)"
    "ScriptExec (m_GOOS mc) (m_exec mc) (Scriptname sm) (Argvs sm) = Returns (Inr out)" by blast
  let ?m = "\<lparr>MsgType = ScriptRun_Rsp, MsgData = [],
    MsgProto = Some (PB_ScriptRunRsp (script_reply out (script_Taskid sm)))\<rparr>"
  have "script_answer got (msg_pair ?m)"
    unfolding script_answer_def msg_pair_def
    using run assms(2) by (intro exI [of _ p] exI [of _ mc] exI [of _ sm] exI [of _ out])
      (simp add: msg_bytes_def)
  then have "agent_answer got (msg_pair ?m)" by (simp add: agent_answer_def)
  with assms(1) run show ?thesis
    by (auto simp: HandleScriptRunMsg_def mk_msg_def script_reply_def intro: agent_wrote_SendMsg)
next
  case False
  with assms(1) show ?thesis
    by (auto simp: HandleScriptRunMsg_def mk_msg_def intro!: agent_wrote_same
        split: prod.splits option.splits sum.splits run.splits)
qed

lemma agent_wrote_HandleMsg:
  assumes "agent_HandleMsg api mc env (mk_msg ty p) (a, fs) = Returns (err, a', fs')"
    and "(mk_msg ty p, mc) \<in> set got"
  shows "agent_wrote got a a'"
proof -
  have ty: "MsgType (mk_msg ty p) = ty" by (simp add: mk_msg_def)
  show ?thesis
    using assms by (auto simp: agent_HandleMsg_def ty HandleHeartBeatRspMsg_def
        intro: agent_wrote_same agent_wrote_shell agent_wrote_script split: if_splits run.splits)
qed

text \<open>The loops that do not use the connection.\<close>

lemma agent_wrote_other:
  assumes "loop_turn api ix l inp (a, s) = Some (Returns (go, a', s'))" and "l \<noteq> LListen"
  shows "agent_wrote got a a'"
  using assms
  by (cases l) (auto simp: PingDetct_turn_def TcpDetct_turn_def PcapDump_turn_def DataCollect_turn_def Let_def
      intro: agent_wrote_same agent_wrote_Heartbeat split: run.splits if_splits)

section \<open>The invariant of a connection\<close>

text \<open>
  Both directions of the connection between node \<open>n\<close> and client \<open>c\<close> are channels; \<open>rd\<close> says whether
  the server still reads from it.
\<close>

definition link_inv :: "bool \<Rightarrow> ('e, 'x) node \<Rightarrow> TcpClient \<Rightarrow> bool" where
  "link_inv rd n c \<longleftrightarrow>
     (\<exists>k. a_Conn (n_agent n) = Some k \<and> whole_writes k \<and> whole_writes (Conn c) \<and>
        channel (agent_answer (n_got n)) (outbound k) (n_up n) (n_read n) rd
          (ReadBuf c) (ReadMsgPayloadLth c) (Conn c) \<and>
        channel server_packet (outbound (Conn c)) (n_down n) (map fst (n_got n)) (LListen \<in> n_running n)
          (a_ReadBuf (n_agent n)) (a_ReadMsgPayloadLth (n_agent n)) k)"

text \<open>What a turn of the server's reader leaves alone.\<close>

lemma GetMsg_turn_out:
  "GetMsg_turn cf now c = Again c' \<Longrightarrow>
     outbound (Conn c') = outbound (Conn c) \<and> whole_writes (Conn c') = whole_writes (Conn c)"
  "GetMsg_turn cf now c = Return rr c' \<Longrightarrow>
     outbound (Conn c') = outbound (Conn c) \<and> whole_writes (Conn c') = whole_writes (Conn c)"
  by (auto simp: GetMsg_turn_def take_message_def Let_def set_read_deadline_def whole_writes_def
      dest!: conn_Read_frame split: if_splits prod.splits read_result.splits option.splits)

lemma GetMsg_turn_valid:
  "GetMsg_turn cf now c = Again c' \<Longrightarrow> JudgeValid cf now c"
  "GetMsg_turn cf now c = Return (Inr m) c' \<Longrightarrow> JudgeValid cf now c"
  "GetMsg_turn cf now c = TurnPanics \<Longrightarrow> JudgeValid cf now c"
  by (auto simp: GetMsg_turn_def split: if_splits)

lemma link_wrote:
  assumes "link_inv rd n c" and "wrote c c'" and "modest (Conn c) (Conn c')"
  shows "link_inv rd n c'"
proof -
  from assms(1) obtain k where k: "a_Conn (n_agent n) = Some k" "whole_writes k" "whole_writes (Conn c)"
    "channel (agent_answer (n_got n)) (outbound k) (n_up n) (n_read n) rd
       (ReadBuf c) (ReadMsgPayloadLth c) (Conn c)"
    "channel server_packet (outbound (Conn c)) (n_down n) (map fst (n_got n)) (LListen \<in> n_running n)
       (a_ReadBuf (n_agent n)) (a_ReadMsgPayloadLth (n_agent n)) k" by (auto simp: link_inv_def)
  with assms(2) obtain ms where ms: "list_all server_packet ms"
    "outbound (Conn c') = outbound (Conn c) @ packets ms" by (auto simp: wrote_def)
  have "channel server_packet (outbound (Conn c')) (n_down n) (map fst (n_got n)) (LListen \<in> n_running n)
      (a_ReadBuf (n_agent n)) (a_ReadMsgPayloadLth (n_agent n)) k"
    using channel_write [OF k(5) modest_small [OF assms(3) ms(2)] ms(1)] ms(2) by simp
  moreover have "channel (agent_answer (n_got n)) (outbound k) (n_up n) (n_read n) rd
      (ReadBuf c') (ReadMsgPayloadLth c') (Conn c')"
    by (rule channel_mono [OF k(4)]) (use assms(2) in \<open>auto simp: wrote_def\<close>)
  ultimately show ?thesis using k(1-3) assms(2) by (auto simp: link_inv_def wrote_def)
qed

lemma link_read:
  assumes "link_inv True n c"
  shows "GetMsg_turn cf now c = Again c' \<Longrightarrow> link_inv True n c'"
    and "GetMsg_turn cf now c = Return (Inr m) c' \<Longrightarrow> link_inv True (n\<lparr>n_read := n_read n @ [m]\<rparr>) c'"
    and "GetMsg_turn cf now c \<noteq> TurnPanics"
proof -
  from assms obtain k where k: "a_Conn (n_agent n) = Some k" "whole_writes k" "whole_writes (Conn c)"
    "channel (agent_answer (n_got n)) (outbound k) (n_up n) (n_read n) True
       (ReadBuf c) (ReadMsgPayloadLth c) (Conn c)"
    "channel server_packet (outbound (Conn c)) (n_down n) (map fst (n_got n)) (LListen \<in> n_running n)
       (a_ReadBuf (n_agent n)) (a_ReadMsgPayloadLth (n_agent n)) k" by (auto simp: link_inv_def)
  note t = client_reader.channel_turn [OF k(4)]
  show "link_inv True n c'" if "GetMsg_turn cf now c = Again c'"
    using t(1) [OF GetMsg_turn_valid(1) [OF that] that] GetMsg_turn_out(1) [OF that] k
    by (auto simp: link_inv_def)
  show "link_inv True (n\<lparr>n_read := n_read n @ [m]\<rparr>) c'" if "GetMsg_turn cf now c = Return (Inr m) c'"
    using t(2) [OF GetMsg_turn_valid(2) [OF that] that] GetMsg_turn_out(2) [OF that] k
    by (auto simp: link_inv_def)
  show "GetMsg_turn cf now c \<noteq> TurnPanics"
    using t(3) GetMsg_turn_valid(3) by blast
qed

lemma link_read_end:
  assumes "link_inv rd n c" and "outbound (Conn c') = outbound (Conn c)"
    and "whole_writes (Conn c') = whole_writes (Conn c)"
  shows "link_inv False n c'"
  using assms by (auto simp: link_inv_def elim!: channel_mono)

lemma link_cong:
  assumes "link_inv rd n c" and "n_agent n' = n_agent n" and "n_up n' = n_up n" and "n_down n' = n_down n"
    and "n_read n' = n_read n" and "n_got n' = n_got n" and "n_running n' \<subseteq> n_running n"
  shows "link_inv rd n' c"
  using assms unfolding link_inv_def by (auto elim!: channel_mono)

text \<open>What a turn of the agent's reader leaves alone.\<close>

lemma agent_turn_out:
  assumes "a_Conn a = Some k"
  shows "agent_GetMsg_turn api env a = Again a' \<Longrightarrow>
      \<exists>k'. a_Conn a' = Some k' \<and> outbound k' = outbound k \<and> whole_writes k' = whole_writes k"
    and "agent_GetMsg_turn api env a = Return rr a' \<Longrightarrow>
      \<exists>k'. a_Conn a' = Some k' \<and> outbound k' = outbound k \<and> whole_writes k' = whole_writes k"
  using assms
  by (auto simp: agent_GetMsg_turn_def agent_take_message_def Let_def a_set_read_deadline_def whole_writes_def
      dest!: conn_Read_frame split: if_splits prod.splits read_result.splits option.splits)

lemma link_agent_wrote:
  assumes "link_inv rd n c" and "agent_wrote (n_got n) (n_agent n) a"
    and "modest (agent_conn (n_agent n)) (agent_conn a)"
  shows "link_inv rd (n\<lparr>n_agent := a\<rparr>) c"
proof -
  from assms(1) obtain k where k: "a_Conn (n_agent n) = Some k" "whole_writes k" "whole_writes (Conn c)"
    "channel (agent_answer (n_got n)) (outbound k) (n_up n) (n_read n) rd
       (ReadBuf c) (ReadMsgPayloadLth c) (Conn c)"
    "channel server_packet (outbound (Conn c)) (n_down n) (map fst (n_got n)) (LListen \<in> n_running n)
       (a_ReadBuf (n_agent n)) (a_ReadMsgPayloadLth (n_agent n)) k" by (auto simp: link_inv_def)
  with assms(2) obtain k' ms where w: "a_Conn a = Some k'" "whole_writes k'" "inbound k' = inbound k"
    "list_all (agent_answer (n_got n)) ms" "outbound k' = outbound k @ packets ms"
    "a_ReadBuf a = a_ReadBuf (n_agent n)" "a_ReadMsgPayloadLth a = a_ReadMsgPayloadLth (n_agent n)"
    by (auto simp: agent_wrote_def)
  have "modest k k'" using assms(3) k(1) w(1) by (simp add: agent_conn_def)
  from channel_write [OF k(4) modest_small [OF this w(5)] w(4)]
  have "channel (agent_answer (n_got n)) (outbound k') (n_up n) (n_read n) rd
      (ReadBuf c) (ReadMsgPayloadLth c) (Conn c)" using w(5) by simp
  moreover have "channel server_packet (outbound (Conn c)) (n_down n) (map fst (n_got n))
      (LListen \<in> n_running n) (a_ReadBuf a) (a_ReadMsgPayloadLth a) k'"
    by (rule channel_mono [OF k(5)]) (use w in auto)
  ultimately show ?thesis using k(3) w(1,2) by (auto simp: link_inv_def)
qed

lemma link_agent_read:
  assumes "link_inv rd n c" and "LListen \<in> n_running n" and "a_Valid (n_agent n)"
  shows "agent_GetMsg_turn api env (n_agent n) = Again a \<Longrightarrow> link_inv rd (n\<lparr>n_agent := a\<rparr>) c"
    and "agent_GetMsg_turn api env (n_agent n) = Return (Inr m) a \<Longrightarrow>
      link_inv rd (n\<lparr>n_agent := a, n_got := n_got n @ [(m, mc)]\<rparr>) c \<and> (\<exists>ty p. m = mk_msg ty p)"
    and "agent_GetMsg_turn api env (n_agent n) = Return (Inl err) a \<Longrightarrow>
      link_inv rd (n\<lparr>n_agent := a\<lparr>a_Valid := False\<rparr>, n_running := n_running n - {LListen}\<rparr>) c"
    and "agent_GetMsg_turn api env (n_agent n) \<noteq> TurnPanics"
proof -
  from assms(1,2) obtain k where k: "a_Conn (n_agent n) = Some k" "whole_writes k" "whole_writes (Conn c)"
    "channel (agent_answer (n_got n)) (outbound k) (n_up n) (n_read n) rd
       (ReadBuf c) (ReadMsgPayloadLth c) (Conn c)"
    "channel server_packet (outbound (Conn c)) (n_down n) (map fst (n_got n)) True
       (a_ReadBuf (n_agent n)) (a_ReadMsgPayloadLth (n_agent n)) k" by (auto simp: link_inv_def)
  have conn: "agent_conn (n_agent n) = k" using k(1) by (simp add: agent_conn_def)
  have "agent_ok env (n_agent n)" using k(1) assms(3) by (simp add: agent_ok_def)
  note t = agent_reader.channel_turn [where s = "n_agent n", unfolded conn, OF k(5) this]
  note out = agent_turn_out [OF k(1)]
  show "link_inv rd (n\<lparr>n_agent := a\<rparr>) c" if "agent_GetMsg_turn api env (n_agent n) = Again a"
    using t(1) [OF that] out(1) [OF that] k assms(2) by (auto simp: link_inv_def agent_conn_def)
  show "link_inv rd (n\<lparr>n_agent := a, n_got := n_got n @ [(m, mc)]\<rparr>) c \<and> (\<exists>ty p. m = mk_msg ty p)"
    if r: "agent_GetMsg_turn api env (n_agent n) = Return (Inr m) a"
  proof -
    from out(2) [OF r] obtain k' where k': "a_Conn a = Some k'" "outbound k' = outbound k"
      "whole_writes k' = whole_writes k" by blast
    have ch: "channel server_packet (outbound (Conn c)) (n_down n) (map fst (n_got n) @ [m]) True
        (a_ReadBuf a) (a_ReadMsgPayloadLth a) k'"
      using t(2) [OF r] k'(1) by (simp add: agent_conn_def)
    from channel_prefix [OF ch] obtain ms where "prefix (map fst (n_got n) @ [m]) (as_msgs ms)" by blast
    then have "m \<in> set (as_msgs ms)" by (auto simp: prefix_def)
    from as_msgs_in [OF this] have "\<exists>ty p. m = mk_msg ty p" by blast
    moreover have "channel (agent_answer (n_got n @ [(m, mc)])) (outbound k') (n_up n) (n_read n) rd
        (ReadBuf c) (ReadMsgPayloadLth c) (Conn c)"
      unfolding k'(2) by (rule channel_mono [OF k(4)]) (auto elim: agent_answer_mono)
    ultimately show ?thesis using ch k k' assms(2) by (auto simp: link_inv_def)
  qed
  show "link_inv rd (n\<lparr>n_agent := a\<lparr>a_Valid := False\<rparr>, n_running := n_running n - {LListen}\<rparr>) c"
    if "agent_GetMsg_turn api env (n_agent n) = Return (Inl err) a"
    using out(2) [OF that] k by (auto simp: link_inv_def elim!: channel_mono)
  show "agent_GetMsg_turn api env (n_agent n) \<noteq> TurnPanics" by (rule t(3))
qed

text \<open>One turn of any of the agent's loops; first the turn of \<open>Listen\<close> that handles a message.\<close>

lemma link_handle:
  assumes "link_inv rd n c" and "LListen \<in> n_running n" and "a_Valid (n_agent n)"
    and "agent_GetMsg_turn api (s_etcd s, in_now inp) (n_agent n) = Return (Inr m) a1"
    and "loop_turn api ix LListen inp (n_agent n, s) = Some (Returns (go, a, ar))"
    and "modest (agent_conn (n_agent n)) (agent_conn a)"
  shows "link_inv rd (n\<lparr>n_agent := a, n_around := ar,
      n_running := (if go then n_running n else n_running n - {LListen}),
      n_got := n_got n @ read_by_agent api LListen inp (s_etcd s) (n_agent n)\<rparr>) c"
proof -
  let ?mc = "in_machine inp" and ?env = "(s_etcd s, in_now inp)"
  let ?n = "n\<lparr>n_agent := a1, n_got := n_got n @ [(m, ?mc)]\<rparr>"
  have l: "link_inv rd ?n c" and "\<exists>ty p. m = mk_msg ty p"
    using link_agent_read(2) [OF assms(1-4)] by blast+
  then obtain ty p where m: "m = mk_msg ty p" by blast
  obtain err fs where h: "agent_HandleMsg api ?mc ?env m (a1, s_files s) = Returns (err, a, fs)" and "go"
    using assms(3-5) by (auto simp: Listen_read_def split: run.splits prod.splits)
  have got: "read_by_agent api LListen inp (s_etcd s) (n_agent n) = [(m, ?mc)]"
    using assms(3,4) by (simp add: read_by_agent_def)
  have "agent_wrote (n_got ?n) (n_agent ?n) a"
    using agent_wrote_HandleMsg [OF h [unfolded m], of "n_got ?n"] m by simp
  moreover have "modest (agent_conn (n_agent ?n)) (agent_conn a)"
    using assms(1,6) agent_turn_out(2) [OF _ assms(4)] by (auto simp: link_inv_def agent_conn_def modest_def)
  ultimately show ?thesis
    using \<open>go\<close> got by (intro link_cong [OF link_agent_wrote [OF l]]) auto
qed

lemma link_Listen:
  assumes "link_inv rd n c" and "LListen \<in> n_running n"
    and "loop_turn api ix LListen inp (n_agent n, s) = Some (Returns (go, a, ar))"
    and "modest (agent_conn (n_agent n)) (agent_conn a)"
  shows "link_inv rd (n\<lparr>n_agent := a, n_around := ar,
      n_running := (if go then n_running n else n_running n - {LListen}),
      n_got := n_got n @ read_by_agent api LListen inp (s_etcd s) (n_agent n)\<rparr>) c"
proof (cases "a_Valid (n_agent n)")
  case False
  then have "a = n_agent n" "read_by_agent api LListen inp (s_etcd s) (n_agent n) = []"
    using assms(3) by (simp_all add: Listen_read_def read_by_agent_def)
  then show ?thesis by (intro link_cong [OF assms(1)]) auto
next
  case True
  let ?env = "(s_etcd s, in_now inp)"
  note r = link_agent_read [OF assms(1,2) True, of api ?env]
  show ?thesis
  proof (cases "agent_GetMsg_turn api ?env (n_agent n)")
    case (Again a1)
    then have "a = a1" "go" "read_by_agent api LListen inp (s_etcd s) (n_agent n) = []"
      using assms(3) True by (simp_all add: Listen_read_def read_by_agent_def)
    then show ?thesis by (intro link_cong [OF r(1) [OF Again]]) auto
  next
    case (Return rr a1)
    show ?thesis
    proof (cases rr)
      case (Inl err)
      with Return have "a = a1\<lparr>a_Valid := False\<rparr>" "\<not> go" "read_by_agent api LListen inp (s_etcd s) (n_agent n) = []"
        using assms(3) True by (simp_all add: Listen_read_def read_by_agent_def)
      with r(3) Return Inl show ?thesis by (intro link_cong [OF r(3)]) auto
    next
      case (Inr m)
      with Return have "agent_GetMsg_turn api ?env (n_agent n) = Return (Inr m) a1" by simp
      from link_handle [OF assms(1,2) True this assms(3,4)] show ?thesis .
    qed
  qed (use assms(3) True in \<open>auto simp: Listen_read_def\<close>)
qed

lemma link_loop:
  assumes "link_inv rd n c" and "l \<in> n_running n"
    and "loop_turn api ix l inp (n_agent n, s) = Some (Returns (go, a, ar))"
    and "modest (agent_conn (n_agent n)) (agent_conn a)"
  shows "link_inv rd (n\<lparr>n_agent := a, n_around := ar,
      n_running := (if go then n_running n else n_running n - {l}),
      n_got := n_got n @ read_by_agent api l inp (s_etcd s) (n_agent n)\<rparr>) c"
proof (cases "l = LListen")
  case True
  with link_Listen assms show ?thesis by blast
next
  case False
  then have "read_by_agent api l inp (s_etcd s) (n_agent n) = []" by (simp add: read_by_agent_def)
  then show ?thesis
    by (intro link_cong [OF link_agent_wrote [OF assms(1) agent_wrote_other [OF assms(3) False] assms(4)]]) auto
qed

section \<open>The invariant of the system\<close>

definition sys_inv :: "('e, 'x) system \<Rightarrow> bool" where
  "sys_inv s \<longleftrightarrow>
     world_inv (sys_server s) \<and> \<not> down (sys_server s) \<and>
     dom (sys_nodes s) = dom (heap (srv (sys_server s))) \<and>
     (\<forall>r n c. sys_nodes s r = Some n \<and> client_at s r = Some c \<longrightarrow>
        link_inv (r \<in> readers (sys_server s)) n c)"

text \<open>A command of an operator only writes.\<close>

lemma command_wrote:
  assumes "world_inv w" and "visits ks (srv w)" and "heap (srv w) r = Some c" and "heap s' r = Some c'"
    and "s' = srv w \<or> (\<exists>m. server_message m \<and> s' = Multicast cf now ks ips m (srv w))"
  shows "wrote c c'"
  using assms wrote_Multicast [OF assms(2) _ _ assms(3)] by (auto simp: world_inv_def)

lemma link_unread:
  assumes "link_inv rd n c" and "read_by_server w w' r = []"
  shows "link_inv rd (n\<lparr>n_read := n_read n @ read_by_server w w' r\<rparr>) c"
  using assms by (intro link_cong [OF assms(1)]) auto

lemma read_by_server_shorter: "length (jobs w') \<le> length (jobs w) \<Longrightarrow> read_by_server w w' r = []"
  by (simp add: read_by_server_def)

lemma srv_step_link:
  assumes "srv_step api cf w w'" and "world_inv w" and "dom (heap (srv w')) = dom (heap (srv w))"
    and "heap (srv w) r = Some c" and "heap (srv w') r = Some c'" and "modest (Conn c) (Conn c')"
    and "link_inv (r \<in> readers w) n c"
  shows "link_inv (r \<in> readers w') (n\<lparr>n_read := n_read n @ read_by_server w w' r\<rparr>) c'"
  using assms
proof (induction rule: srv_step.induct)
  case (accept w r0 k addr s')
  from accept(4) have "r0 \<in> dom (heap s')"
    by (auto simp: HandleConn_register_def split: sum.splits if_splits)
  moreover have "dom (heap s') = dom (heap (srv w))" using accept(6) by simp
  ultimately show ?case using accept(2) by auto
next
  case (refuse w addr k r0 s')
  then show ?case using register_None [OF refuse(2)] by (auto simp: read_by_server_def intro: link_unread)
next
  case (read_more w r0 d now d')
  then show ?case
    using link_read(1) [OF _ read_more(4), of n]
    by (auto simp: read_by_server_def intro!: link_unread split: if_splits)
next
  case (read_msg w r0 d now m d')
  then show ?case
    using link_read(2) [OF _ read_msg(4), of n]
    by (auto simp: read_by_server_def intro: link_cong split: if_splits)
next
  case (read_end w r0 d now err d')
  note st = read_end_state(2) [OF read_end(3) GetMsg_turn_ClientID(2) [OF read_end(4)]]
  from read_end GetMsg_turn_out(2) [OF read_end(4)] show ?case
    by (auto simp: st read_by_server_def SetValid_def intro!: link_unread
        intro: link_read_end split: if_splits)
next
  case (read_panic w r0 d now)
  then show ?case by (auto simp: read_by_server_def intro: link_unread)
next
  case (handle w js m r0 js' d now err d' e')
  then show ?case
    using wrote_HandleMsg [OF handle(4)]
    by (auto simp: read_by_server_def intro!: link_unread intro: link_wrote split: if_splits)
next
  case (shell w ks now n' cmd iplist res s' e')
  have "wrote c c'"
    by (rule command_wrote [OF shell(4,2) shell(6) _ commands_typed(1) [OF shell(3)]]) (use shell(7) in simp)
  with shell show ?case by (auto simp: read_by_server_def intro!: link_unread intro: link_wrote)
next
  case (script w ks now n' name argvs iplist res s' e')
  have "wrote c c'"
    by (rule command_wrote [OF script(4,2) script(6) _ commands_typed(2) [OF script(3)]]) (use script(7) in simp)
  with script show ?case by (auto simp: read_by_server_def intro!: link_unread intro: link_wrote)
next
  case (file_send w ks fs now src dst iplist res s')
  have "wrote c c'"
    by (rule command_wrote [OF file_send(4,2) file_send(6) _ commands_typed(3) [OF file_send(3)]])
      (use file_send(7) in simp)
  with file_send show ?case by (auto simp: read_by_server_def intro!: link_unread intro: link_wrote)
qed

text \<open>A server all of whose clients are agents does not panic.\<close>

lemma srv_step_up:
  assumes "srv_step api cf w w'" and "\<not> down w"
    and "\<And>r c. r \<in> readers w \<Longrightarrow> heap (srv w) r = Some c \<Longrightarrow> \<exists>n :: ('e, 'x) node. link_inv True n c"
  shows "\<not> down w'"
  using assms
proof (induction rule: srv_step.induct)
  case (read_panic w r c now)
  then obtain n :: "('e, 'x) node" where "link_inv True n c" by blast
  from link_read(3) [OF this] read_panic(4) show ?case by blast
qed auto

lemma link_dialed:
  assumes "unused_conn (Conn c)" and "unused_conn k" and "a_Conn a = Some k"
    and "frame_inv (ReadBuf c) (ReadMsgPayloadLth c)" and "ReadBuf c = []"
    and "frame_inv (a_ReadBuf a) (a_ReadMsgPayloadLth a)" and "a_ReadBuf a = []"
  shows "link_inv rd (dialed a ar) c"
  using assms
  by (auto simp: link_inv_def dialed_def unused_conn_def new_conn_def pending_def intro!: channel_start)

lemma dialed_agent:
  assumes "StartAgent_dial api e dl (NewAgent localip) = (True, a)"
  shows "a_ReadBuf a = []" and "a_ReadMsgPayloadLth a = 0"
  using assms by (auto simp: StartAgent_dial_def NewAgent_def ResetAgent_def split: sum.splits)

text \<open>The only step of the server that creates a client.\<close>

lemma accept_client:
  assumes "srv_step api cf w w'" and "heap (srv w) r = None" and "heap (srv w') r = Some c" and "world_inv w"
  shows "ReadBuf c = []" and "ReadMsgPayloadLth c = 0" and "r \<in> readers w'"
    and "dom (heap (srv w')) = insert r (dom (heap (srv w)))" and "jobs w' = jobs w"
    and "etcd w' = etcd w" and "\<And>r'. r' \<noteq> r \<Longrightarrow> heap (srv w') r' = heap (srv w) r'"
    and "\<And>r'. r' \<noteq> r \<Longrightarrow> r' \<in> readers w' \<longleftrightarrow> r' \<in> readers w"
proof -
  have m: "heap (Multicast cf now ks ips m s) r = None" if "heap s r = None" "visits ks s" "table_ok s"
    for now ks ips m s using that by (simp add: Multicast_heap)
  have t: "table_ok (srv w)" using assms(4) by (simp add: world_inv_def)
  obtain i k where i: "heap (srv w') = (heap (srv w))(r \<mapsto> NewClient k i)"
    "readers w' = insert r (readers w)" "jobs w' = jobs w" "etcd w' = etcd w"
    using assms(1-3)
  proof (cases rule: srv_step.cases)
    case (accept r0 k addr s')
    then show ?thesis
      using assms(2,3) by (auto simp: HandleConn_register_def intro!: that split: sum.splits if_splits)
  next
    case (refuse addr k r0 s')
    then show ?thesis using register_None [OF refuse(3)] assms(2,3) by simp
  next
    case (read_end r0 d now err d')
    then show ?thesis
      using read_end_state(2) [OF read_end(4) GetMsg_turn_ClientID(2) [OF read_end(5)]] assms(2,3)
      by (auto split: if_splits)
  next
    case (shell ks now n' cmd iplist res s' e')
    then show ?thesis using assms(2,3) m t by (auto dest!: RemoteShellRun_srv)
  next
    case (script ks now n' name argvs iplist res s' e')
    then show ?thesis using assms(2,3) m t by (auto dest!: RemoteScriptRun_srv)
  next
    case (file_send ks fs now src dst iplist res s')
    then show ?thesis using assms(2,3) m t by (auto dest!: RemoteFileSend_srv)
  qed (auto split: if_splits)
  then show "ReadBuf c = []" "ReadMsgPayloadLth c = 0" "r \<in> readers w'"
    "dom (heap (srv w')) = insert r (dom (heap (srv w)))" "jobs w' = jobs w" "etcd w' = etcd w"
    "\<And>r'. r' \<noteq> r \<Longrightarrow> heap (srv w') r' = heap (srv w) r'"
    "\<And>r'. r' \<noteq> r \<Longrightarrow> r' \<in> readers w' \<longleftrightarrow> r' \<in> readers w"
    using assms(3) by auto
qed

text \<open>What the network does to a connection.\<close>

lemma hand_over_simps [simp]:
  "outbound (hand_over ev k) = outbound k" "whole_writes (hand_over ev k) = whole_writes k"
  by (simp_all add: hand_over_def)

lemma link_up:
  assumes "link_inv rd n c" and "a_Conn (n_agent n) = Some k" and "no_error (Conn c)"
    and "n_up n + j \<le> length (outbound k)"
  shows "link_inv rd (n\<lparr>n_up := n_up n + j\<rparr>)
    (c\<lparr>Conn := hand_over (InData (take j (drop (n_up n) (outbound k)))) (Conn c)\<rparr>)"
  using assms by (auto simp: link_inv_def channel_hand_over)

lemma link_down:
  assumes "link_inv rd n c" and "a_Conn (n_agent n) = Some k" and "no_error k"
    and "n_down n + j \<le> length (outbound (Conn c))"
  shows "link_inv rd (set_agent_conn (hand_over (InData (take j (drop (n_down n) (outbound (Conn c))))) k)
    (n\<lparr>n_down := n_down n + j\<rparr>)) c"
  using assms by (auto simp: link_inv_def set_agent_conn_def channel_hand_over)

lemma link_up_fault: "link_inv rd n c \<Longrightarrow> link_inv rd n (c\<lparr>Conn := hand_over (InErr err) (Conn c)\<rparr>)"
  by (auto simp: link_inv_def channel_fault)

lemma link_down_fault:
  "link_inv rd n c \<Longrightarrow> a_Conn (n_agent n) = Some k \<Longrightarrow>
     link_inv rd (set_agent_conn (hand_over (InErr err) k) n) c"
  by (auto simp: link_inv_def set_agent_conn_def channel_fault)

lemma sys_inv_reader:
  fixes s :: "('e, 'x) system"
  assumes "sys_inv s" and "r \<in> readers (sys_server s)" and "heap (srv (sys_server s)) r = Some c"
  shows "\<exists>n :: ('e, 'x) node. link_inv True n c"
proof -
  have "r \<in> dom (sys_nodes s)" using assms by (auto simp: sys_inv_def)
  then obtain n where "sys_nodes s r = Some n" by auto
  with assms have "link_inv (r \<in> readers (sys_server s)) n c"
    unfolding sys_inv_def client_at_def by blast
  with assms(2) show ?thesis by (intro exI [of _ n]) simp
qed

lemma sys_step_inv:
  assumes "sys_step api ix cf s s'" and "sys_inv s"
  shows "sys_inv s'"
  using assms
proof (induction rule: sys_step.induct)
  case (connect s w' r c dl localip a k ar)
  note w = connect(8) [unfolded sys_inv_def]
  have none: "heap (srv (sys_server s)) r = None" using connect(2) by (simp add: client_at_def)
  note ac = accept_client [OF connect(1) none connect(3)]
  have "\<not> down w'" using srv_step_up [OF connect(1)] sys_inv_reader [OF connect(8)] w by blast
  moreover have "world_inv w'" using srv_step_inv [OF connect(1)] w by blast
  moreover have "link_inv True (dialed a ar) c"
    using link_dialed [OF connect(4,7,6)] ac(1,2) dialed_agent [OF connect(5)] w by simp
  ultimately show ?case
    using w ac connect(3) by (auto simp: sys_inv_def set_node_def client_at_def dialed_def split: if_splits)
next
  case (server_moves s w')
  note w = server_moves(4) [unfolded sys_inv_def]
  have "\<not> down w'" using srv_step_up [OF server_moves(1)] sys_inv_reader [OF server_moves(4)] w by blast
  moreover have "world_inv w'" using srv_step_inv [OF server_moves(1)] w by blast
  moreover have "link_inv (r \<in> readers w') (n\<lparr>n_read := n_read n @ read_by_server (sys_server s) w' r\<rparr>) c'"
    if "sys_nodes s r = Some n" "heap (srv w') r = Some c'" for r n c'
  proof -
    have "r \<in> dom (heap (srv (sys_server s)))" using w that(1) by auto
    then obtain c where c: "heap (srv (sys_server s)) r = Some c" by auto
    from srv_step_link [OF server_moves(1) _ server_moves(2) c that(2), where n = n] server_moves(3) c that w
    show ?thesis by (auto simp: client_at_def)
  qed
  ultimately show ?case
    using w server_moves(2) by (auto simp: sys_inv_def note_read_def client_at_def dom_def)
next
  case (agent_moves s r n l inp go a ar)
  have "s_etcd (view s n) = etcd (sys_server s)" by (simp add: view_def)
  with link_loop [OF _ agent_moves(2,3,4)] agent_moves(1,5) show ?case
    by (auto simp: sys_inv_def set_node_def client_at_def world_inv_def)
next
  case (agent_dies s r n l inp)
  have "link_inv rd (n\<lparr>n_running := {}\<rparr>) c" if "link_inv rd n c" for rd c
    by (rule link_cong [OF that]) simp_all
  with agent_dies show ?case by (auto simp: sys_inv_def set_node_def client_at_def)
next
  case (up s r n c k j)
  then have "link_inv (r \<in> readers (sys_server s)) n c" by (auto simp: sys_inv_def)
  from link_up [OF this up(3-5)] up show ?case
    by (auto simp: sys_inv_def set_node_def set_client_def client_at_def intro: world_inv_put_client)
next
  case (down s r n c k j)
  then have "link_inv (r \<in> readers (sys_server s)) n c" by (auto simp: sys_inv_def)
  from link_down [OF this down(3-5)] down show ?case
    by (auto simp: sys_inv_def set_node_def client_at_def)
next
  case (up_fault s r c err)
  then show ?case
    by (auto simp: sys_inv_def set_client_def client_at_def intro: world_inv_put_client link_up_fault)
next
  case (down_fault s r n k err)
  then show ?case
    by (auto simp: sys_inv_def set_node_def client_at_def intro: link_down_fault)
qed

lemma sys_reachable_inv: "sys_reachable api ix cf e x s \<Longrightarrow> sys_inv s"
  unfolding sys_reachable_def
proof (induction rule: rtranclp_induct)
  case base
  have "world_inv (boot e)" by (rule reachable_inv [of api cf e]) (simp add: reachable_def)
  then show ?case by (simp add: sys_inv_def system_boot_def boot_def InitServer_def)
next
  case (step y z)
  then show ?case by (blast intro: sys_step_inv)
qed

section \<open>The server reads what an agent has written\<close>

text \<open>One turn of the server's reader as a step of the system.\<close>

lemma reader_step:
  assumes "sys_inv s" and "sys_nodes s r = Some n" and "client_at s r = Some c"
    and "r \<in> readers (sys_server s)"
    and "GetMsg_turn cf now c = Again c' \<and> got = [] \<or> (\<exists>m. GetMsg_turn cf now c = Return (Inr m) c' \<and> got = [m])"
  shows "\<exists>s'. sys_step api ix cf s s' \<and> sys_nodes s' r = Some (n\<lparr>n_read := n_read n @ got\<rparr>) \<and>
    client_at s' r = Some c' \<and> readers (sys_server s') = readers (sys_server s) \<and>
    jobs (sys_server s') = jobs (sys_server s) @ map (\<lambda>m. (m, r)) got \<and> etcd (sys_server s') = etcd (sys_server s)"
proof -
  let ?w = "sys_server s"
  obtain w' where w': "srv_step api cf ?w w'" "heap (srv w') = (heap (srv ?w))(r \<mapsto> c')"
    "readers w' = readers ?w" "read_by_server ?w w' r = got"
    "jobs w' = jobs ?w @ map (\<lambda>m. (m, r)) got" "etcd w' = etcd ?w"
    using assms(5)
  proof (elim disjE exE conjE)
    assume "GetMsg_turn cf now c = Again c'" "got = []"
    then show thesis
      using assms(1,3,4) by (intro that [OF read_more]) (auto simp: sys_inv_def client_at_def read_by_server_def)
  next
    fix m assume "GetMsg_turn cf now c = Return (Inr m) c'" "got = [m]"
    then show thesis
      using assms(1,3,4) by (intro that [OF read_msg]) (auto simp: sys_inv_def client_at_def read_by_server_def)
  qed
  have out: "outbound (Conn c') = outbound (Conn c)"
    using assms(5) GetMsg_turn_out by blast
  let ?s = "s\<lparr>sys_server := w', sys_nodes := note_read ?w w' (sys_nodes s)\<rparr>"
  have "sys_step api ix cf s ?s"
  proof (rule server_moves [OF w'(1)])
    show "dom (heap (srv w')) = dom (heap (srv ?w))"
      using assms(3) by (auto simp: w'(2) client_at_def)
    show "modest (Conn d) (Conn d')" if "client_at s q = Some d" "heap (srv w') q = Some d'" for q d d'
      using that assms(3) out by (auto simp: w'(2) client_at_def modest_def split: if_splits)
  qed
  with w' assms(2) show ?thesis
    by (intro exI [of _ ?s]) (auto simp: note_read_def client_at_def)
qed

lemma server_drains:
  assumes "sys_inv s" and "sys_nodes s r = Some n" and "client_at s r = Some c"
    and "r \<in> readers (sys_server s)" and "a_Conn (n_agent n) = Some k" and "n_up n = length (outbound k)"
    and "no_error (Conn c)" and "JudgeValid cf now c"
  shows "\<exists>s' n' up. (sys_step api ix cf)\<^sup>*\<^sup>* s s' \<and> sys_nodes s' r = Some n' \<and> n_agent n' = n_agent n \<and>
    outbound k = packets up \<and> n_read n' = as_msgs up"
  using assms
proof (induction "2 * conn_work (Conn c) + length (ReadBuf c)" arbitrary: s n c rule: less_induct)
  case less
  have "link_inv (r \<in> readers (sys_server s)) n c" using less.prems unfolding sys_inv_def by blast
  then obtain up where up: "outbound k = packets up"
    "flows up (length (packets up)) (n_read n) (ReadBuf c) (ReadMsgPayloadLth c) (Conn c)"
    using less.prems(4-6) by (auto simp: link_inv_def channel_def)
  show ?case
  proof (cases "n_read n = as_msgs up")
    case True
    with less.prems(2) up(1) show ?thesis by blast
  next
    case False
    from client_reader.step_drains [OF up(2) less.prems(8,7) False] obtain c' got where
      c': "GetMsg_turn cf now c = Again c' \<and> got = [] \<or> (\<exists>m. GetMsg_turn cf now c = Return (Inr m) c' \<and> got = [m])"
      "no_error (Conn c')" "JudgeValid cf now c'"
      "2 * conn_work (Conn c') + length (ReadBuf c') < 2 * conn_work (Conn c) + length (ReadBuf c)"
      using less.prems(8) by blast
    from reader_step [OF less.prems(1-4) c'(1), of api ix] obtain s1 where
      s1: "sys_step api ix cf s s1" "sys_nodes s1 r = Some (n\<lparr>n_read := n_read n @ got\<rparr>)"
        "client_at s1 r = Some c'" "readers (sys_server s1) = readers (sys_server s)" by blast
    have "\<exists>s' n' up. (sys_step api ix cf)\<^sup>*\<^sup>* s1 s' \<and> sys_nodes s' r = Some n' \<and>
        n_agent n' = n_agent (n\<lparr>n_read := n_read n @ got\<rparr>) \<and> outbound k = packets up \<and> n_read n' = as_msgs up"
      by (rule less.hyps [OF c'(4) sys_step_inv [OF s1(1) less.prems(1)] s1(2,3)])
        (use less.prems s1(4) c' in simp_all)
    then obtain s' n' up' where "(sys_step api ix cf)\<^sup>*\<^sup>* s1 s'" "sys_nodes s' r = Some n'" "n_agent n' = n_agent n"
      "outbound k = packets up'" "n_read n' = as_msgs up'" by auto
    with s1(1) show ?thesis by (meson converse_rtranclp_into_rtranclp)
  qed
qed

section \<open>A run for the witnesses\<close>

type_synonym demo_system = "((string \<times> string) list, (string \<times> point) list) system"

text \<open>One agent has connected.\<close>

definition demo_connected :: "(string \<times> string) list \<Rightarrow> demo_system" where
  "demo_connected e =
     set_node 0 (dialed demo_agent demo_around)
       ((system_boot e [])\<lparr>sys_server := one_client (fresh_conn []) e\<rparr>)"

lemma demo_connected_reachable: "sys_reachable mem_api mem_influx sample_conf e [] (demo_connected e)"
proof -
  have d: "StartAgent_dial mem_api e (\<lambda>_. Inr (fresh_conn [])) (NewAgent ''10.0.0.1'') = (True, demo_agent)"
    by (simp add: StartAgent_dial_def demo_agent_def)
  have k: "unused_conn (fresh_conn [])" "new_conn (fresh_conn [])"
    by (simp_all add: unused_conn_def new_conn_def fresh_conn_def whole_writes_def)
  have "sys_step mem_api mem_influx sample_conf (system_boot e []) (demo_connected e)"
    unfolding demo_connected_def
    by (rule connect [where c = "NewClient (fresh_conn []) ''10.0.0.1''" and k = "fresh_conn []"
          and dl = "\<lambda>_. Inr (fresh_conn [])" and localip = "''10.0.0.1''"])
      (use one_client_step [OF k(2), of mem_api sample_conf e] k d in
        \<open>simp_all add: system_boot_def client_at_def boot_def InitServer_def one_client_def\<close>)
  then show ?thesis by (simp add: sys_reachable_def)
qed

text \<open>It has sent a heartbeat.\<close>

lemma demo_heartbeat:
  obtains s n k where "sys_reachable mem_api mem_influx sample_conf e [] (s :: demo_system)"
    and "sys_nodes s 0 = Some n" and "client_at s 0 = Some (NewClient (fresh_conn []) ''10.0.0.1'')"
    and "0 \<in> readers (sys_server s)" and "a_Conn (n_agent n) = Some k" and "n_up n = 0" and "n_got n = []"
    and "outbound k = packet HeartBeat_Msg (fst (Marshal Heartbeat_info (heartbeat ''t'')))"
proof -
  let ?s = "demo_connected e" and ?p = "fst (Marshal Heartbeat_info (heartbeat ''t''))"
  let ?n = "dialed demo_agent demo_around :: ((string \<times> string) list, (string \<times> point) list) node"
  define inp :: "(string \<times> string) list turn_in" where "inp = undefined\<lparr>in_now := 0, in_localtime := ''t''\<rparr>"
  have n: "sys_nodes ?s 0 = Some ?n" "etcd (sys_server ?s) = e"
    by (simp_all add: demo_connected_def set_node_def one_client_def boot_def)
  obtain k' where k': "Heartbeat_turn mem_api (e, 0) ''t'' demo_agent = Returns (True, demo_agent\<lparr>a_Conn := Some k'\<rparr>)"
    "outbound k' = outbound (fresh_conn []) @ packet HeartBeat_Msg ?p"
    by (rule Heartbeat_turn_writes [of demo_agent "fresh_conn []" mem_api "(e, 0)" "''t''"]) auto
  have len: "length ?p = 9" by code_simp
  have "loop_turn mem_api mem_influx LHeartbeat inp (n_agent ?n, view ?s ?n) =
      Some (Returns (True, demo_agent\<lparr>a_Conn := Some k'\<rparr>, view ?s ?n))"
    using k'(1) n(2) by (simp add: dialed_def view_def inp_def)
  moreover have "modest (agent_conn (n_agent ?n)) (agent_conn (demo_agent\<lparr>a_Conn := Some k'\<rparr>))"
    using k'(2) len by (simp add: modest_def agent_conn_def dialed_def)
  ultimately have "sys_step mem_api mem_influx sample_conf ?s
       (set_node 0 (?n\<lparr>n_agent := demo_agent\<lparr>a_Conn := Some k'\<rparr>, n_around := view ?s ?n,
                      n_running := (if True then n_running ?n else n_running ?n - {LHeartbeat}),
                      n_got := n_got ?n @ read_by_agent mem_api LHeartbeat inp (etcd (sys_server ?s)) (n_agent ?n)\<rparr>)
         (?s\<lparr>sys_server := (sys_server ?s)\<lparr>etcd := s_etcd (view ?s ?n)\<rparr>, sys_influx := s_influx (view ?s ?n)\<rparr>))"
    (is "sys_step _ _ _ _ ?s'")
    by (intro agent_moves [OF n(1)]) (simp_all add: dialed_def)
  then have "sys_reachable mem_api mem_influx sample_conf e [] ?s'"
    using demo_connected_reachable [of e] unfolding sys_reachable_def by (rule rtranclp.rtrancl_into_rtrancl [rotated])
  then show thesis
    by (rule that [where k = k' and n = "?n\<lparr>n_agent := demo_agent\<lparr>a_Conn := Some k'\<rparr>, n_around := view ?s ?n\<rparr>"])
      (simp_all add: set_node_def client_at_def demo_connected_def one_client_def dialed_def k'(2)
        read_by_agent_def)
qed

section \<open>Properties\<close>

lemma sys_link:
  assumes "sys_reachable api ix cf e x s" and "sys_nodes s r = Some n" and "client_at s r = Some c"
  shows "link_inv (r \<in> readers (sys_server s)) n c"
  using sys_reachable_inv [OF assms(1)] assms(2,3) unfolding sys_inv_def by blast


text \<open>The server has read the heartbeat.\<close>

lemma demo_read:
  obtains s n c where "sys_reachable mem_api mem_influx sample_conf e [] (s :: demo_system)"
    and "sys_nodes s 0 = Some n" and "client_at s 0 = Some c" and "n_read n \<noteq> []"
proof -
  let ?c = "NewClient (fresh_conn []) ''10.0.0.1''"
  let ?b = "packet HeartBeat_Msg (fst (Marshal Heartbeat_info (heartbeat ''t'')))"
  obtain s n k where s: "sys_reachable mem_api mem_influx sample_conf e [] (s :: demo_system)"
    "sys_nodes s 0 = Some n" "client_at s 0 = Some ?c" "0 \<in> readers (sys_server s)"
    "a_Conn (n_agent n) = Some k" "n_up n = 0" "outbound k = ?b"
    by (rule demo_heartbeat)
  let ?c1 = "?c\<lparr>Conn := hand_over (InData (take (length ?b) (drop (n_up n) (outbound k)))) (Conn ?c)\<rparr>"
  let ?n1 = "n\<lparr>n_up := n_up n + length ?b\<rparr>"
  let ?s1 = "set_node 0 ?n1 (set_client 0 ?c1 s)"
  have "sys_step mem_api mem_influx sample_conf s ?s1"
    by (rule up [OF s(2,3,5)]) (simp_all add: s(6,7) no_error_def)
  then have r1: "sys_reachable mem_api mem_influx sample_conf e [] ?s1"
    using s(1) unfolding sys_reachable_def by (rule rtranclp.rtrancl_into_rtrancl [rotated])
  have "\<exists>s' n' up. (sys_step mem_api mem_influx sample_conf)\<^sup>*\<^sup>* ?s1 s' \<and> sys_nodes s' 0 = Some n' \<and>
      n_agent n' = n_agent ?n1 \<and> outbound k = packets up \<and> n_read n' = as_msgs up"
    by (rule server_drains [OF sys_reachable_inv [OF r1], where c = ?c1 and now = 0])
      (use s in \<open>simp_all add: set_node_def set_client_def client_at_def no_error_def hand_over_def\<close>)
  then obtain s' n' up where s': "(sys_step mem_api mem_influx sample_conf)\<^sup>*\<^sup>* ?s1 s'" "sys_nodes s' 0 = Some n'"
    "outbound k = packets up" "n_read n' = as_msgs up" by blast
  have r': "sys_reachable mem_api mem_influx sample_conf e [] s'"
    using r1 s'(1) unfolding sys_reachable_def by (rule rtranclp_trans)
  have "0 \<in> dom (heap (srv (sys_server s')))"
    using sys_reachable_inv [OF r'] s'(2) by (auto simp: sys_inv_def)
  then obtain c where c: "client_at s' 0 = Some c" by (auto simp: client_at_def)
  have "up \<noteq> []" using s'(3) s(7) by (auto simp: packet_def BigEndian_PutUint32_def)
  then have "n_read n' \<noteq> []" using s'(4) by (metis as_msgs_simps(4) length_0_conv)
  then show thesis using that r' s'(2) c by blast
qed




text \<open>
  C10. What an agent has written arrives: from every reachable state in which the server reads from the
  agent, takes it for valid and has met no network error on its connection, the system can run on to
  a state in which the server has read every message the agent has written, without the agent having
  to do anything.
\<close>

theorem agent_messages_arrive:
  assumes "sys_reachable api ix cf e x s" and "sys_nodes s r = Some n" and "client_at s r = Some c"
    and "r \<in> readers (sys_server s)" and "a_Conn (n_agent n) = Some k"
    and "no_error (Conn c)" and "JudgeValid cf now c"
  shows "\<exists>s' n' sent. (sys_step api ix cf)\<^sup>*\<^sup>* s s' \<and> sys_nodes s' r = Some n' \<and> n_agent n' = n_agent n \<and>
    outbound k = packets sent \<and> n_read n' = as_msgs sent"
proof -
  let ?j = "length (outbound k) - n_up n"
  let ?c1 = "c\<lparr>Conn := hand_over (InData (take ?j (drop (n_up n) (outbound k)))) (Conn c)\<rparr>"
  let ?s1 = "set_node r (n\<lparr>n_up := n_up n + ?j\<rparr>) (set_client r ?c1 s)"
  have le: "n_up n \<le> length (outbound k)"
    using sys_link [OF assms(1-3)] assms(5) by (auto simp: link_inv_def channel_def)
  have st: "sys_step api ix cf s ?s1" using le by (intro up [OF assms(2,3,5,6)]) simp
  have "\<exists>s' n' up. (sys_step api ix cf)\<^sup>*\<^sup>* ?s1 s' \<and> sys_nodes s' r = Some n' \<and>
      n_agent n' = n_agent (n\<lparr>n_up := n_up n + ?j\<rparr>) \<and> outbound k = packets up \<and> n_read n' = as_msgs up"
    by (rule server_drains [OF sys_step_inv [OF st sys_reachable_inv [OF assms(1)]], where c = ?c1 and now = now])
      (use assms le in \<open>simp_all add: set_node_def set_client_def client_at_def no_error_def hand_over_def\<close>)
  with st show ?thesis by (auto intro: converse_rtranclp_into_rtranclp)
qed

theorem agent_messages_arrive_witness:
  "\<exists>(s :: demo_system) n (k :: conn) s' n' sent. sys_nodes s 0 = Some n \<and> n_up n = 0 \<and> outbound k \<noteq> [] \<and>
     (sys_step mem_api mem_influx sample_conf)\<^sup>*\<^sup>* s s' \<and> sys_nodes s' 0 = Some n' \<and>
     outbound k = packets sent \<and> n_read n' = as_msgs sent"
proof -
  obtain s n k where s: "sys_reachable mem_api mem_influx sample_conf [] [] (s :: demo_system)"
    "sys_nodes s 0 = Some n" "client_at s 0 = Some (NewClient (fresh_conn []) ''10.0.0.1'')"
    "0 \<in> readers (sys_server s)" "a_Conn (n_agent n) = Some k" "n_up n = 0"
    "outbound k = packet HeartBeat_Msg (fst (Marshal Heartbeat_info (heartbeat ''t'')))"
    by (rule demo_heartbeat)
  have "no_error (Conn (NewClient (fresh_conn []) ''10.0.0.1''))" by (simp add: no_error_def)
  note run = agent_messages_arrive [OF s(1-5) this JudgeValid_NewClient [of _ 0]]
  have "outbound k \<noteq> []" by (simp add: s(7) packet_def BigEndian_PutUint32_def)
  with run s(2,6) show ?thesis by blast
qed

end
