(* ===== verification/Provenance.thy ===== *)
theory Provenance
  imports Composed
begin

text \<open>
  Where the results in etcd come from: in the system of server and agents, a value below
  \<open>/task/result/\<close> was there from the start, is the address list of a task, or is the output of a shell
  command that an agent has read from its connection and run.
\<close>

section \<open>Where the results in etcd come from\<close>

text \<open>\<open>v\<close> is the output of a shell command that an agent has read from its connection and run.\<close>

definition result_from :: "('e, 'x) system \<Rightarrow> string \<Rightarrow> string \<Rightarrow> bool" where
  "result_from s key v \<longleftrightarrow>
     (\<exists>r n c d mc sm. sys_nodes s r = Some n \<and> client_at s r = Some c \<and>
        key = result_key (shell_Taskid sm) (ClientID c) \<and> (mk_msg ShellRun_Msg d, mc) \<in> set (n_got n) \<and>
        Unmarshal ShellRun_info ShellRun_zero d = (sm, None) \<and>
        ExecShell (m_GOOS mc) (m_exec mc) (Runcmd sm) = Inr v)"

text \<open>Nodes and clients are never dropped, and the histories only grow.\<close>

definition extends :: "('e, 'x) system \<Rightarrow> ('e, 'x) system \<Rightarrow> bool" where
  "extends s s' \<longleftrightarrow>
     (\<forall>r n. sys_nodes s r = Some n \<longrightarrow>
        (\<exists>n'. sys_nodes s' r = Some n' \<and> set (n_got n) \<subseteq> set (n_got n') \<and> set (n_read n) \<subseteq> set (n_read n'))) \<and>
     (\<forall>r c. client_at s r = Some c \<longrightarrow> (\<exists>c'. client_at s' r = Some c' \<and> ClientID c' = ClientID c))"

lemma result_from_mono:
  assumes "extends s s'" and "result_from s key v"
  shows "result_from s' key v"
proof -
  from assms(2) obtain r n c d mc sm where
    f: "sys_nodes s r = Some n" "client_at s r = Some c" "key = result_key (shell_Taskid sm) (ClientID c)"
      "(mk_msg ShellRun_Msg d, mc) \<in> set (n_got n)" "Unmarshal ShellRun_info ShellRun_zero d = (sm, None)"
      "ExecShell (m_GOOS mc) (m_exec mc) (Runcmd sm) = Inr v"
    unfolding result_from_def by blast
  from assms(1) f(1,2) obtain n' c' where "sys_nodes s' r = Some n'" "client_at s' r = Some c'"
    "ClientID c' = ClientID c" "set (n_got n) \<subseteq> set (n_got n')" unfolding extends_def by blast
  with f show ?thesis
    unfolding result_from_def
    by (intro exI [of _ r] exI [of _ n'] exI [of _ c'] exI [of _ d] exI [of _ mc] exI [of _ sm]) auto
qed

lemma srv_step_ClientID:
  assumes "srv_step api cf w w'" and "world_inv w" and "heap (srv w) r = Some c"
  shows "\<exists>c'. heap (srv w') r = Some c' \<and> ClientID c' = ClientID c"
  using assms
proof (induction rule: srv_step.induct)
  case (accept w r0 k addr s')
  then show ?case by (auto simp: HandleConn_register_def split: sum.splits if_splits)
next
  case (refuse w addr k r0 s')
  then show ?case using register_None [OF refuse(2)] by simp
next
  case (read_end w r0 d now err d')
  note ci = GetMsg_turn_ClientID(2) [OF read_end(4)]
  from read_end ci show ?case by (auto simp: read_end_state(2) [OF read_end(3) ci] SetValid_def)
next
  case (shell w ks now n cmd iplist res s' e')
  then show ?case by (auto simp: world_inv_def Multicast_heap dest!: RemoteShellRun_srv)
next
  case (script w ks now n name argvs iplist res s' e')
  then show ?case by (auto simp: world_inv_def Multicast_heap dest!: RemoteScriptRun_srv)
next
  case (file_send w ks fs now src dst iplist res s')
  then show ?case by (auto simp: world_inv_def Multicast_heap dest!: RemoteFileSend_srv)
qed (auto dest: GetMsg_turn_ClientID HandleMsg_ClientID)

lemma sys_step_extends:
  assumes "sys_step api ix cf s s'" and "sys_inv s"
  shows "extends s s'"
  using assms
proof (induction rule: sys_step.induct)
  case (connect s w' r c dl localip a k ar)
  have "sys_nodes s r = None" using connect(2,8) by (auto simp: sys_inv_def client_at_def)
  with srv_step_ClientID [OF connect(1)] connect(8) show ?case
    by (auto simp: extends_def set_node_def client_at_def sys_inv_def)
next
  case (server_moves s w')
  with srv_step_ClientID [OF server_moves(1)] show ?case
    by (auto simp: extends_def note_read_def client_at_def sys_inv_def)
qed (auto simp: extends_def set_node_def set_client_def set_agent_conn_def client_at_def)

text \<open>What a step of the server puts into etcd.\<close>

lemma HandleMsg_etcd:
  assumes "etcd_documented api kv" and "HandleMsg api cf now (mk_msg ty p) c e = (err, c', e')"
    and "agent_answer got (ty, p)" and "length p < 2 ^ 63"
  shows "kv e' = kv e \<or>
    (\<exists>d mc sm v. (mk_msg ShellRun_Msg d, mc) \<in> set got \<and>
       Unmarshal ShellRun_info ShellRun_zero d = (sm, None) \<and>
       ExecShell (m_GOOS mc) (m_exec mc) (Runcmd sm) = Inr v \<and>
       kv e' = (kv e)(result_key (shell_Taskid sm) (ClientID c) \<mapsto> v))"
proof (cases "ty = ShellRun_Rsp \<and> e' \<noteq> e")
  case True
  then have "shell_answer got (ty, p)"
    using assms(3) by (auto simp: agent_answer_def script_answer_def msg_type_defs)
  then obtain d mc sm out where a: "(mk_msg ShellRun_Msg d, mc) \<in> set got"
    "Unmarshal ShellRun_info ShellRun_zero d = (sm, None)"
    "ExecShell (m_GOOS mc) (m_exec mc) (Runcmd sm) = Inr out"
    "p = fst (Marshal ShellRunRsp_info (shell_reply out (shell_Taskid sm)))"
    by (auto simp: shell_answer_def)
  have "Unmarshal ShellRunRsp_info ShellRunRsp_zero p =
      (shell_reply out (shell_Taskid sm), snd (Marshal ShellRunRsp_info (shell_reply out (shell_Taskid sm))))"
    unfolding a(4) by (rule shellrsp_decodes) (use assms(4) a(4) in \<open>simp_all add: shell_reply_def ShellRunRsp_zero_def\<close>)
  then have "e' = snd (ClientPut api (result_key (shell_Taskid sm) (ClientID c)) out e)"
    using assms(2) True
    by (auto simp: HandleMsg_def mk_msg_def msg_type_defs HandleShellRunRspMsg_def shell_reply_def
        split: option.splits)
  then have "kv e' = kv e \<or> kv e' = (kv e)(result_key (shell_Taskid sm) (ClientID c) \<mapsto> out)"
    using ClientPut_kv [OF assms(1)] by (metis prod.collapse)
  with a(1-3) show ?thesis by blast
next
  case False
  then show ?thesis using assms(2) by (auto simp: HandleMsg_def mk_msg_def split: if_splits)
qed

lemma Remote_etcd:
  assumes "etcd_documented api kv"
  shows "RemoteShellRun api cf now ks n cmd ips s e = (res, s', e') \<Longrightarrow>
      kv e' = kv e \<or> kv e' = (kv e)(result_key (taskid_text n) ''iplist'' \<mapsto> join_ips ips)"
    and "RemoteScriptRun api cf now ks n nm av ips s e = (res, s', e') \<Longrightarrow>
      kv e' = kv e \<or> kv e' = (kv e)(result_key (taskid_text n) ''iplist'' \<mapsto> join_ips ips)"
  by (auto simp: RemoteShellRun_def RemoteScriptRun_def Let_def dest: ClientPut_kv [OF assms]
      split: prod.splits sum.splits)

text \<open>Every message that waits for a handler was read from its client's connection.\<close>

definition jobs_read :: "('e, 'x) system \<Rightarrow> bool" where
  "jobs_read s \<longleftrightarrow>
     (\<forall>(m, r) \<in> set (jobs (sys_server s)). \<exists>n. sys_nodes s r = Some n \<and> m \<in> set (n_read n))"

lemma srv_step_jobs:
  "srv_step api cf w w' \<Longrightarrow>
     set (jobs w') \<subseteq> set (jobs w) \<union> set (drop (length (jobs w)) (jobs w'))"
  by (induction rule: srv_step.induct) auto

lemma read_by_server_in: "(m, r) \<in> set (drop (length (jobs w)) (jobs w')) \<Longrightarrow> m \<in> set (read_by_server w w' r)"
  by (force simp: read_by_server_def)

lemma jobs_read_mono:
  assumes "extends s s'" and "jobs_read s" and "set (jobs (sys_server s')) \<subseteq> set (jobs (sys_server s))"
  shows "jobs_read s'"
  unfolding jobs_read_def
proof (intro ballI, clarify)
  fix m r assume "(m, r) \<in> set (jobs (sys_server s'))"
  with assms(3) have "(m, r) \<in> set (jobs (sys_server s))" by blast
  with assms(2) obtain n where "sys_nodes s r = Some n" "m \<in> set (n_read n)"
    by (auto simp: jobs_read_def)
  with assms(1) show "\<exists>n. sys_nodes s' r = Some n \<and> m \<in> set (n_read n)"
    unfolding extends_def by blast
qed

lemma sys_step_jobs_read:
  assumes "sys_step api ix cf s s'" and "sys_inv s" and "jobs_read s"
  shows "jobs_read s'"
  using assms(1)
proof (cases rule: sys_step.cases)
  case (connect w' r c dl localip a k ar)
  have "jobs w' = jobs (sys_server s)"
    using accept_client(5) [OF connect(2)] connect(3,4) assms(2) by (simp add: client_at_def sys_inv_def)
  then show ?thesis
    using connect(1) by (intro jobs_read_mono [OF sys_step_extends [OF assms(1,2)] assms(3)]) (simp add: set_node_def)
next
  case (server_moves w')
  let ?w = "sys_server s"
  have dom: "dom (sys_nodes s) = dom (heap (srv ?w))" and wi: "world_inv ?w" "world_inv w'"
    using assms(2) srv_step_inv [OF server_moves(2)] by (simp_all add: sys_inv_def)
  have "\<exists>n. sys_nodes s' r = Some n \<and> m \<in> set (n_read n)" if j: "(m, r) \<in> set (jobs w')" for m r
  proof -
    have "r \<in> dom (heap (srv w'))" using wi(2) j by (auto simp: world_inv_def)
    then have "r \<in> dom (sys_nodes s)" using server_moves(3) dom by blast
    then obtain n where n: "sys_nodes s r = Some n" by blast
    have "(m, r) \<in> set (jobs ?w) \<or> m \<in> set (read_by_server ?w w' r)"
      using srv_step_jobs [OF server_moves(2)] j read_by_server_in by blast
    with n assms(3) have "m \<in> set (n_read n) \<union> set (read_by_server ?w w' r)"
      by (auto simp: jobs_read_def)
    with n server_moves(1) show ?thesis by (auto simp: note_read_def)
  qed
  then show ?thesis using server_moves(1) by (auto simp: jobs_read_def)
qed (use jobs_read_mono [OF sys_step_extends [OF assms(1,2)] assms(3)] in
    \<open>auto simp: set_node_def set_client_def\<close>)

text \<open>A message waiting for a handler is an answer of the agent at the other end.\<close>

lemma job_answer:
  assumes "sys_inv s" and "jobs_read s" and "(m, r) \<in> set (jobs (sys_server s))" and "client_at s r = Some c"
  obtains n ty p where "sys_nodes s r = Some n" and "m = mk_msg ty p" and "agent_answer (n_got n) (ty, p)"
    and "length p + 264 \<le> 2 ^ 32"
proof -
  from assms(2,3) obtain n where n: "sys_nodes s r = Some n" "m \<in> set (n_read n)"
    by (auto simp: jobs_read_def)
  have "link_inv (r \<in> readers (sys_server s)) n c"
    using assms(1,4) n(1) unfolding sys_inv_def by blast
  then obtain up where up: "small up" "list_all (agent_answer (n_got n)) up" "prefix (n_read n) (as_msgs up)"
    unfolding link_inv_def by (blast elim: channel_prefix)
  then have "m \<in> set (as_msgs up)" using n(2) by (auto simp: prefix_def)
  from as_msgs_in [OF this] up obtain ty p where "m = mk_msg ty p" "agent_answer (n_got n) (ty, p)"
    "length p + 264 \<le> 2 ^ 32" by (auto simp: small_def list_all_iff)
  with n(1) show thesis by (rule that)
qed

lemma srv_step_etcd:
  assumes "srv_step api cf w w'" and "etcd_documented api kv"
  obtains "kv (etcd w') = kv (etcd w)"
  | t ips where "kv (etcd w') = (kv (etcd w))(result_key t ''iplist'' \<mapsto> join_ips ips)"
  | m r c now err c' where "(m, r) \<in> set (jobs w)" and "heap (srv w) r = Some c"
      and "HandleMsg api cf now m c (etcd w) = (err, c', etcd w')"
proof -
  have "kv (etcd w') = kv (etcd w) \<or>
      (\<exists>t ips. kv (etcd w') = (kv (etcd w))(result_key t ''iplist'' \<mapsto> join_ips ips)) \<or>
      (\<exists>m r c now err c'. (m, r) \<in> set (jobs w) \<and> heap (srv w) r = Some c \<and>
         HandleMsg api cf now m c (etcd w) = (err, c', etcd w'))"
    using assms(1)
  proof (induction rule: srv_step.induct)
    case (handle w js m r js' c now err c' e')
    then have "(m, r) \<in> set (jobs w)" by simp
    with handle(3,4) show ?case by auto
  next
    case (shell w ks now n cmd iplist res s' e')
    from Remote_etcd(1) [OF assms(2) shell(3)] show ?case
      by (elim disjE) (simp, intro disjI2 disjI1 exI, simp)
  next
    case (script w ks now n name argvs iplist res s' e')
    from Remote_etcd(2) [OF assms(2) script(3)] show ?case
      by (elim disjE) (simp, intro disjI2 disjI1 exI, simp)
  qed auto
  then show thesis using that by blast
qed

text \<open>An agent registers facts of its host under \<open>/server/\<close> and writes nothing else to etcd.\<close>

lemma discovery_key_other: "prefix result_prefix key \<Longrightarrow> key \<noteq> discovery_key ip nm"
  by (auto simp: result_prefix_def discovery_key_def prefix_def)

lemma MannualCollect_etcd:
  assumes "etcd_documented api kv" and "MannualCollect goos ex api ec ip its e = Returns e'"
    and "prefix result_prefix key"
  shows "kv e' key = kv e key"
  using assms(2)
proof (induction its arbitrary: e)
  case (Cons item its)
  then obtain v e1 where 1: "ClientDiscovery api ec ip item v e = Returns e1"
    "MannualCollect goos ex api ec ip its e1 = Returns e'"
    by (auto simp: Let_def split: run.splits)
  have "kv e1 key = kv e key"
    using 1(1) discovery_key_other [OF assms(3)]
    by (auto simp: ClientDiscovery_def dest!: etcd_PutLease [OF assms(1)] split: prod.splits option.splits if_splits)
  with Cons.IH [OF 1(2)] show ?case by simp
qed simp

lemma loop_turn_etcd:
  assumes "etcd_documented api kv" and "loop_turn api ix l inp (a, s) = Some (Returns (go, a', s'))"
    and "prefix result_prefix key"
  shows "kv (s_etcd s') key = kv (s_etcd s) key"
  using assms(2)
  by (cases l) (auto simp: DataCollect_turn_def Let_def dest: MannualCollect_etcd [OF assms(1) _ assms(3)]
      split: run.splits option.splits if_splits)

definition traced :: "('e \<Rightarrow> string \<rightharpoonup> string) \<Rightarrow> 'e \<Rightarrow> ('e, 'x) system \<Rightarrow> bool" where
  "traced kv e s \<longleftrightarrow>
     (\<forall>key v. prefix result_prefix key \<and> kv (etcd (sys_server s)) key = Some v \<longrightarrow>
        kv e key = Some v \<or> (\<exists>t ips. key = result_key t ''iplist'' \<and> v = join_ips ips) \<or>
        result_from s key v)"

lemma traced_mono:
  assumes "extends s s'" and "traced kv e s"
    and "\<And>key v. prefix result_prefix key \<Longrightarrow> kv (etcd (sys_server s')) key = Some v \<Longrightarrow>
      kv (etcd (sys_server s)) key = Some v \<or> (\<exists>t ips. key = result_key t ''iplist'' \<and> v = join_ips ips) \<or>
      result_from s key v"
  shows "traced kv e s'"
  using assms result_from_mono [OF assms(1)] unfolding traced_def by metis

lemma sys_step_traced:
  assumes "sys_step api ix cf s s'" and "sys_inv s" and "jobs_read s" and "etcd_documented api kv"
    and "traced kv e s"
  shows "traced kv e s'"
  using assms(1)
proof (cases rule: sys_step.cases)
  case (connect w' r c dl localip a k ar)
  have "etcd w' = etcd (sys_server s)"
    using accept_client(6) [OF connect(2)] connect(3,4) assms(2) by (simp add: client_at_def sys_inv_def)
  then show ?thesis
    using connect(1) by (intro traced_mono [OF sys_step_extends [OF assms(1,2)] assms(5)]) (simp add: set_node_def)
next
  case (server_moves w')
  let ?w = "sys_server s"
  have s': "sys_server s' = w'" using server_moves(1) by simp
  show ?thesis
  proof (rule traced_mono [OF sys_step_extends [OF assms(1,2)] assms(5)], unfold s')
    fix key v assume key: "prefix result_prefix key" "kv (etcd w') key = Some v"
    show "kv (etcd ?w) key = Some v \<or> (\<exists>t ips. key = result_key t ''iplist'' \<and> v = join_ips ips) \<or>
        result_from s key v"
    proof (cases rule: srv_step_etcd [OF server_moves(2) assms(4)])
      case (3 m r c now err c')
      have c: "client_at s r = Some c" using 3(2) by (simp add: client_at_def)
      from job_answer [OF assms(2,3) 3(1) c] obtain n ty p where n: "sys_nodes s r = Some n" "m = mk_msg ty p"
        "agent_answer (n_got n) (ty, p)" "length p + 264 \<le> 2 ^ 32" by blast
      have "length p < 2 ^ 63" using n(4) by simp
      from HandleMsg_etcd [OF assms(4) 3(3) [unfolded n(2)] n(3) this] key n(1) c show ?thesis
        unfolding result_from_def by (fastforce split: if_splits)
    qed (use key in \<open>auto split: if_splits\<close>)
  qed
next
  case (agent_moves r n l inp go a ar)
  then show ?thesis
    using loop_turn_etcd [OF assms(4) agent_moves(4)]
    by (intro traced_mono [OF sys_step_extends [OF assms(1,2)] assms(5)]) (simp add: set_node_def view_def)
qed (use traced_mono [OF sys_step_extends [OF assms(1,2)] assms(5)] in
    \<open>auto simp: set_node_def set_client_def\<close>)

lemma sys_reachable_traced:
  assumes "etcd_documented api kv" and "sys_reachable api ix cf e x s"
  shows "jobs_read s \<and> traced kv e s"
  using assms(2) unfolding sys_reachable_def
proof (induction rule: rtranclp_induct)
  case base
  show ?case by (simp add: jobs_read_def traced_def system_boot_def boot_def)
next
  case (step y z)
  then have "sys_inv y" using sys_reachable_inv [of api ix cf e x y] by (simp add: sys_reachable_def)
  with step show ?case using sys_step_jobs_read sys_step_traced [OF _ _ _ assms(1)] by blast
qed

section \<open>Properties\<close>

text \<open>A command an agent has read is one the server has written to it.\<close>

lemma got_ordered:
  assumes "sys_inv s" and "sys_nodes s r = Some n" and "client_at s r = Some c"
    and "(mk_msg ty d, mc) \<in> set (n_got n)"
  obtains ordered m where "outbound (Conn c) = packets ordered" and "(ty, d) \<in> set ordered"
    and "server_message m" and "MsgType m = ty" and "msg_bytes m = d" and "length d + 264 \<le> 2 ^ 32"
proof -
  have "link_inv (r \<in> readers (sys_server s)) n c" using assms(1-3) unfolding sys_inv_def by blast
  then obtain dn where dn: "outbound (Conn c) = packets dn" "small dn" "list_all server_packet dn"
    "prefix (map fst (n_got n)) (as_msgs dn)" unfolding link_inv_def by (blast elim: channel_prefix)
  have "mk_msg ty d \<in> set (map fst (n_got n))" using assms(4) by force
  then have "mk_msg ty d \<in> set (as_msgs dn)" using dn(4) by (auto simp only: prefix_def set_append)
  then have "(ty, d) \<in> set dn" by (auto simp: as_msgs_def mk_msg_def)
  then have "server_packet (ty, d)" "length d + 264 \<le> 2 ^ 32" using dn(2,3) by (auto simp: list_all_iff small_def)
  with dn(1) \<open>(ty, d) \<in> set dn\<close> show thesis by (auto simp: server_packet_def msg_pair_def intro: that)
qed

lemma got_shell:
  assumes "sys_inv s" and "sys_nodes s r = Some n" and "client_at s r = Some c"
    and "(mk_msg ShellRun_Msg d, mc) \<in> set (n_got n)"
    and "Unmarshal ShellRun_info ShellRun_zero d = (sm, None)"
  shows "d = fst (Marshal ShellRun_info sm) \<and>
    (\<exists>ordered. outbound (Conn c) = packets ordered \<and> (ShellRun_Msg, d) \<in> set ordered)"
proof -
  obtain ordered m where o: "outbound (Conn c) = packets ordered" "(ShellRun_Msg, d) \<in> set ordered"
    "server_message m" "MsgType m = ShellRun_Msg" "msg_bytes m = d" "length d + 264 \<le> 2 ^ 32"
    by (rule got_ordered [OF assms(1-4)])
  then obtain x where x: "d = fst (Marshal ShellRun_info x)" "shell_unrecognized x = []"
    by (auto simp: server_message_def msg_bytes_def msg_type_defs split: option.splits proto_Message.splits)
  have "length (fst (Marshal ShellRun_info x)) < 2 ^ 63" using o(6) x(1) by simp
  from shell_decodes [OF this x(2)] x(1) assms(5) have "sm = x" by simp
  with x(1) o(1,2) show ?thesis by blast
qed


text \<open>An operator has sent a shell command to the connected agent.\<close>

lemma demo_command_sent:
  "\<exists>s :: demo_system. sys_reachable mem_api mem_influx sample_conf [] [] s \<and>
     etcd (sys_server s) = [(''/task/result/000007/iplist'', ''10.0.0.1'')]"
proof -
  let ?ips = "[''10.0.0.1'']" and ?c = "NewClient (fresh_conn []) ''10.0.0.1''"
  let ?s = "demo_connected []" and ?w = "one_client (fresh_conn []) ([] :: (string \<times> string) list)"
  let ?x = "ShellRun_zero\<lparr>Runcmd := ''ls'', shell_Taskid := taskid_text 7\<rparr>"
  let ?m = "\<lparr>MsgType = ShellRun_Msg, MsgData = [], MsgProto = Some (PB_ShellRun ?x)\<rparr>"
  let ?e = "[(''/task/result/000007/iplist'', ''10.0.0.1'')]"
  let ?w' = "?w\<lparr>srv := Multicast sample_conf 0 ?ips ?ips ?m (srv ?w), etcd := ?e\<rparr>"
  have ws: "sys_server ?s = ?w" by (simp add: demo_connected_def set_node_def)
  have v: "visits ?ips (srv ?w)" "table_ok (srv ?w)"
    by (auto simp: visits_def table_ok_def one_client_def)
  have h: "heap (srv ?w) = [0 \<mapsto> ?c]" "Clients (srv ?w) = [''10.0.0.1'' \<mapsto> 0]"
    by (simp_all add: one_client_def)
  have key: "result_key (taskid_text 7) ''iplist'' = ''/task/result/000007/iplist''"
    "join_ips ?ips = ''10.0.0.1''" by code_simp+
  have st: "srv_step mem_api sample_conf ?w ?w'"
    by (rule shell [where n = 7 and now = 0 and iplist = ?ips and cmd = "''ls''" and res = "Inr (taskid_text 7)", OF _ v(1)])
      (simp_all add: one_client_def boot_def RemoteShellRun_def key ClientPut_def mem_api_def Let_def)
  have hw: "heap (srv ?w') = [0 \<mapsto> SendMsg sample_conf 0 ?m ?c]"
    by (rule ext) (simp add: Multicast_heap [OF v] h)
  have mo: "modest (Conn ?c) (Conn (SendMsg sample_conf 0 ?m ?c))"
  proof -
    have "length (msg_packet ?m) = 20" by code_simp
    moreover have "outbound (Conn (SendMsg sample_conf 0 ?m ?c)) = msg_packet ?m"
      by (simp add: SendMsg_def Let_def)
    ultimately show ?thesis by (simp add: modest_def)
  qed
  have "sys_step mem_api mem_influx sample_conf ?s
      (?s\<lparr>sys_server := ?w', sys_nodes := note_read ?w ?w' (sys_nodes ?s)\<rparr>)"
  proof (rule server_moves [of mem_api sample_conf ?s ?w' mem_influx, unfolded ws], rule st)
    show "dom (heap (srv ?w')) = dom (heap (srv ?w))" unfolding hw h by simp
    show "modest (Conn d) (Conn d')" if "client_at ?s q = Some d" "heap (srv ?w') q = Some d'" for q d d'
      using that mo unfolding client_at_def ws hw h by (auto split: if_splits)
  qed
  then have "sys_reachable mem_api mem_influx sample_conf [] []
      (?s\<lparr>sys_server := ?w', sys_nodes := note_read ?w ?w' (sys_nodes ?s)\<rparr>)"
    using demo_connected_reachable [of "[]"] unfolding sys_reachable_def
    by (rule rtranclp.rtrancl_into_rtrancl [rotated])
  then show ?thesis
    by (intro exI [of _ "?s\<lparr>sys_server := ?w', sys_nodes := note_read ?w ?w' (sys_nodes ?s)\<rparr>"]) simp
qed


end
