(* ===== verification/Goconfig_Ops.thy ===== *)
theory Goconfig_Ops
  imports Goconfig
begin

text \<open>
  The rest of the INI library (\<open>src/vender/src/github.com/Unknwon/goconfig\<close>): deletion, the getter of a
  whole section, typed lookups with defaults, reloading and saving.  The representation keeps the
  same facts three times (the nested map, the list of sections, the lists of keys); the invariant
  \<open>wf_config\<close> says how they agree, and every operation keeps it.  (\<open>Float64\<close>, \<open>MustFloat64\<close> and
  \<open>MustValueArray\<close> are left out.)
\<close>

section \<open>Deletion\<close>

text \<open>The loop that looks for the position of a name, and \<open>append(xs[:i], xs[i+1:]...)\<close>.\<close>

fun position :: "string \<Rightarrow> string list \<Rightarrow> nat" where
  "position name [] = 0"
| "position name (x # xs) = (if x = name then 0 else Suc (position name xs))"

definition cut_out :: "nat \<Rightarrow> string list \<Rightarrow> string list option" where
  "cut_out i xs = Option.bind (go_slice 0 i xs) (\<lambda>a. map_option (\<lambda>b. a @ b) (go_slice (i + 1) (length xs) xs))"

definition DeleteKey :: "string \<Rightarrow> string \<Rightarrow> ConfigFile \<Rightarrow> (bool \<times> ConfigFile) run" where
  "DeleteKey section0 key c =
     (let section = section_name section0
      in case data c section of
           None \<Rightarrow> Returns (False, c)
         | Some m \<Rightarrow>
             if m key \<noteq> None then
               let c1 = c\<lparr>data := (data c)(section \<mapsto> m(key := None))\<rparr>;
                   c2 = snd (SetKeyComments section key [] c1);
                   i = position key (key_list c2 section)
               in (case cut_out i (key_list c2 section) of
                     None \<Rightarrow> Panics
                   | Some ks \<Rightarrow> Returns (True, c2\<lparr>keyList := (keyList c2)(section \<mapsto> ks)\<rparr>))
             else Returns (False, c))"

definition DeleteSection :: "string \<Rightarrow> ConfigFile \<Rightarrow> (bool \<times> ConfigFile) run" where
  "DeleteSection section0 c =
     (let section = section_name section0
      in if data c section = None then Returns (False, c)
         else
           let c1 = c\<lparr>data := (data c)(section := None)\<rparr>;
               c2 = snd (SetSectionComments section [] c1);
               i = position section (sectionList c2)
           in case cut_out i (sectionList c2) of
                None \<Rightarrow> Panics
              | Some ss \<Rightarrow>
                  Returns (True, c2\<lparr>sectionList := ss, keyList := (keyList c2)(section := None)\<rparr>))"

text \<open>\<open>GetSection\<close> removes the blank key from the map it returns, which is the stored one.\<close>

definition GetSection :: "string \<Rightarrow> ConfigFile \<Rightarrow> (string \<rightharpoonup> string) result \<times> ConfigFile" where
  "GetSection section0 c =
     (let section = section_name section0
      in case data c section of
           None \<Rightarrow> (Inl (getError ERR_SECTION_NOT_FOUND section), c)
         | Some m \<Rightarrow>
             let secMap = m('' '' := None)
             in (Inr secMap, c\<lparr>data := (data c)(section \<mapsto> secMap)\<rparr>))"

section \<open>Typed lookups\<close>

text \<open>The error of a typed lookup: of \<open>GetValue\<close>, or of the conversion.\<close>

datatype typed_error = LookupFailed error | NotANumber num_error | NotABool

text \<open>\<open>strconv.ParseBool\<close>.\<close>

definition ParseBool :: "string \<Rightarrow> bool \<times> typed_error option" where
  "ParseBool s =
     (if s \<in> {''1'', ''t'', ''T'', ''TRUE'', ''true'', ''True''} then (True, None)
      else if s \<in> {''0'', ''f'', ''F'', ''FALSE'', ''false'', ''False''} then (False, None)
      else (False, Some NotABool))"

text \<open>As for \<open>GetValue\<close>, \<open>n\<close> is the call depth that is available.\<close>

definition cfg_Bool :: "nat \<Rightarrow> ConfigFile \<Rightarrow> string \<Rightarrow> string \<Rightarrow> (bool \<times> typed_error option) option" where
  "cfg_Bool n c section key =
     map_option (\<lambda>r. case r of Inl err \<Rightarrow> (False, Some (LookupFailed err)) | Inr val \<Rightarrow> ParseBool val)
       (GetValue n c section key)"

definition cfg_Int :: "nat \<Rightarrow> ConfigFile \<Rightarrow> string \<Rightarrow> string \<Rightarrow> (int \<times> typed_error option) option" where
  "cfg_Int n c section key =
     map_option (\<lambda>r. case r of
         Inl err \<Rightarrow> (0, Some (LookupFailed err))
       | Inr val \<Rightarrow> map_prod id (map_option NotANumber) (Atoi val))
       (GetValue n c section key)"

text \<open>\<open>strconv.ParseInt(value, 10, 64)\<close> is \<open>Atoi\<close> on a platform with 64-bit integers.\<close>

definition cfg_Int64 :: "nat \<Rightarrow> ConfigFile \<Rightarrow> string \<Rightarrow> string \<Rightarrow> (int \<times> typed_error option) option" where
  "cfg_Int64 n c section key =
     map_option (\<lambda>r. case r of
         Inl err \<Rightarrow> (0, Some (LookupFailed err))
       | Inr val \<Rightarrow> map_prod id (map_option NotANumber) (Atoi val))
       (GetValue n c section key)"

text \<open>The value and the error of \<open>GetValue\<close> as two results.\<close>

definition value_and_error :: "string result \<Rightarrow> string \<times> error option" where
  "value_and_error r = (case r of Inl err \<Rightarrow> ([], Some err) | Inr val \<Rightarrow> (val, None))"

definition needs_default :: "string result \<Rightarrow> 'a list \<Rightarrow> bool" where
  "needs_default r defaultVal \<longleftrightarrow>
     (case value_and_error r of (val, err) \<Rightarrow> length defaultVal > 0 \<and> (err \<noteq> None \<or> length val = 0))"

definition MustValue :: "nat \<Rightarrow> ConfigFile \<Rightarrow> string \<Rightarrow> string \<Rightarrow> string list \<Rightarrow> string option" where
  "MustValue n c section key defaultVal =
     map_option (\<lambda>r. if needs_default r defaultVal then defaultVal ! 0 else fst (value_and_error r))
       (GetValue n c section key)"

definition MustValueSet ::
    "nat \<Rightarrow> string \<Rightarrow> string \<Rightarrow> string list \<Rightarrow> ConfigFile \<Rightarrow> ((string \<times> bool) \<times> ConfigFile) option" where
  "MustValueSet n section key defaultVal c =
     map_option (\<lambda>r.
       if needs_default r defaultVal
       then ((defaultVal ! 0, True), snd (SetValue section key (defaultVal ! 0) c))
       else ((fst (value_and_error r), False), c))
       (GetValue n c section key)"

definition MustValueRange :: "nat \<Rightarrow> ConfigFile \<Rightarrow> string \<Rightarrow> string \<Rightarrow> string \<Rightarrow> string list \<Rightarrow> string option" where
  "MustValueRange n c section key defaultVal candidates =
     map_option (\<lambda>r. case value_and_error r of
       (val, err) \<Rightarrow>
         if err \<noteq> None \<or> length val = 0 then defaultVal
         else if list_ex (\<lambda>cand. val = cand) candidates then val else defaultVal)
       (GetValue n c section key)"

definition or_default :: "'a list \<Rightarrow> 'a \<times> typed_error option \<Rightarrow> 'a" where
  "or_default defaultVal r =
     (case r of (val, err) \<Rightarrow> if length defaultVal > 0 \<and> err \<noteq> None then defaultVal ! 0 else val)"

definition MustBool :: "nat \<Rightarrow> ConfigFile \<Rightarrow> string \<Rightarrow> string \<Rightarrow> bool list \<Rightarrow> bool option" where
  "MustBool n c section key defaultVal = map_option (or_default defaultVal) (cfg_Bool n c section key)"

definition MustInt :: "nat \<Rightarrow> ConfigFile \<Rightarrow> string \<Rightarrow> string \<Rightarrow> int list \<Rightarrow> int option" where
  "MustInt n c section key defaultVal = map_option (or_default defaultVal) (cfg_Int n c section key)"

definition MustInt64 :: "nat \<Rightarrow> ConfigFile \<Rightarrow> string \<Rightarrow> string \<Rightarrow> int list \<Rightarrow> int option" where
  "MustInt64 n c section key defaultVal = map_option (or_default defaultVal) (cfg_Int64 n c section key)"

section \<open>Loading again and saving\<close>

text \<open>With an error, \<open>LoadFromReader\<close> and \<open>LoadFromData\<close> also return what they have read until then,
  which is left out.\<close>

definition LoadFromReader :: "string \<Rightarrow> string \<Rightarrow> ConfigFile result" where
  "LoadFromReader goos content = read goos content (newConfigFile [[]])"

text \<open>\<open>LoadFromData\<close> keeps a copy in a temporary file; \<open>mkdir\<close> and \<open>wr\<close> are the outcomes of making
  the directory and of writing the file.\<close>

definition LoadFromData ::
    "error option \<Rightarrow> error option \<Rightarrow> string \<Rightarrow> string \<Rightarrow> string \<Rightarrow> (string \<Rightarrow> string result)
      \<Rightarrow> ConfigFile result \<times> (string \<Rightarrow> string result)" where
  "LoadFromData mkdir wr goos tmpName content fs =
     (case mkdir of
        Some err \<Rightarrow> (Inl err, fs)
      | None \<Rightarrow>
          (case wr of
             Some err \<Rightarrow> (Inl err, fs)
           | None \<Rightarrow> (read goos content (newConfigFile [tmpName]), fs(tmpName := Inr content))))"

text \<open>\<open>*c = *cfg\<close> when loading has succeeded.\<close>

definition take_over :: "ConfigFile \<Rightarrow> ConfigFile result \<Rightarrow> error option \<times> ConfigFile" where
  "take_over c r = (case r of Inl err \<Rightarrow> (Some err, c) | Inr cfg \<Rightarrow> (None, cfg))"

definition Reload :: "(string \<Rightarrow> string result) \<Rightarrow> string \<Rightarrow> ConfigFile \<Rightarrow> (error option \<times> ConfigFile) run" where
  "Reload fs goos c =
     (case fileNames c of
        [] \<Rightarrow> Panics
      | name # rest \<Rightarrow>
          if rest = [] then
            if name = [] then
              Returns (Some (ExtError ''file opened from in-memory data, use ReloadData to reload''), c)
            else Returns (take_over c (LoadConfigFile fs goos name []))
          else Returns (take_over c (LoadConfigFile fs goos name rest)))"

definition ReloadData :: "string \<Rightarrow> string \<Rightarrow> ConfigFile \<Rightarrow> error option \<times> ConfigFile" where
  "ReloadData goos content c =
     (if length (fileNames c) \<noteq> 1 then
        (Some (ExtError ''Multiple files loaded, unable to mix in-memory and file data''), c)
      else take_over c (LoadFromReader goos content))"

definition AppendFiles ::
    "(string \<Rightarrow> string result) \<Rightarrow> string \<Rightarrow> string list \<Rightarrow> ConfigFile \<Rightarrow> (error option \<times> ConfigFile) run" where
  "AppendFiles fs goos files c =
     (if fileNames c = [[]] then Returns (Some (ExtError ''Cannot append file data to in-memory data''), c)
      else Reload fs goos (c\<lparr>fileNames := fileNames c @ files\<rparr>))"

text \<open>\<open>create\<close>, \<open>wr\<close> and \<open>close\<close> are the outcomes of the three calls; creating a file empties it, and
  a failed write has put some first part of the text into it.\<close>

definition SaveConfigFile ::
    "error option \<Rightarrow> (nat \<times> error) option \<Rightarrow> error option \<Rightarrow> string \<Rightarrow> ConfigFile \<Rightarrow> string \<Rightarrow> (string \<Rightarrow> string result)
      \<Rightarrow> error option \<times> (string \<Rightarrow> string result)" where
  "SaveConfigFile create wr close goos c filename fs =
     (case create of
        Some err \<Rightarrow> (Some err, fs)
      | None \<Rightarrow>
          (case wr of
             Some (n, err) \<Rightarrow> (Some err, fs(filename := Inr (take n (SaveConfigData goos c))))
           | None \<Rightarrow> (close, fs(filename := Inr (SaveConfigData goos c)))))"

section \<open>How the three copies agree\<close>

text \<open>
  The section list has every section once; for every section the list of keys has every key once.
  The blank key, which only keeps an empty section alive, is exempt: \<open>GetSection\<close> removes it from the
  map and leaves it in the list.
\<close>

definition keys_agree :: "(string \<rightharpoonup> string) \<Rightarrow> string list \<Rightarrow> bool" where
  "keys_agree m ks \<longleftrightarrow>
     distinct (filter (\<lambda>k. k \<noteq> '' '') ks) \<and> set ks - {'' ''} = dom m - {'' ''} \<and> dom m \<subseteq> set ks"

definition wf_config :: "ConfigFile \<Rightarrow> bool" where
  "wf_config c \<longleftrightarrow>
     distinct (sectionList c) \<and> set (sectionList c) = dom (data c) \<and> dom (keyList c) \<subseteq> dom (data c) \<and>
     (\<forall>s m. data c s = Some m \<longrightarrow> keys_agree m (key_list c s))"

lemma position_bound: "position x xs < length xs \<longleftrightarrow> x \<in> set xs"
  by (induction xs) auto

lemma cut_out_position:
  "x \<in> set xs \<Longrightarrow> cut_out (position x xs) xs = Some (remove1 x xs)"
proof -
  have "take (position x xs) xs @ drop (Suc (position x xs)) xs = remove1 x xs" if "x \<in> set xs" for xs
    using that by (induction xs) auto
  then show "x \<in> set xs \<Longrightarrow> cut_out (position x xs) xs = Some (remove1 x xs)"
    using position_bound [of x xs] by (simp add: cut_out_def go_slice_def)
qed

lemma keys_agree_put_new:
  assumes "keys_agree m ks" and "m k = None"
  shows "keys_agree (m(k \<mapsto> v)) (ks @ [k])"
proof -
  have "k \<notin> set ks" if "k \<noteq> '' ''"
    using assms that unfolding keys_agree_def by (metis DiffD1 DiffI domIff empty_iff insert_iff)
  with assms(1) show ?thesis by (auto simp: keys_agree_def)
qed

lemma keys_agree_put_old:
  assumes "keys_agree m ks" and "m k \<noteq> None"
  shows "keys_agree (m(k \<mapsto> v)) ks"
  using assms by (auto simp: keys_agree_def)

lemma keys_agree_delete:
  assumes "keys_agree m ks" and "m k \<noteq> None"
  shows "keys_agree (m(k := None)) (remove1 k ks)"
proof -
  have d: "distinct (filter (\<lambda>k. k \<noteq> '' '') ks)" using assms(1) by (simp add: keys_agree_def)
  have f: "filter (\<lambda>k. k \<noteq> '' '') (remove1 k ks) = remove1 k (filter (\<lambda>k. k \<noteq> '' '') ks)"
    by (simp add: filter_remove1)
  have "set (remove1 k ks) - {'' ''} = set (filter (\<lambda>k. k \<noteq> '' '') (remove1 k ks))" by auto
  also have "\<dots> = set ks - {'' ''} - {k}" unfolding f using d by (auto simp: set_remove1_eq)
  finally have "set (remove1 k ks) - {'' ''} = set ks - {'' ''} - {k}" .
  moreover have "dom m - {k} \<subseteq> set (remove1 k ks)"
  proof
    fix x assume "x \<in> dom m - {k}"
    then have "x \<in> set ks" "x \<noteq> k" using assms(1) unfolding keys_agree_def by blast+
    then show "x \<in> set (remove1 k ks)" by (simp add: in_set_remove1)
  qed
  ultimately show ?thesis
    using assms(1) d by (auto simp: keys_agree_def f)
qed

lemma keys_agree_blank: "keys_agree m ks \<Longrightarrow> keys_agree (m('' '' := None)) ks"
  by (auto simp: keys_agree_def)

lemma wf_new [simp]: "wf_config (newConfigFile names)"
  by (simp add: wf_config_def newConfigFile_def)

lemma wf_SetValue: "wf_config c \<Longrightarrow> wf_config (snd (SetValue s k v c))"
proof -
  assume wf: "wf_config c"
  let ?s = "section_name s"
  show ?thesis
  proof (cases "k = []")
    case False
    show ?thesis
    proof (cases "data c ?s")
      case None
      then have "keyList c ?s = None" using wf by (auto simp: wf_config_def)
      moreover have "keys_agree (Map.empty(k \<mapsto> v)) [k]"
        by (auto simp: keys_agree_def)
      ultimately show ?thesis
        using wf None False
        by (auto simp: SetValue_def wf_config_def lookup_key_def key_list_def Let_def split: if_splits)
    next
      case (Some m)
      then have ag: "keys_agree m (key_list c ?s)" using wf by (simp add: wf_config_def)
      show ?thesis
      proof (cases "m k")
        case None
        with Some wf False keys_agree_put_new [OF ag None, of v] show ?thesis
          by (auto simp: SetValue_def wf_config_def lookup_key_def key_list_def Let_def split: if_splits)
      next
        case m: (Some v0)
        with Some wf False keys_agree_put_old [OF ag, of k v] show ?thesis
          by (auto simp: SetValue_def wf_config_def lookup_key_def key_list_def Let_def split: if_splits)
      qed
    qed
  qed (simp add: SetValue_def wf)
qed

lemma wf_cong:
  "wf_config c \<Longrightarrow> data c' = data c \<Longrightarrow> sectionList c' = sectionList c \<Longrightarrow> keyList c' = keyList c \<Longrightarrow>
     wf_config c'"
  by (simp add: wf_config_def key_list_def)

lemma comments_frame [simp]:
  "data (snd (SetKeyComments s k t c)) = data c" "sectionList (snd (SetKeyComments s k t c)) = sectionList c"
  "keyList (snd (SetKeyComments s k t c)) = keyList c" "fileNames (snd (SetKeyComments s k t c)) = fileNames c"
  "data (snd (SetSectionComments s t c)) = data c" "sectionList (snd (SetSectionComments s t c)) = sectionList c"
  "keyList (snd (SetSectionComments s t c)) = keyList c"
  "fileNames (snd (SetSectionComments s t c)) = fileNames c"
  by (simp_all add: SetKeyComments_def SetSectionComments_def Let_def split: option.splits)

lemma wf_comments:
  "wf_config c \<Longrightarrow> wf_config (snd (SetKeyComments s k t c))"
  "wf_config c \<Longrightarrow> wf_config (snd (SetSectionComments s t c))"
  by (auto elim: wf_cong)

text \<open>A key that is found is in the list, so that cutting it out does not go out of bounds.\<close>

lemma DeleteKey_found:
  assumes "wf_config c" and "data c (section_name s) = Some m" and "m k \<noteq> None"
  obtains c' where "DeleteKey s k c = Returns (True, c')"
    and "data c' = (data c)(section_name s \<mapsto> m(k := None))" and "sectionList c' = sectionList c"
    and "keyList c' = (keyList c)(section_name s \<mapsto> remove1 k (key_list c (section_name s)))"
    and "wf_config c'"
proof -
  let ?s = "section_name s" and ?ks = "key_list c (section_name s)"
  let ?c2 = "snd (SetKeyComments ?s k [] (c\<lparr>data := (data c)(?s \<mapsto> m(k := None))\<rparr>))"
  let ?c' = "?c2\<lparr>keyList := (keyList ?c2)(?s \<mapsto> remove1 k ?ks)\<rparr>"
  have ag: "keys_agree m ?ks" using assms(1,2) by (simp add: wf_config_def)
  have "k \<in> set ?ks" using ag assms(3) by (auto simp: keys_agree_def)
  then have "cut_out (position k ?ks) ?ks = Some (remove1 k ?ks)" by (rule cut_out_position)
  moreover have ks: "key_list ?c2 ?s = ?ks" by (simp add: key_list_def)
  ultimately have d: "DeleteKey s k c = Returns (True, ?c')"
    using assms(2,3) unfolding DeleteKey_def Let_def by simp
  have "wf_config ?c'"
    using assms(1,2) keys_agree_delete [OF ag assms(3)]
    by (auto simp: wf_config_def key_list_def split: if_splits)
  then show thesis by (intro that [OF d]) simp_all
qed

lemma DeleteKey_absent:
  assumes "\<And>m. data c (section_name s) = Some m \<Longrightarrow> m k = None"
  shows "DeleteKey s k c = Returns (False, c)"
  using assms by (auto simp: DeleteKey_def Let_def split: option.splits)

lemma DeleteSection_found:
  assumes "wf_config c" and "data c (section_name s) \<noteq> None"
  obtains c' where "DeleteSection s c = Returns (True, c')"
    and "data c' = (data c)(section_name s := None)" and "keyList c' = (keyList c)(section_name s := None)"
    and "sectionList c' = remove1 (section_name s) (sectionList c)" and "keyComments c' = keyComments c"
    and "wf_config c'"
proof -
  let ?s = "section_name s"
  let ?c2 = "snd (SetSectionComments ?s [] (c\<lparr>data := (data c)(?s := None)\<rparr>))"
  let ?c' = "?c2\<lparr>sectionList := remove1 ?s (sectionList c), keyList := (keyList ?c2)(?s := None)\<rparr>"
  have "?s \<in> set (sectionList c)" using assms by (auto simp: wf_config_def)
  then have "cut_out (position ?s (sectionList c)) (sectionList c) = Some (remove1 ?s (sectionList c))"
    by (rule cut_out_position)
  then have d: "DeleteSection s c = Returns (True, ?c')"
    using assms(2) unfolding DeleteSection_def Let_def by simp
  have "wf_config ?c'"
    using assms(1) by (auto simp: wf_config_def key_list_def set_remove1_eq split: if_splits)
  then show thesis
    by (intro that [OF d]) (simp_all add: SetSectionComments_def Let_def)
qed

lemma DeleteSection_absent: "data c (section_name s) = None \<Longrightarrow> DeleteSection s c = Returns (False, c)"
  by (simp add: DeleteSection_def Let_def)

lemma wf_DeleteKey: "wf_config c \<Longrightarrow> \<exists>b c'. DeleteKey s k c = Returns (b, c') \<and> wf_config c'"
  using DeleteKey_found [of c s _ k] DeleteKey_absent [of c s k] by metis

lemma wf_DeleteSection: "wf_config c \<Longrightarrow> \<exists>b c'. DeleteSection s c = Returns (b, c') \<and> wf_config c'"
  using DeleteSection_found [of c s] DeleteSection_absent [of c s] by metis

lemma wf_GetSection:
  assumes "wf_config c"
  shows "wf_config (snd (GetSection s c))"
proof (cases "data c (section_name s)")
  case (Some m)
  then have "keys_agree (m('' '' := None)) (key_list c (section_name s))"
    using assms by (intro keys_agree_blank) (simp add: wf_config_def)
  with Some assms show ?thesis
    by (auto simp: GetSection_def wf_config_def key_list_def Let_def split: if_splits)
qed (simp add: GetSection_def assms)

lemma wf_MustValueSet: "wf_config c \<Longrightarrow> MustValueSet n s k ds c = Some (r, c') \<Longrightarrow> wf_config c'"
  by (auto simp: MustValueSet_def wf_SetValue split: if_splits)

text \<open>Whatever a file contains, what is read from it is well formed.\<close>

lemma wf_read_line:
  assumes "read_line goos line st = Inr st'" and "wf_config (rd_file st)"
  shows "wf_config (rd_file st')"
  using assms
  by (auto simp: read_line_def Let_def intro!: wf_SetValue wf_comments split: if_splits option.splits)

lemma wf_read_lines:
  "read_lines goos ls st = Inr st' \<Longrightarrow> wf_config (rd_file st) \<Longrightarrow> wf_config (rd_file st')"
  by (induction ls arbitrary: st) (auto dest: wf_read_line split: sum.splits)

lemma wf_read:
  assumes "read goos content c = Inr c'" and "wf_config c"
  shows "wf_config c'"
proof -
  let ?st = "\<lparr>rd_file = c, rd_section = DEFAULT_SECTION, rd_comments = [], rd_count = 1\<rparr>"
  from assms(1) obtain st' where "read_lines goos (strings_Split (skip_BOM content) (CHR 10)) ?st = Inr st'"
    "c' = rd_file st'"
    by (cases "read_lines goos (strings_Split (skip_BOM content) (CHR 10)) ?st") (auto simp: read_def)
  with wf_read_lines [of goos _ ?st st'] assms(2) show ?thesis by simp
qed

lemma wf_load_all: "load_all fs goos names c = Inr c' \<Longrightarrow> wf_config c \<Longrightarrow> wf_config c'"
  by (induction names arbitrary: c) (auto simp: loadFile_def intro: wf_read split: sum.splits)

lemma wf_LoadConfigFile: "LoadConfigFile fs goos name names = Inr c \<Longrightarrow> wf_config c"
  unfolding LoadConfigFile_def by (erule wf_load_all) (rule wf_new)

lemma wf_Reload:
  "Reload fs goos c = Returns (err, c') \<Longrightarrow> wf_config c \<Longrightarrow> wf_config c'"
  by (auto simp: Reload_def take_over_def dest: wf_LoadConfigFile split: list.splits if_splits sum.splits)

lemma wf_ReloadData: "wf_config c \<Longrightarrow> wf_config (snd (ReloadData goos content c))"
  by (auto simp: ReloadData_def take_over_def LoadFromReader_def dest: wf_read split: sum.splits)

lemma wf_AppendFiles:
  assumes "AppendFiles fs goos names c = Returns (err, c')" and "wf_config c"
  shows "wf_config c'"
proof -
  have "wf_config (c\<lparr>fileNames := fileNames c @ names\<rparr>)" using assms(2) by (rule wf_cong) simp_all
  with assms show ?thesis by (auto simp: AppendFiles_def intro: wf_Reload split: if_splits)
qed

section \<open>The contract of a configuration\<close>

text \<open>
  What a client of the library relies on, whatever the representation: lookups see exactly the last
  value put, deletion removes exactly one entry, and the list of keys has the keys in the order in
  which they were put.
\<close>

locale key_store =
  fixes inv :: "'s \<Rightarrow> bool"
    and ok :: "string \<Rightarrow> bool"
    and norm :: "string \<Rightarrow> string"
    and look :: "'s \<Rightarrow> string \<Rightarrow> string \<Rightarrow> string option"
    and keys :: "'s \<Rightarrow> string \<Rightarrow> string list"
    and put :: "string \<Rightarrow> string \<Rightarrow> string \<Rightarrow> 's \<Rightarrow> 's"
    and del :: "string \<Rightarrow> string \<Rightarrow> 's \<Rightarrow> 's"
  assumes inv_put: "inv c \<Longrightarrow> inv (put s k v c)"
    and inv_del: "inv c \<Longrightarrow> inv (del s k c)"
    and look_put: "inv c \<Longrightarrow> ok k \<Longrightarrow>
      look (put s k v c) s' k' = (if norm s' = norm s \<and> k' = k then Some v else look c s' k')"
    and look_del: "inv c \<Longrightarrow> ok k \<Longrightarrow>
      look (del s k c) s' k' = (if norm s' = norm s \<and> k' = k then None else look c s' k')"
    and keys_look: "inv c \<Longrightarrow> distinct (keys c s) \<and> set (keys c s) = {k. look c s k \<noteq> None}"
    and keys_put: "inv c \<Longrightarrow> ok k \<Longrightarrow>
      keys (put s k v c) s' = (if norm s' = norm s \<and> look c s k = None then keys c s' @ [k] else keys c s')"
    and keys_del: "inv c \<Longrightarrow> ok k \<Longrightarrow>
      keys (del s k c) s' = (if norm s' = norm s then remove1 k (keys c s') else keys c s')"
    and look_norm: "norm s' = norm s \<Longrightarrow> look c s' = look c s"
begin

text \<open>Putting a new entry and deleting it again leaves no trace.\<close>

lemma del_put:
  assumes "inv c" and "ok k" and "look c s k = None"
  shows "look (del s k (put s k v c)) = look c" and "keys (del s k (put s k v c)) = keys c"
proof -
  have i: "inv (put s k v c)" by (rule inv_put [OF assms(1)])
  have "look (del s k (put s k v c)) s' k' = look c s' k'" for s' k'
    using assms(3) look_norm [of s' s c] by (simp add: look_del [OF i assms(2)] look_put [OF assms(1,2)])
  then show "look (del s k (put s k v c)) = look c" by (simp add: fun_eq_iff)
  have "k \<notin> set (keys c s')" if "norm s' = norm s" for s'
    using keys_look [OF assms(1), of s'] look_norm [OF that, of c] assms(3) by auto
  then have "remove1 k (keys c s' @ [k]) = keys c s'" if "norm s' = norm s" for s'
    using that by (simp add: remove1_append)
  then show "keys (del s k (put s k v c)) = keys c"
    using assms(3) by (auto simp: fun_eq_iff keys_del [OF i assms(2)] keys_put [OF assms(1,2)])
qed

text \<open>After any list of puts into one section, the keys are the old ones and then the new ones in the
  order of their first put, and each has the value of its last put.\<close>

lemma fold_put:
  assumes "inv c" and "list_all ok (map fst kvs)"
  shows "inv (fold (\<lambda>(k, v). put s k v) kvs c)"
    and "look (fold (\<lambda>(k, v). put s k v) kvs c) s k =
      (case map_of (rev kvs) k of None \<Rightarrow> look c s k | Some v \<Rightarrow> Some v)"
    and "distinct (map fst kvs) \<Longrightarrow> set (map fst kvs) \<inter> set (keys c s) = {} \<Longrightarrow>
      keys (fold (\<lambda>(k, v). put s k v) kvs c) s = keys c s @ map fst kvs"
proof -
  show "inv (fold (\<lambda>(k, v). put s k v) kvs c)" using assms(1) by (induction kvs arbitrary: c) (auto simp: inv_put)
  show "look (fold (\<lambda>(k, v). put s k v) kvs c) s k =
      (case map_of (rev kvs) k of None \<Rightarrow> look c s k | Some v \<Rightarrow> Some v)"
    using assms by (induction kvs arbitrary: c) (auto simp: inv_put look_put map_add_def split: option.splits)
  show "keys (fold (\<lambda>(k, v). put s k v) kvs c) s = keys c s @ map fst kvs"
    if "distinct (map fst kvs)" "set (map fst kvs) \<inter> set (keys c s) = {}"
    using assms that
  proof (induction kvs arbitrary: c)
    case (Cons kv kvs)
    obtain k v where kv: "kv = (k, v)" by force
    have new: "keys (put s k v c) s = keys c s @ [k]"
      using Cons.prems kv keys_look [OF Cons.prems(1), of s] by (auto simp: keys_put)
    have "keys (fold (\<lambda>(k, v). put s k v) kvs (put s k v c)) s = keys (put s k v c) s @ map fst kvs"
      using Cons.prems kv new by (intro Cons.IH) (auto simp: inv_put)
    with new kv show ?case by simp
  qed simp
qed

end

text \<open>The names a client may use: not empty, and not the blank that keeps a section alive.\<close>

definition client_key :: "string \<Rightarrow> bool" where
  "client_key k \<longleftrightarrow> k \<noteq> [] \<and> k \<noteq> '' ''"

definition config_look :: "ConfigFile \<Rightarrow> string \<Rightarrow> string \<Rightarrow> string option" where
  "config_look c s k = (if k = '' '' then None else lookup_key c (section_name s) k)"

definition config_del :: "string \<Rightarrow> string \<Rightarrow> ConfigFile \<Rightarrow> ConfigFile" where
  "config_del s k c = (case DeleteKey s k c of Returns (b, c') \<Rightarrow> c' | Panics \<Rightarrow> c)"

lemma keys_agree_keys:
  "keys_agree m ks \<Longrightarrow> set (filter (\<lambda>k. k \<noteq> '' '') ks) = {k. k \<noteq> '' '' \<and> m k \<noteq> None}"
  unfolding keys_agree_def by (auto simp: dom_def)

lemma SetValue_fields:
  assumes "k \<noteq> []"
  shows "data (snd (SetValue s k v c)) = (data c)(section_name s \<mapsto>
      (case data c (section_name s) of None \<Rightarrow> Map.empty | Some m \<Rightarrow> m)(k \<mapsto> v))"
    and "key_list (snd (SetValue s k v c)) s' =
      (if s' = section_name s \<and> lookup_key c s' k = None then key_list c s' @ [k] else key_list c s')"
  using assms by (auto simp: SetValue_def Let_def lookup_key_def key_list_def fun_eq_iff split: option.splits)

lemma GetKeyList_SetValue:
  assumes "wf_config c" and "client_key k"
  shows "GetKeyList (snd (SetValue s k v c)) s' =
    (if section_name s' = section_name s \<and> config_look c s k = None then GetKeyList c s' @ [k] else GetKeyList c s')"
proof -
  have "key_list c (section_name s) = []" if "data c (section_name s) = None"
    using that assms(1) by (auto simp: wf_config_def key_list_def split: option.splits)
  then show ?thesis
    using assms(2)
    by (auto simp: GetKeyList_def Let_def SetValue_fields client_key_def config_look_def lookup_key_def)
qed

lemma GetKeyList_look:
  assumes "wf_config c"
  shows "distinct (GetKeyList c s) \<and> set (GetKeyList c s) = {k. config_look c s k \<noteq> None}"
proof (cases "data c (section_name s)")
  case (Some m)
  then have "keys_agree m (key_list c (section_name s))" using assms by (simp add: wf_config_def)
  with keys_agree_keys [OF this] Some show ?thesis
    by (auto simp: GetKeyList_def config_look_def lookup_key_def keys_agree_def Let_def simp del: set_filter)
qed (auto simp: GetKeyList_def config_look_def lookup_key_def)

lemma config_del_look:
  assumes "wf_config c"
  shows "lookup_key (config_del s k c) s' k' = (if s' = section_name s \<and> k' = k then None else lookup_key c s' k')"
proof (cases "lookup_key c (section_name s) k")
  case None
  then have "DeleteKey s k c = Returns (False, c)" by (intro DeleteKey_absent) (simp add: lookup_key_def)
  with None show ?thesis by (simp add: config_del_def)
next
  case (Some v)
  then obtain m where m: "data c (section_name s) = Some m" "m k \<noteq> None"
    by (auto simp: lookup_key_def bind_eq_Some_conv)
  obtain c' where "DeleteKey s k c = Returns (True, c')" "data c' = (data c)(section_name s \<mapsto> m(k := None))"
    by (rule DeleteKey_found [OF assms m])
  with m show ?thesis by (auto simp: config_del_def lookup_key_def)
qed

lemma config_del_keys:
  assumes "wf_config c" and "client_key k"
  shows "GetKeyList (config_del s k c) s' =
    (if section_name s' = section_name s then remove1 k (GetKeyList c s') else GetKeyList c s')"
proof (cases "lookup_key c (section_name s) k")
  case None
  then have "DeleteKey s k c = Returns (False, c)" by (intro DeleteKey_absent) (simp add: lookup_key_def)
  moreover have "k \<notin> set (GetKeyList c s')" if "section_name s' = section_name s"
    using GetKeyList_look [OF assms(1), of s'] None that by (auto simp: config_look_def)
  ultimately show ?thesis by (auto simp: config_del_def remove1_idem)
next
  case (Some v)
  then obtain m where m: "data c (section_name s) = Some m" "m k \<noteq> None"
    by (auto simp: lookup_key_def bind_eq_Some_conv)
  obtain c' where "DeleteKey s k c = Returns (True, c')" "data c' = (data c)(section_name s \<mapsto> m(k := None))"
    "keyList c' = (keyList c)(section_name s \<mapsto> remove1 k (key_list c (section_name s)))"
    by (rule DeleteKey_found [OF assms(1) m])
  with m show ?thesis by (simp add: config_del_def GetKeyList_def key_list_def filter_remove1 Let_def)
qed

interpretation config: key_store wf_config client_key section_name config_look GetKeyList
  "\<lambda>s k v c. snd (SetValue s k v c)" config_del
proof (unfold_locales, goal_cases)
  case (1 c s k v)
  then show ?case by (rule wf_SetValue)
next
  case (2 c s k)
  with wf_DeleteKey [OF 2, of s k] show ?case by (auto simp: config_del_def)
next
  case (3 c k s v s' k')
  then show ?case
    by (auto simp: config_look_def lookup_key_def SetValue_fields client_key_def split: option.splits)
next
  case (4 c k s s' k')
  then show ?case by (auto simp: config_look_def config_del_look client_key_def)
next
  case (5 c s)
  then show ?case by (rule GetKeyList_look)
next
  case (6 c k s v s')
  then show ?case by (rule GetKeyList_SetValue)
next
  case (7 c k s s')
  then show ?case by (rule config_del_keys)
next
  case (8 s' s c)
  then show ?case by (simp add: config_look_def fun_eq_iff)
qed

section \<open>Configurations a program can get\<close>

text \<open>Everything the exported operations can make; the file system may change from call to call.\<close>

inductive config_reach :: "string \<Rightarrow> ConfigFile \<Rightarrow> bool"
  for goos :: string
where
  load: "LoadConfigFile fs goos name names = Inr c \<Longrightarrow> config_reach goos c"
| load_reader: "LoadFromReader goos content = Inr c \<Longrightarrow> config_reach goos c"
| load_data: "LoadFromData mkdir wr goos tmpName content fs = (Inr c, fs') \<Longrightarrow> config_reach goos c"
| set_value: "config_reach goos c \<Longrightarrow> config_reach goos (snd (SetValue s k v c))"
| set_key_comments: "config_reach goos c \<Longrightarrow> config_reach goos (snd (SetKeyComments s k t c))"
| set_section_comments: "config_reach goos c \<Longrightarrow> config_reach goos (snd (SetSectionComments s t c))"
| must_set: "config_reach goos c \<Longrightarrow> MustValueSet n s k ds c = Some (r, c') \<Longrightarrow> config_reach goos c'"
| delete_key: "config_reach goos c \<Longrightarrow> DeleteKey s k c = Returns (b, c') \<Longrightarrow> config_reach goos c'"
| delete_section: "config_reach goos c \<Longrightarrow> DeleteSection s c = Returns (b, c') \<Longrightarrow> config_reach goos c'"
| get_section: "config_reach goos c \<Longrightarrow> config_reach goos (snd (GetSection s c))"
| reload: "config_reach goos c \<Longrightarrow> Reload fs goos c = Returns (err, c') \<Longrightarrow> config_reach goos c'"
| reload_data: "config_reach goos c \<Longrightarrow> config_reach goos (snd (ReloadData goos content c))"
| append_files: "config_reach goos c \<Longrightarrow> AppendFiles fs goos names c = Returns (err, c') \<Longrightarrow> config_reach goos c'"

lemma SetValue_files [simp]: "fileNames (snd (SetValue s k v c)) = fileNames c"
  by (simp add: SetValue_def Let_def)

lemma read_files:
  assumes "read goos content c = Inr c'"
  shows "fileNames c' = fileNames c"
proof -
  have line: "fileNames (rd_file st') = fileNames (rd_file st)" if "read_line goos l st = Inr st'" for l st st'
    using that by (auto simp: read_line_def Let_def split: if_splits option.splits)
  have lines: "fileNames (rd_file st') = fileNames (rd_file st)" if "read_lines goos ls st = Inr st'" for ls st st'
    using that by (induction ls arbitrary: st) (auto dest: line split: sum.splits)
  let ?st = "\<lparr>rd_file = c, rd_section = DEFAULT_SECTION, rd_comments = [], rd_count = 1\<rparr>"
  from assms obtain st' where "read_lines goos (strings_Split (skip_BOM content) (CHR 10)) ?st = Inr st'"
    "c' = rd_file st'"
    by (cases "read_lines goos (strings_Split (skip_BOM content) (CHR 10)) ?st") (auto simp: read_def)
  with lines show ?thesis by fastforce
qed

lemma load_all_files: "load_all fs goos names c = Inr c' \<Longrightarrow> fileNames c' = fileNames c"
  by (induction names arbitrary: c) (auto simp: loadFile_def dest: read_files split: sum.splits)

lemma LoadConfigFile_files:
  assumes "LoadConfigFile fs goos name names = Inr c"
  shows "fileNames c = name # names"
  using load_all_files [OF assms [unfolded LoadConfigFile_def]] by (simp add: newConfigFile_def)

lemma LoadFromReader_files: "LoadFromReader goos content = Inr c \<Longrightarrow> wf_config c \<and> fileNames c = [[]]"
  using read_files [of goos content "newConfigFile [[]]" c] wf_read [of goos content "newConfigFile [[]]" c]
  by (simp add: LoadFromReader_def newConfigFile_def) (simp add: newConfigFile_def [symmetric])

lemma config_reach_wf: "config_reach goos c \<Longrightarrow> wf_config c \<and> fileNames c \<noteq> []"
proof (induction rule: config_reach.induct)
  case (load fs name names c)
  then show ?case using wf_LoadConfigFile [OF load] LoadConfigFile_files [OF load] by simp
next
  case (load_reader content c)
  then show ?case using LoadFromReader_files by simp
next
  case (load_data mkdir wr tmpName content fs c fs')
  then have r: "read goos content (newConfigFile [tmpName]) = Inr c"
    by (auto simp: LoadFromData_def split: option.splits)
  show ?case using wf_read [OF r] read_files [OF r] by (simp add: newConfigFile_def [symmetric]) (simp add: newConfigFile_def)
next
  case (delete_key c s k b c')
  then obtain c1 where "DeleteKey s k c = Returns (b, c1)" "wf_config c1" using wf_DeleteKey [of c s k] by auto
  moreover have "fileNames c' = fileNames c"
    using delete_key(2) by (auto simp: DeleteKey_def Let_def split: option.splits if_splits)
  ultimately show ?case using delete_key by simp
next
  case (delete_section c s b c')
  then obtain c1 where "DeleteSection s c = Returns (b, c1)" "wf_config c1" using wf_DeleteSection [of c s] by auto
  moreover have "fileNames c' = fileNames c"
    using delete_section(2) by (auto simp: DeleteSection_def Let_def split: option.splits if_splits)
  ultimately show ?case using delete_section by simp
next
  case (get_section c s)
  then show ?case using wf_GetSection by (auto simp: GetSection_def Let_def split: option.splits)
next
  case (must_set c n s k ds r c')
  then show ?case by (auto simp: MustValueSet_def wf_SetValue split: if_splits)
next
  case (reload c fs err c')
  then show ?case
    using wf_Reload [OF reload(2)] LoadConfigFile_files
    by (fastforce simp: Reload_def take_over_def split: list.splits if_splits sum.splits)
next
  case (reload_data c content)
  then show ?case
    using LoadFromReader_files [of goos content] wf_ReloadData [of c goos content]
    by (auto simp: ReloadData_def take_over_def split: sum.splits)
next
  case (append_files c fs names err c')
  then show ?case
    using wf_AppendFiles [OF append_files(2)] LoadConfigFile_files
    by (fastforce simp: AppendFiles_def Reload_def take_over_def split: list.splits if_splits sum.splits)
qed (simp_all add: wf_SetValue wf_comments)

section \<open>Properties\<close>

text \<open>
  C33. The representation of a configuration stays consistent: whatever is loaded, set, deleted, reloaded
  and looked up in whatever order, no operation runs out of the bounds of its lists, the section list
  names exactly the sections, each once, and the key list of a section names exactly the keys that
  have a value there, each once.
\<close>

theorem config_consistent:
  assumes "config_reach goos c"
  shows "DeleteKey s k c \<noteq> Panics \<and> DeleteSection s c \<noteq> Panics \<and> Reload fs goos c \<noteq> Panics \<and>
    distinct (GetSectionList c) \<and> set (GetSectionList c) = dom (data c) \<and>
    distinct (GetKeyList c s) \<and> set (GetKeyList c s) = {k. config_look c s k \<noteq> None}"
proof -
  have wf: "wf_config c" "fileNames c \<noteq> []" using config_reach_wf [OF assms] by simp_all
  then have "Reload fs goos c \<noteq> Panics" by (auto simp: Reload_def split: list.splits)
  moreover have "distinct (GetSectionList c)" "set (GetSectionList c) = dom (data c)"
    using wf(1) by (simp_all add: GetSectionList_def wf_config_def)
  ultimately show ?thesis
    using wf_DeleteKey [OF wf(1), of s k] wf_DeleteSection [OF wf(1), of s] config.keys_look [OF wf(1), of s]
    by auto
qed

definition demo_config :: ConfigFile where
  "demo_config = snd (SetValue ''tcp'' ''bind'' ''0.0.0.0'' (newConfigFile [[]]))"

lemma demo_config_reach: "config_reach ''linux'' demo_config"
proof -
  have "skip_BOM [] = []" "strings_TrimSpace [] = []"
    by (simp_all add: skip_BOM_def strings_TrimSpace_plain)
  then have "LoadFromReader ''linux'' [] = Inr (newConfigFile [[]])"
    by (simp add: LoadFromReader_def read_def read_line_def)
  then show ?thesis unfolding demo_config_def by (intro set_value load_reader)
qed

theorem config_consistent_witness:
  "set (GetKeyList demo_config ''tcp'') = {k. config_look demo_config ''tcp'' k \<noteq> None} \<and>
   DeleteKey ''tcp'' ''bind'' demo_config \<noteq> Panics"
  using config_consistent [OF demo_config_reach, of "''tcp''" "''bind''"] by blast

text \<open>
  Deleting a key undoes setting it: for a key that had no value, \<open>SetValue\<close> followed by \<open>DeleteKey\<close>
  answers true and leaves every lookup and every key list as they were; for a key that had one,
  \<open>SetValue\<close> changes this lookup only and no key list.
\<close>

lemma DeleteKey_undoes_SetValue:
  assumes "config_reach goos c" and "client_key k"
  shows "(config_look c s k = None \<longrightarrow>
      (\<exists>c'. DeleteKey s k (snd (SetValue s k v c)) = Returns (True, c') \<and>
         config_look c' = config_look c \<and> GetKeyList c' = GetKeyList c)) \<and>
    (config_look c s k \<noteq> None \<longrightarrow>
      config_look (snd (SetValue s k v c)) s k = Some v \<and> GetKeyList (snd (SetValue s k v c)) = GetKeyList c)"
proof -
  let ?c = "snd (SetValue s k v c)"
  have wf: "wf_config c" using config_reach_wf [OF assms(1)] by simp
  have "\<exists>c'. DeleteKey s k ?c = Returns (True, c') \<and> config_look c' = config_look c \<and> GetKeyList c' = GetKeyList c"
    if n: "config_look c s k = None"
  proof -
    have "lookup_key ?c (section_name s) k = Some v"
      using config.look_put [OF wf assms(2), of s v s k] assms(2) by (simp add: config_look_def client_key_def)
    then obtain m where m: "data ?c (section_name s) = Some m" "m k \<noteq> None"
      by (auto simp: lookup_key_def bind_eq_Some_conv)
    obtain c' where c': "DeleteKey s k ?c = Returns (True, c')"
      by (rule DeleteKey_found [OF wf_SetValue [OF wf] m])
    then have "config_del s k ?c = c'" by (simp add: config_del_def)
    with c' config.del_put [OF wf assms(2) n, of v] show ?thesis by auto
  qed
  moreover have "config_look ?c s k = Some v" using config.look_put [OF wf assms(2)] by simp
  moreover have "GetKeyList ?c = GetKeyList c" if "config_look c s k \<noteq> None"
    using config.keys_put [OF wf assms(2), of s v] that by (simp add: fun_eq_iff)
  ultimately show ?thesis by blast
qed

text \<open>
  Deleting a section leaves the comments of its keys behind, and they are back when the section is
  set again.
\<close>

lemma DeleteSection_keeps_comments:
  assumes "wf_config c" and "data c (section_name s) \<noteq> None"
  shows "\<exists>c'. DeleteSection s c = Returns (True, c') \<and> data c' (section_name s) = None \<and>
    GetKeyComments (snd (SetValue s k v c')) s k = GetKeyComments c s k"
proof -
  obtain c' where "DeleteSection s c = Returns (True, c')" "data c' = (data c)(section_name s := None)"
    "keyComments c' = keyComments c"
    by (rule DeleteSection_found [OF assms])
  moreover have "keyComments (snd (SetValue s k v c')) = keyComments c'" by (simp add: SetValue_def Let_def)
  ultimately show ?thesis by (simp add: GetKeyComments_def)
qed

text \<open>A file that cannot be loaded stays in the list when \<open>AppendFiles\<close> fails, so that every later
  \<open>Reload\<close> fails as well.\<close>

lemma load_all_missing:
  "fs name = Inl err \<Longrightarrow> name \<in> set names \<Longrightarrow> \<exists>err'. load_all fs goos names c = Inl err'"
  by (induction names arbitrary: c) (auto simp: loadFile_def split: sum.splits)

lemma AppendFiles_stuck:
  assumes "fileNames c = [fn]" and "fn \<noteq> []" and "fs name = Inl err"
  shows "\<exists>e1 e2 c'. AppendFiles fs goos [name] c = Returns (Some e1, c') \<and> c' = c\<lparr>fileNames := [fn, name]\<rparr> \<and>
    Reload fs goos c' = Returns (Some e2, c')"
proof -
  obtain e where "LoadConfigFile fs goos fn [name] = Inl e"
    using load_all_missing [where fs = fs and name = name and names = "[fn, name]", OF assms(3)]
    unfolding LoadConfigFile_def by auto
  with assms(1,2) show ?thesis by (simp add: AppendFiles_def Reload_def take_over_def)
qed

text \<open>A value with a back quote but no double quote is written in double quotes, which the reader does
  not take off again.\<close>

lemma backquote_value_changes:
  "write_value (''a'' @ backquote) = quote1 @ ''a'' @ backquote @ quote1 \<and>
   read_value (write_value (''a'' @ backquote)) = Some (quote1 @ ''a'' @ backquote @ quote1)"
  by (simp add: write_value_def read_value_def quote1_def quote3_def backquote_def Let_def
      strings_TrimSpace_plain plain_char_def)

text \<open>The copy \<open>LoadFromData\<close> keeps is what \<open>Reload\<close> reads.\<close>

lemma LoadFromData_Reload:
  assumes "LoadFromData mkdir wr goos tmpName content fs = (Inr c, fs')" and "tmpName \<noteq> []"
  shows "Reload fs' goos c = Returns (None, c)"
proof -
  have r: "read goos content (newConfigFile [tmpName]) = Inr c" "fs' tmpName = Inr content"
    using assms(1) by (auto simp: LoadFromData_def split: option.splits)
  then have "fileNames c = [tmpName]" using read_files [OF r(1)] by (simp add: newConfigFile_def)
  with r assms(2) show ?thesis by (simp add: Reload_def take_over_def LoadConfigFile_def loadFile_def)
qed

end
