(* ===== verification/Mysql_Format.thy ===== *)
theory Mysql_Format
  imports Mysql_Dsn "HOL-Library.List_Lexorder" "HOL-Library.Char_ord"
begin

text \<open>
  The other direction of the data source names
  (\<open>src/vender/src/github.com/go-sql-driver/mysql/dsn.go\<close>): \<open>FormatDSN\<close>, the text it makes of a
  configuration, and that \<open>ParseDSN\<close> reads the same configuration from that text.
\<close>

section \<open>Escaping\<close>

text \<open>\<open>url.QueryEscape\<close>: letters, digits and four marks stay, a blank becomes a plus, every other byte
  is written in upper case hexadecimal.\<close>

definition unreserved :: "char \<Rightarrow> bool" where
  "unreserved c =
     (let n = of_char c :: nat
      in 97 \<le> n \<and> n \<le> 122 \<or> 65 \<le> n \<and> n \<le> 90 \<or> 48 \<le> n \<and> n \<le> 57 \<or>
         c = CHR ''-'' \<or> c = CHR ''_'' \<or> c = CHR ''.'' \<or> c = CHR ''~'')"

definition upper_hex :: "nat \<Rightarrow> char" where
  "upper_hex d = char_of (if d < 10 then 48 + d else 55 + d)"

definition escape_char :: "char \<Rightarrow> string" where
  "escape_char c =
     (if unreserved c then [c]
      else if c = CHR '' '' then ''+''
      else [CHR ''%'', upper_hex (of_char c div 16), upper_hex (of_char c mod 16)])"

definition QueryEscape :: "string \<Rightarrow> string" where
  "QueryEscape s = concat (map escape_char s)"

section \<open>FormatDSN\<close>

text \<open>The state of the writer: whether a parameter has been written, and the text so far.\<close>

definition add_param :: "bool \<Rightarrow> string \<Rightarrow> bool \<times> string \<Rightarrow> bool \<times> string" where
  "add_param b p st =
     (case st of
        (hasParam, buf) \<Rightarrow>
          if b then (True, buf @ (if hasParam then ''&'' else ''?'') @ p) else (hasParam, buf))"

definition format_left :: "dsn_Config \<Rightarrow> string" where
  "format_left cfg =
     (if length (User cfg) > 0
      then User cfg @ (if length (Passwd cfg) > 0 then '':'' @ Passwd cfg else []) @ ''@'' else [])
     @ (if length (Net cfg) > 0
        then Net cfg @ (if length (Addr cfg) > 0 then ''('' @ Addr cfg @ '')'' else []) else [])"

definition defaultCollation :: string where
  "defaultCollation = ''utf8mb4_general_ci''"

definition defaultMaxAllowedPacket :: int where
  "defaultMaxAllowedPacket = 4194304"

definition format_options :: "dsn_env \<Rightarrow> dsn_Config \<Rightarrow> bool \<times> string \<Rightarrow> bool \<times> string" where
  "format_options env cfg st0 =
     (let st1 = add_param (AllowAllFiles cfg) ''allowAllFiles=true'' st0;
          st2 = add_param (AllowCleartextPasswords cfg) ''allowCleartextPasswords=true'' st1;
          st3 = add_param (\<not> AllowNativePasswords cfg) ''allowNativePasswords=false'' st2;
          st4 = add_param (AllowOldPasswords cfg) ''allowOldPasswords=true'' st3;
          st5 = add_param (ClientFoundRows cfg) ''clientFoundRows=true'' st4;
          st6 = add_param (Collation cfg \<noteq> defaultCollation \<and> length (Collation cfg) > 0)
                  (''collation='' @ Collation cfg) st5;
          st7 = add_param (ColumnsWithAlias cfg) ''columnsWithAlias=true'' st6;
          st8 = add_param (InterpolateParams cfg) ''interpolateParams=true'' st7;
          st9 = add_param (Loc cfg \<noteq> ''UTC'') (''loc='' @ QueryEscape (Loc cfg)) st8;
          st10 = add_param (MultiStatements cfg) ''multiStatements=true'' st9;
          st11 = add_param (ParseTime cfg) ''parseTime=true'' st10;
          st12 = add_param (ReadTimeout cfg > 0) (''readTimeout='' @ DurationString env (ReadTimeout cfg)) st11;
          st13 = add_param (RejectReadOnly cfg) ''rejectReadOnly=true'' st12;
          st14 = add_param (length (ServerPubKey cfg) > 0) (''serverPubKey='' @ QueryEscape (ServerPubKey cfg)) st13;
          st15 = add_param (Timeout cfg > 0) (''timeout='' @ DurationString env (Timeout cfg)) st14;
          st16 = add_param (length (TLSConfig cfg) > 0) (''tls='' @ QueryEscape (TLSConfig cfg)) st15;
          st17 = add_param (WriteTimeout cfg > 0) (''writeTimeout='' @ DurationString env (WriteTimeout cfg)) st16
      in add_param (MaxAllowedPacket cfg \<noteq> defaultMaxAllowedPacket)
           (''maxAllowedPacket='' @ Itoa (MaxAllowedPacket cfg)) st17)"

text \<open>The other parameters, sorted; \<open>ks\<close> is the order in which Go ranges over their map.\<close>

fun format_params :: "string list \<Rightarrow> dsn_Config \<Rightarrow> bool \<times> string \<Rightarrow> bool \<times> string" where
  "format_params [] cfg st = st"
| "format_params (p # ps) cfg st =
     format_params ps cfg
       (add_param True (p @ ''='' @ QueryEscape (case Params cfg p of None \<Rightarrow> [] | Some v \<Rightarrow> v)) st)"

definition FormatDSN :: "dsn_env \<Rightarrow> string list \<Rightarrow> dsn_Config \<Rightarrow> string" where
  "FormatDSN env ks cfg =
     snd (format_params (sort ks) cfg
       (format_options env cfg (False, format_left cfg @ ''/'' @ DBName cfg)))"

section \<open>Escaping is undone by unescaping\<close>

lemma hex_digit_upper: "d < 16 \<Longrightarrow> hex_digit (upper_hex d) = Some d"
  by (auto simp: upper_hex_def of_char_of)

lemma upper_hex_chars: "d < 16 \<Longrightarrow> unreserved (upper_hex d)"
  by (auto simp: upper_hex_def unreserved_def of_char_of Let_def)

lemma of_char_nibbles: "(of_char c :: nat) div 16 < 16" "(of_char c :: nat) mod 16 < 16"
  using range_nat_of_char by (auto simp: less_mult_imp_div_less)

lemma char_hex: "char_of (16 * (of_char c div 16) + of_char c mod 16 :: nat) = c"
  by simp

lemma QueryUnescape_escape_char: "QueryUnescape (escape_char c @ s) = map_option (Cons c) (QueryUnescape s)"
proof -
  note d = of_char_nibbles [of c]
  have u: "c \<noteq> CHR ''%''" "c \<noteq> CHR ''+''" if "unreserved c"
    using that by (auto simp: unreserved_def)
  show ?thesis
    using u hex_digit_upper [OF d(1)] hex_digit_upper [OF d(2)]
    by (simp add: escape_char_def del: hex_digit.simps)
qed

lemma QueryUnescape_QueryEscape [simp]: "QueryUnescape (QueryEscape s) = Some s"
  by (induction s) (simp_all add: QueryEscape_def QueryUnescape_escape_char)

lemma QueryEscape_chars: "c \<in> set (QueryEscape s) \<Longrightarrow> unreserved c \<or> c = CHR ''+'' \<or> c = CHR ''%''"
proof -
  have "unreserved x \<or> x = CHR ''+'' \<or> x = CHR ''%''" if "x \<in> set (escape_char d)" for x d
    using that upper_hex_chars [OF of_char_nibbles(1)] upper_hex_chars [OF of_char_nibbles(2)]
    by (auto simp: escape_char_def split: if_splits)
  then show "c \<in> set (QueryEscape s) \<Longrightarrow> unreserved c \<or> c = CHR ''+'' \<or> c = CHR ''%''"
    by (auto simp: QueryEscape_def)
qed

text \<open>The signs that end a parameter or the left part of the text.\<close>

definition no_sep :: "string \<Rightarrow> bool" where
  "no_sep s \<longleftrightarrow> CHR ''&'' \<notin> set s \<and> CHR ''/'' \<notin> set s"

lemma no_sep_QueryEscape [simp]: "no_sep (QueryEscape s)"
  using QueryEscape_chars [of "CHR ''&''" s] QueryEscape_chars [of "CHR ''/''" s]
  by (auto simp: no_sep_def unreserved_def)

lemma no_sep_digits: "no_sep (nat_text n)"
proof (induction n rule: nat_text.induct)
  case (1 n)
  have d: "digit_char k \<noteq> CHR ''&'' \<and> digit_char k \<noteq> CHR ''/''" if "k < 10" for k
    using digit_val_digit_char [OF that] by (auto simp: digit_val_def)
  from 1 d [of n] d [of "n mod 10"] show ?case
    by (cases "n < 10") (auto simp: nat_text.simps [of n] no_sep_def)
qed

lemma no_sep_Itoa [simp]: "no_sep (Itoa i)"
  using no_sep_digits by (auto simp: Itoa_def no_sep_def)

section \<open>The text as a list of parameters\<close>

text \<open>What has been written once the parameters \<open>ps\<close> have been added to the text \<open>base\<close>.\<close>

definition written :: "string \<Rightarrow> string list \<Rightarrow> bool \<times> string" where
  "written base ps = (ps \<noteq> [], base @ (if ps = [] then [] else CHR ''?'' # strings_Join ps CHR ''&''))"

definition opt :: "bool \<Rightarrow> string \<Rightarrow> string list" where
  "opt b p = (if b then [p] else [])"

lemma strings_Join_snoc: "ps \<noteq> [] \<Longrightarrow> strings_Join (ps @ [p]) sep = strings_Join ps sep @ sep # p"
  by (induction ps sep rule: strings_Join.induct) simp_all

lemma add_param_written: "add_param b p (written base ps) = written base (ps @ opt b p)"
  by (simp add: add_param_def written_def opt_def strings_Join_snoc)

definition option_texts :: "dsn_env \<Rightarrow> dsn_Config \<Rightarrow> string list" where
  "option_texts env cfg =
     opt (AllowAllFiles cfg) ''allowAllFiles=true''
     @ opt (AllowCleartextPasswords cfg) ''allowCleartextPasswords=true''
     @ opt (\<not> AllowNativePasswords cfg) ''allowNativePasswords=false''
     @ opt (AllowOldPasswords cfg) ''allowOldPasswords=true''
     @ opt (ClientFoundRows cfg) ''clientFoundRows=true''
     @ opt (Collation cfg \<noteq> defaultCollation \<and> length (Collation cfg) > 0) (''collation='' @ Collation cfg)
     @ opt (ColumnsWithAlias cfg) ''columnsWithAlias=true''
     @ opt (InterpolateParams cfg) ''interpolateParams=true''
     @ opt (Loc cfg \<noteq> ''UTC'') (''loc='' @ QueryEscape (Loc cfg))
     @ opt (MultiStatements cfg) ''multiStatements=true''
     @ opt (ParseTime cfg) ''parseTime=true''
     @ opt (ReadTimeout cfg > 0) (''readTimeout='' @ DurationString env (ReadTimeout cfg))
     @ opt (RejectReadOnly cfg) ''rejectReadOnly=true''
     @ opt (length (ServerPubKey cfg) > 0) (''serverPubKey='' @ QueryEscape (ServerPubKey cfg))
     @ opt (Timeout cfg > 0) (''timeout='' @ DurationString env (Timeout cfg))
     @ opt (length (TLSConfig cfg) > 0) (''tls='' @ QueryEscape (TLSConfig cfg))
     @ opt (WriteTimeout cfg > 0) (''writeTimeout='' @ DurationString env (WriteTimeout cfg))
     @ opt (MaxAllowedPacket cfg \<noteq> defaultMaxAllowedPacket) (''maxAllowedPacket='' @ Itoa (MaxAllowedPacket cfg))"

definition param_text :: "dsn_Config \<Rightarrow> string \<Rightarrow> string" where
  "param_text cfg p = p @ ''='' @ QueryEscape (case Params cfg p of None \<Rightarrow> [] | Some v \<Rightarrow> v)"

lemma format_options_written:
  "format_options env cfg (written base []) = written base (option_texts env cfg)"
  by (simp only: format_options_def Let_def add_param_written option_texts_def append_assoc append_Nil)

lemma format_params_written:
  "format_params ks cfg (written base ps) = written base (ps @ map (param_text cfg) ks)"
  by (induction ks arbitrary: ps)
    (simp_all add: param_text_def add_param_written opt_def)

lemma FormatDSN_written:
  "FormatDSN env ks cfg =
     snd (written (format_left cfg @ ''/'' @ DBName cfg) (option_texts env cfg @ map (param_text cfg) (sort ks)))"
proof -
  have "(False, base) = written base []" for base by (simp add: written_def)
  then show ?thesis
    by (simp only: FormatDSN_def format_options_written format_params_written)
qed

section \<open>Reading the parameters back\<close>

text \<open>Reading a list of parameters turns one configuration into another.\<close>

definition reads :: "dsn_env \<Rightarrow> string list \<Rightarrow> dsn_Config \<Rightarrow> dsn_Config \<Rightarrow> bool" where
  "reads env ps c c' \<longleftrightarrow> parse_params env ps c = Returns (Inr c')"

lemma reads_append: "reads env ps c c1 \<Longrightarrow> reads env qs c1 c2 \<Longrightarrow> reads env (ps @ qs) c c2"
  by (induction ps arbitrary: c) (auto simp: reads_def split: option.splits run.splits sum.splits)

lemma reads_Nil [simp]: "reads env [] c c"
  by (simp add: reads_def)

lemma reads_one:
  "CHR ''='' \<notin> set k \<Longrightarrow> set_param env k v c = Returns (Inr c') \<Longrightarrow> reads env [k @ CHR ''='' # v] c c'"
  by (simp add: reads_def first_at_append)

lemma reads_flags:
  "\<not> AllowAllFiles c \<Longrightarrow> reads env (opt b ''allowAllFiles=true'') c (c\<lparr>AllowAllFiles := b\<rparr>)"
  "\<not> AllowCleartextPasswords c \<Longrightarrow>
     reads env (opt b ''allowCleartextPasswords=true'') c (c\<lparr>AllowCleartextPasswords := b\<rparr>)"
  "AllowNativePasswords c \<Longrightarrow>
     reads env (opt (\<not> b) ''allowNativePasswords=false'') c (c\<lparr>AllowNativePasswords := b\<rparr>)"
  "\<not> AllowOldPasswords c \<Longrightarrow> reads env (opt b ''allowOldPasswords=true'') c (c\<lparr>AllowOldPasswords := b\<rparr>)"
  "\<not> ClientFoundRows c \<Longrightarrow> reads env (opt b ''clientFoundRows=true'') c (c\<lparr>ClientFoundRows := b\<rparr>)"
  "\<not> ColumnsWithAlias c \<Longrightarrow> reads env (opt b ''columnsWithAlias=true'') c (c\<lparr>ColumnsWithAlias := b\<rparr>)"
  "\<not> InterpolateParams c \<Longrightarrow> reads env (opt b ''interpolateParams=true'') c (c\<lparr>InterpolateParams := b\<rparr>)"
  "\<not> MultiStatements c \<Longrightarrow> reads env (opt b ''multiStatements=true'') c (c\<lparr>MultiStatements := b\<rparr>)"
  "\<not> ParseTime c \<Longrightarrow> reads env (opt b ''parseTime=true'') c (c\<lparr>ParseTime := b\<rparr>)"
  "\<not> RejectReadOnly c \<Longrightarrow> reads env (opt b ''rejectReadOnly=true'') c (c\<lparr>RejectReadOnly := b\<rparr>)"
  by (cases c; simp add: opt_def reads_def set_param_def bool_param_def readBool_def)+

text \<open>The options with a text of their own.\<close>

definition duration_ok :: "dsn_env \<Rightarrow> int \<Rightarrow> bool" where
  "duration_ok env d \<longleftrightarrow>
     d = 0 \<or> d > 0 \<and> ParseDuration env (DurationString env d) = Some d \<and> no_sep (DurationString env d)"

lemma reads_durations:
  "ReadTimeout c = 0 \<Longrightarrow> duration_ok env d \<Longrightarrow>
     reads env (opt (d > 0) (''readTimeout='' @ DurationString env d)) c (c\<lparr>ReadTimeout := d\<rparr>)"
  "Timeout c = 0 \<Longrightarrow> duration_ok env d \<Longrightarrow>
     reads env (opt (d > 0) (''timeout='' @ DurationString env d)) c (c\<lparr>Timeout := d\<rparr>)"
  "WriteTimeout c = 0 \<Longrightarrow> duration_ok env d \<Longrightarrow>
     reads env (opt (d > 0) (''writeTimeout='' @ DurationString env d)) c (c\<lparr>WriteTimeout := d\<rparr>)"
  by (cases c; auto simp: duration_ok_def opt_def reads_def set_param_def duration_param_def)+

lemma reads_collation:
  "Collation c = defaultCollation \<Longrightarrow> x \<noteq> [] \<Longrightarrow>
     reads env (opt (x \<noteq> defaultCollation \<and> length x > 0) (''collation='' @ x)) c (c\<lparr>Collation := x\<rparr>)"
  by (cases c; auto simp: opt_def reads_def set_param_def)

lemma reads_loc:
  "Loc c = ''UTC'' \<Longrightarrow> x = ''UTC'' \<or> x \<noteq> [] \<and> LoadLocation env x \<Longrightarrow>
     reads env (opt (x \<noteq> ''UTC'') (''loc='' @ QueryEscape x)) c (c\<lparr>Loc := x\<rparr>)"
  by (cases c; auto simp: opt_def reads_def set_param_def)

lemma reads_serverPubKey:
  "ServerPubKey c = [] \<Longrightarrow> x = [] \<or> x \<in> serverPubKeyRegistry env \<Longrightarrow>
     reads env (opt (length x > 0) (''serverPubKey='' @ QueryEscape x)) c (c\<lparr>ServerPubKey := x\<rparr>)"
  by (cases c; auto simp: opt_def reads_def set_param_def)

lemma reads_maxAllowedPacket:
  "MaxAllowedPacket c = defaultMaxAllowedPacket \<Longrightarrow> - (2 ^ 63) \<le> x \<Longrightarrow> x < 2 ^ 63 \<Longrightarrow>
     reads env (opt (x \<noteq> defaultMaxAllowedPacket) (''maxAllowedPacket='' @ Itoa x)) c (c\<lparr>MaxAllowedPacket := x\<rparr>)"
  using Atoi_Itoa [of x] by (cases c; auto simp: opt_def reads_def set_param_def)

text \<open>The name of a TLS configuration and what the parser takes it for.\<close>

definition tls_of :: "dsn_env \<Rightarrow> string \<Rightarrow> tls_Config option option" where
  "tls_of env name =
     (if name = [] \<or> name = ''false'' then Some None
      else if name = ''true'' then Some (Some \<lparr>ServerName = [], InsecureSkipVerify = False\<rparr>)
      else if name = ''skip-verify'' \<or> name = ''preferred'' then
        Some (Some \<lparr>ServerName = [], InsecureSkipVerify = True\<rparr>)
      else if readBool name \<noteq> None \<or> ToLower name \<in> {''skip-verify'', ''preferred''} then None
      else map_option Some (tlsConfigRegistry env name))"

lemma escape_char_plain: "CHR ''%'' \<notin> set (escape_char c) \<Longrightarrow> CHR ''+'' \<notin> set (escape_char c) \<Longrightarrow> escape_char c = [c]"
  by (auto simp: escape_char_def split: if_splits)

lemma QueryEscape_simps [simp]: "QueryEscape [] = []" "QueryEscape (c # s) = escape_char c @ QueryEscape s"
  by (simp_all add: QueryEscape_def)

lemma QueryEscape_plain:
  "CHR ''%'' \<notin> set (QueryEscape s) \<Longrightarrow> CHR ''+'' \<notin> set (QueryEscape s) \<Longrightarrow> QueryEscape s = s"
proof (induction s)
  case (Cons c s)
  then have "QueryEscape s = s" by simp
  moreover have "escape_char c = [c]" using Cons.prems by (intro escape_char_plain) simp_all
  ultimately show ?case by simp
qed simp

lemma ToLower_ascii: "\<forall>c \<in> set s. (of_char c :: nat) < 128 \<Longrightarrow> ToLower s = map lower s"
proof (induction s rule: ToLower.induct)
  case (1 a b c s)
  then have "a \<noteq> CHR 0xC4" "a \<noteq> CHR 0xE2" by auto
  with 1 show ?case by simp
next
  case (2 a b)
  then have "a \<noteq> CHR 0xC4" by auto
  then show ?case by simp
qed simp_all

lemma lower_marks: "lower CHR ''%'' = CHR ''%''" "lower CHR ''+'' = CHR ''+''"
  by (simp_all add: lower_def)

lemma QueryEscape_ascii: "c \<in> set (QueryEscape s) \<Longrightarrow> (of_char c :: nat) < 128"
  using QueryEscape_chars [of c s] by (auto simp: unreserved_def Let_def)

lemma ToLower_QueryEscape:
  assumes "ToLower (QueryEscape s) = t" and "CHR ''%'' \<notin> set t" "CHR ''+'' \<notin> set t"
  shows "QueryEscape s = s"
proof (rule QueryEscape_plain)
  have t: "t = map lower (QueryEscape s)"
    using assms(1) ToLower_ascii [of "QueryEscape s"] QueryEscape_ascii by simp
  have m: "lower c \<in> set t" if "c \<in> set (QueryEscape s)" for c
    using that by (simp add: t)
  show "CHR ''%'' \<notin> set (QueryEscape s)" "CHR ''+'' \<notin> set (QueryEscape s)"
    using m [of "CHR ''%''"] m [of "CHR ''+''"] assms(2,3) unfolding lower_marks by blast+
qed

lemma readBool_texts:
  assumes "readBool t = Some b"
  shows "QueryEscape t = t" and "CHR ''%'' \<notin> set t" and "CHR ''+'' \<notin> set t"
proof -
  have "t \<in> {''1'', ''true'', ''TRUE'', ''True''} \<or> t \<in> {''0'', ''false'', ''FALSE'', ''False''}"
    using assms by (rule contrapos_pp) (simp only: readBool_def de_Morgan_disj if_False option.distinct not_False_eq_True)
  then show "QueryEscape t = t" "CHR ''%'' \<notin> set t" "CHR ''+'' \<notin> set t"
    by (elim disjE insertE emptyE; simp add: escape_char_def unreserved_def)+
qed

lemma readBool_QueryEscape: "readBool (QueryEscape s) = readBool s"
proof (cases "readBool (QueryEscape s)")
  case (Some b)
  have "QueryEscape s = s" using readBool_texts(2,3) [OF Some] by (rule QueryEscape_plain)
  then show ?thesis by (simp only:)
next
  case None
  then show ?thesis using readBool_texts(1) by (cases "readBool s") fastforce+
qed

lemma tls_param_escaped:
  assumes "tls_of env x = Some t" and "x \<noteq> []" and "dsn_tls c = None"
  shows "tls_param env (QueryEscape x) c = Inr (c\<lparr>TLSConfig := x, dsn_tls := t\<rparr>)"
proof (cases "x \<in> {''true'', ''false'', ''skip-verify'', ''preferred''}")
  case True
  with assms show ?thesis
    by (elim insertE emptyE; cases c; simp add: tls_of_def tls_param_def escape_char_def unreserved_def readBool_def
        lower_def Let_def)
next
  case False
  with assms have n: "readBool x = None" "ToLower x \<notin> {''skip-verify'', ''preferred''}"
      "map_option Some (tlsConfigRegistry env x) = Some t"
    by (auto simp: tls_of_def split: if_splits)
  have "ToLower (QueryEscape x) \<noteq> ''skip-verify''" "ToLower (QueryEscape x) \<noteq> ''preferred''"
    using ToLower_QueryEscape [of x, OF refl] n(2) by (auto simp del: ToLower.simps)
  with n show ?thesis by (auto simp: tls_param_def readBool_QueryEscape Let_def simp del: ToLower.simps)
qed

lemma reads_tls:
  "TLSConfig c = [] \<Longrightarrow> dsn_tls c = None \<Longrightarrow> tls_of env x = Some t \<Longrightarrow>
     reads env (opt (length x > 0) (''tls='' @ QueryEscape x)) c (c\<lparr>TLSConfig := x, dsn_tls := t\<rparr>)"
  using tls_param_escaped [of env x t c]
  by (cases c; cases "x = []") (simp_all add: opt_def reads_def set_param_def tls_of_def)

lemmas reads_opts = reads_flags reads_durations reads_collation reads_loc reads_serverPubKey
  reads_maxAllowedPacket reads_tls

text \<open>The parameters the driver passes on to the server.\<close>

definition known_params :: "string list" where
  "known_params =
     [''allowAllFiles'', ''allowCleartextPasswords'', ''allowNativePasswords'', ''allowOldPasswords'',
      ''clientFoundRows'', ''collation'', ''columnsWithAlias'', ''compress'', ''interpolateParams'', ''loc'',
      ''multiStatements'', ''parseTime'', ''readTimeout'', ''rejectReadOnly'', ''serverPubKey'', ''strict'',
      ''timeout'', ''tls'', ''writeTimeout'', ''maxAllowedPacket'']"

definition key_ok :: "string \<Rightarrow> bool" where
  "key_ok k \<longleftrightarrow> CHR ''='' \<notin> set k \<and> no_sep k \<and> k \<notin> set known_params"

lemma set_param_other:
  "k \<notin> set known_params \<Longrightarrow>
     set_param env k (QueryEscape v) c = Returns (Inr (c\<lparr>Params := (Params c)(k \<mapsto> v)\<rparr>))"
  by (simp add: set_param_def known_params_def)

lemma reads_param:
  "key_ok k \<Longrightarrow> Params cfg k = Some v \<Longrightarrow> reads env [param_text cfg k] c (c\<lparr>Params := (Params c)(k \<mapsto> v)\<rparr>)"
  using reads_one [of k env "QueryEscape v" c] by (simp add: key_ok_def param_text_def set_param_other)

lemma reads_params:
  "list_all key_ok ks \<Longrightarrow> set ks \<subseteq> dom (Params cfg) \<Longrightarrow>
     reads env (map (param_text cfg) ks) c (c\<lparr>Params := Params c ++ (Params cfg |` set ks)\<rparr>)"
proof (induction ks arbitrary: c)
  case (Cons k ks)
  then obtain v where v: "Params cfg k = Some v" by auto
  define c1 where "c1 = c\<lparr>Params := (Params c)(k \<mapsto> v)\<rparr>"
  have "Params c1 ++ (Params cfg |` set ks) = Params c ++ (Params cfg |` set (k # ks))"
    using v by (auto simp: c1_def map_add_def restrict_map_def split: option.splits)
  then have "c1\<lparr>Params := Params c1 ++ (Params cfg |` set ks)\<rparr> = c\<lparr>Params := Params c ++ (Params cfg |` set (k # ks))\<rparr>"
    by (simp add: c1_def)
  moreover have "reads env [param_text cfg k] c c1"
    unfolding c1_def using Cons.prems v by (intro reads_param) simp_all
  moreover have "reads env (map (param_text cfg) ks) c1 (c1\<lparr>Params := Params c1 ++ (Params cfg |` set ks)\<rparr>)"
    using Cons.prems by (intro Cons.IH) simp_all
  ultimately show ?case using reads_append [of env "[param_text cfg k]"] by simp
qed simp

section \<open>Configurations that a text can carry\<close>

text \<open>
  \<open>ks\<close> lists the parameters.  A text carries neither a password without a user nor an empty collation
  nor a negative timeout, and nothing in it may be taken for one of its separators; the TLS
  configuration is the one the name stands for, completed as \<open>normalize\<close> does.
\<close>

definition left_ok :: "dsn_Config \<Rightarrow> bool" where
  "left_ok cfg \<longleftrightarrow>
     (User cfg = [] \<longrightarrow> Passwd cfg = []) \<and> CHR '':'' \<notin> set (User cfg) \<and>
     CHR ''('' \<notin> set (Net cfg) \<and> CHR ''@'' \<notin> set (Net cfg) \<and> CHR ''@'' \<notin> set (Addr cfg)"

definition options_ok :: "dsn_env \<Rightarrow> dsn_Config \<Rightarrow> bool" where
  "options_ok env cfg \<longleftrightarrow>
     Collation cfg \<noteq> [] \<and> no_sep (Collation cfg) \<and>
     (Loc cfg = ''UTC'' \<or> Loc cfg \<noteq> [] \<and> LoadLocation env (Loc cfg)) \<and>
     duration_ok env (Timeout cfg) \<and> duration_ok env (ReadTimeout cfg) \<and> duration_ok env (WriteTimeout cfg) \<and>
     (ServerPubKey cfg = [] \<or> ServerPubKey cfg \<in> serverPubKeyRegistry env) \<and>
     - (2 ^ 63) \<le> MaxAllowedPacket cfg \<and> MaxAllowedPacket cfg < 2 ^ 63"

definition formattable :: "dsn_env \<Rightarrow> string list \<Rightarrow> dsn_Config \<Rightarrow> bool" where
  "formattable env ks cfg \<longleftrightarrow>
     left_ok cfg \<and> CHR ''/'' \<notin> set (DBName cfg) \<and> CHR ''?'' \<notin> set (DBName cfg) \<and>
     options_ok env cfg \<and> list_all key_ok ks \<and>
     (case tls_of env (TLSConfig cfg) of
        None \<Rightarrow> False
      | Some t \<Rightarrow> dsn_normalize (cfg\<lparr>dsn_tls := t\<rparr>) = Inr cfg)"

lemma default_addr_nonempty:
  "default_addr d = Inr d' \<Longrightarrow> Net d \<noteq> [] \<Longrightarrow> Net d' \<noteq> [] \<and> Addr d' \<noteq> []"
  by (auto simp: default_addr_def ensureHavePort_def JoinHostPort_def split: if_splits)

lemma normalize_Net_Addr:
  assumes "dsn_normalize c = Inr cfg"
  shows "Net cfg \<noteq> []" and "Addr cfg \<noteq> []"
proof -
  from assms obtain c1 where c1: "default_addr (if Net c = [] then c\<lparr>Net := ''tcp''\<rparr> else c) = Inr c1"
    and e: "Net cfg = Net c1" "Addr cfg = Addr c1"
    by (auto simp: dsn_normalize_def split: if_splits option.splits sum.splits prod.splits)
  from default_addr_nonempty [OF c1] e show "Net cfg \<noteq> []" "Addr cfg \<noteq> []" by (auto split: if_splits)
qed

lemma parse_left_format_left:
  assumes "left_ok cfg" and "Net cfg \<noteq> []" and "Addr cfg \<noteq> []"
  shows "parse_left (format_left cfg) c = Inr (c\<lparr>User := if User cfg = [] then User c else User cfg,
    Passwd := if Passwd cfg = [] then Passwd c else Passwd cfg, Net := Net cfg, Addr := Addr cfg\<rparr>)"
proof -
  define n where "n = Net cfg @ CHR ''('' # Addr cfg @ '')''"
  have n: "parse_net n d = Inr (d\<lparr>Addr := Addr cfg, Net := Net cfg\<rparr>)" for d
    using first_at_append [of "CHR ''(''" "Net cfg" "Addr cfg @ '')''"] assms(1)
    by (simp add: parse_net_def n_def left_ok_def butlast_append)
  have at: "CHR ''@'' \<notin> set n" using assms(1) by (simp add: n_def left_ok_def)
  define u where "u = User cfg @ (if Passwd cfg = [] then [] else CHR '':'' # Passwd cfg)"
  have u: "parse_user u d = d\<lparr>User := User cfg, Passwd := if Passwd cfg = [] then Passwd d else Passwd cfg\<rparr>" for d
    using first_at_append [of "CHR '':''" "User cfg" "Passwd cfg"] first_at_None [of "CHR '':''" "User cfg"] assms(1)
    by (cases d) (simp add: parse_user_def u_def left_ok_def)
  show ?thesis
  proof (cases "User cfg = []")
    case True
    with assms have "format_left cfg = n" "Passwd cfg = []" by (simp_all add: format_left_def n_def left_ok_def)
    moreover have "last_at CHR ''@'' n = None" using at first_at_None [of "CHR ''@''" "rev n"] by (simp add: last_at_def)
    ultimately show ?thesis using True n by (cases c) (simp add: parse_left_def)
  next
    case False
    with assms have f: "format_left cfg = u @ CHR ''@'' # n" by (simp add: format_left_def u_def n_def)
    show ?thesis unfolding f using last_at_append [OF at, of u] n u False by (simp add: parse_left_def)
  qed
qed

lemma reads_options:
  assumes "options_ok env cfg" and "tls_of env (TLSConfig cfg) = Some t"
    and "c = NewConfig\<lparr>User := u, Passwd := pw, Net := n, Addr := a\<rparr>"
  shows "reads env (option_texts env cfg) c (cfg\<lparr>User := u, Passwd := pw, Net := n, Addr := a, DBName := [],
    Params := Map.empty, dsn_tls := t\<rparr>)"
proof -
  note o = assms(2) assms(1) [unfolded options_ok_def, simplified]
  have c: "c = \<lparr>User = u, Passwd = pw, Net = n, Addr = a, DBName = [], Params = Map.empty,
      Collation = defaultCollation, Loc = ''UTC'', MaxAllowedPacket = defaultMaxAllowedPacket, ServerPubKey = [],
      TLSConfig = [], dsn_tls = None, Timeout = 0, ReadTimeout = 0, WriteTimeout = 0, AllowAllFiles = False,
      AllowCleartextPasswords = False, AllowNativePasswords = True, AllowOldPasswords = False,
      ClientFoundRows = False, ColumnsWithAlias = False, InterpolateParams = False, MultiStatements = False,
      ParseTime = False, RejectReadOnly = False\<rparr>"
    by (simp add: assms(3) NewConfig_def defaultCollation_def defaultMaxAllowedPacket_def)
  have "reads env (option_texts env cfg) c (c\<lparr>AllowAllFiles := AllowAllFiles cfg,
      AllowCleartextPasswords := AllowCleartextPasswords cfg, AllowNativePasswords := AllowNativePasswords cfg,
      AllowOldPasswords := AllowOldPasswords cfg, ClientFoundRows := ClientFoundRows cfg, Collation := Collation cfg,
      ColumnsWithAlias := ColumnsWithAlias cfg, InterpolateParams := InterpolateParams cfg, Loc := Loc cfg,
      MultiStatements := MultiStatements cfg, ParseTime := ParseTime cfg, ReadTimeout := ReadTimeout cfg,
      RejectReadOnly := RejectReadOnly cfg, ServerPubKey := ServerPubKey cfg, Timeout := Timeout cfg,
      TLSConfig := TLSConfig cfg, dsn_tls := t, WriteTimeout := WriteTimeout cfg,
      MaxAllowedPacket := MaxAllowedPacket cfg\<rparr>)"
    unfolding option_texts_def c
    by ((rule reads_append, rule reads_opts, (simp add: o; fail)+)+, rule reads_opts, (simp add: o; fail)+)
  then show ?thesis by (cases cfg) (simp add: c)
qed

lemma list_all_opt: "list_all P (opt b p) \<longleftrightarrow> (b \<longrightarrow> P p)"
  by (simp add: opt_def)

lemma no_sep_append: "no_sep (s @ t) \<longleftrightarrow> no_sep s \<and> no_sep t"
  and no_sep_Cons: "no_sep (c # s) \<longleftrightarrow> c \<noteq> CHR ''&'' \<and> c \<noteq> CHR ''/'' \<and> no_sep s"
  and no_sep_Nil [simp]: "no_sep []"
  by (auto simp: no_sep_def)

lemma no_sep_option_texts:
  assumes "options_ok env cfg" and "p \<in> set (option_texts env cfg)"
  shows "no_sep p"
proof -
  have "list_all no_sep (option_texts env cfg)"
    using assms(1) by (auto simp: option_texts_def list_all_opt options_ok_def duration_ok_def no_sep_append no_sep_Cons)
  with assms(2) show ?thesis by (simp add: list_all_iff)
qed

lemma no_sep_param_text: "key_ok k \<Longrightarrow> no_sep (param_text cfg k)"
  using no_sep_QueryEscape by (simp add: key_ok_def param_text_def no_sep_def)

lemma no_slash_Join: "(\<And>p. p \<in> set ps \<Longrightarrow> no_sep p) \<Longrightarrow> CHR ''/'' \<notin> set (strings_Join ps CHR ''&'')"
  by (induction ps "CHR ''&''" rule: strings_Join.induct) (auto simp: no_sep_def)

lemma ParseDSN_written:
  assumes "left_ok cfg" "Net cfg \<noteq> []" "Addr cfg \<noteq> []"
    and "CHR ''/'' \<notin> set d" "CHR ''?'' \<notin> set d" and "\<And>p. p \<in> set ps \<Longrightarrow> no_sep p"
    and r: "reads env ps (NewConfig\<lparr>User := User cfg, Passwd := Passwd cfg, Net := Net cfg, Addr := Addr cfg\<rparr>) c"
  shows "ParseDSN env (snd (written (format_left cfg @ ''/'' @ d) ps)) = Returns (dsn_normalize (c\<lparr>DBName := d\<rparr>))"
proof -
  let ?c = "NewConfig\<lparr>User := User cfg, Passwd := Passwd cfg, Net := Net cfg, Addr := Addr cfg\<rparr>"
  define q where "q = d @ (if ps = [] then [] else CHR ''?'' # strings_Join ps CHR ''&'')"
  have s: "snd (written (format_left cfg @ ''/'' @ d) ps) = format_left cfg @ CHR ''/'' # q"
    by (simp add: written_def q_def)
  have "CHR ''/'' \<notin> set q" using assms(4) no_slash_Join [OF assms(6)] by (simp add: q_def)
  note l = last_at_append [OF this, of "format_left cfg"]
  have ne: "format_left cfg \<noteq> []" using assms(2,3) by (simp add: format_left_def)
  have left: "parse_left (format_left cfg) NewConfig = Inr ?c"
    using parse_left_format_left [OF assms(1-3), of NewConfig] by (simp add: NewConfig_def)
  have right: "parse_right env q ?c = Returns (Inr (c\<lparr>DBName := d\<rparr>))"
  proof (cases "ps = []")
    case True
    with r show ?thesis using first_at_None [OF assms(5)] by (simp add: q_def parse_right_def reads_def)
  next
    case False
    have "strings_Split (strings_Join ps CHR ''&'') CHR ''&'' = ps"
      using False assms(6) by (intro strings_Split_Join) (auto simp: no_sep_def)
    with False r show ?thesis
      using first_at_append [OF assms(5)] by (simp add: q_def parse_right_def parseDSNParams_def reads_def)
  qed
  show ?thesis unfolding s by (simp add: ParseDSN_def l ne left right)
qed

section \<open>What a text cannot carry\<close>

text \<open>An address in brackets without a port, as the documentation asks for an IPv6 address: \<open>normalize\<close>
  brackets it again, and what it makes of it is no address any more.\<close>

lemma last_at_less: "last_at c s = Some i \<Longrightarrow> i < length s \<and> s ! i = c"
proof -
  have "first_at c t = Some j \<Longrightarrow> j < length t \<and> t ! j = c" for t j
    by (induction t arbitrary: j) (auto split: if_splits)
  then show "last_at c s = Some i \<Longrightarrow> i < length s \<and> s ! i = c"
    by (fastforce simp: last_at_def rev_nth)
qed

lemma ensureHavePort_brackets:
  assumes "CHR '':'' \<in> set a" and "CHR '']'' \<notin> set a"
  shows "ensureHavePort (''['' @ a @ '']'') = ''[['' @ a @ '']]:3306''"
    and "SplitHostPort (''[['' @ a @ '']]:3306'') = None"
proof -
  have e: "first_at CHR '']'' (b @ a @ CHR '']'' # r) = Some (length b + length a)" if "CHR '']'' \<notin> set b" for b r
    using first_at_append [of "CHR '']''" "b @ a" r] assms(2) that by simp
  have "SplitHostPort (''['' @ a @ '']'') = None"
    using last_at_less [of "CHR '':''" "''['' @ a @ '']''"] e [of "''[''" "[]"]
    by (auto simp: SplitHostPort_def split: option.splits)
  with assms(1) show "ensureHavePort (''['' @ a @ '']'') = ''[['' @ a @ '']]:3306''"
    by (simp add: ensureHavePort_def JoinHostPort_def)
  have "last_at CHR '':'' (''[['' @ a @ '']]:3306'') = Some (length a + 4)"
    using last_at_append [of "CHR '':''" "''3306''" "''[['' @ a @ '']]''"] by simp
  with e [of "''[[''" "'']:3306''"] show "SplitHostPort (''[['' @ a @ '']]:3306'') = None"
    by (simp add: SplitHostPort_def)
qed

section \<open>Properties\<close>

text \<open>
  C36. \<open>FormatDSN\<close> and \<open>ParseDSN\<close> fit together: from the text of a configuration that a text can carry the
  driver reads that configuration again, with every option, every timeout, the TLS configuration and all
  other parameters, in whatever order Go ranges over the map of parameters.
\<close>

theorem ParseDSN_FormatDSN:
  assumes "formattable env ks cfg" and "distinct ks" and "set ks = dom (Params cfg)"
  shows "ParseDSN env (FormatDSN env ks cfg) = Returns (Inr cfg)"
proof -
  from assms(1) obtain t where t: "tls_of env (TLSConfig cfg) = Some t"
    and n: "dsn_normalize (cfg\<lparr>dsn_tls := t\<rparr>) = Inr cfg"
    and ok: "left_ok cfg" "CHR ''/'' \<notin> set (DBName cfg)" "CHR ''?'' \<notin> set (DBName cfg)" "options_ok env cfg"
      "list_all key_ok ks"
    by (auto simp: formattable_def split: option.splits)
  let ?c0 = "NewConfig\<lparr>User := User cfg, Passwd := Passwd cfg, Net := Net cfg, Addr := Addr cfg\<rparr>"
  let ?c1 = "cfg\<lparr>DBName := [], Params := Map.empty, dsn_tls := t\<rparr>"
  have keys: "list_all key_ok (sort ks)" using ok(5) by (simp add: list_all_iff)
  have "cfg\<lparr>User := User cfg, Passwd := Passwd cfg, Net := Net cfg, Addr := Addr cfg, DBName := [],
      Params := Map.empty, dsn_tls := t\<rparr> = ?c1"
    by (cases cfg) simp
  then have "reads env (option_texts env cfg) ?c0 ?c1"
    using reads_options [OF ok(4) t refl, of "Addr cfg" "Net cfg" "Passwd cfg" "User cfg"] by (simp only:)
  moreover have "?c1\<lparr>Params := Params ?c1 ++ (Params cfg |` set (sort ks))\<rparr> = cfg\<lparr>DBName := [], dsn_tls := t\<rparr>"
    using assms(3) by (cases cfg) (simp add: restrict_map_def dom_def fun_eq_iff)
  then have "reads env (map (param_text cfg) (sort ks)) ?c1 (cfg\<lparr>DBName := [], dsn_tls := t\<rparr>)"
    using reads_params [OF keys, of cfg env ?c1] assms(3) by (simp only: set_sort subset_refl)
  ultimately have r: "reads env (option_texts env cfg @ map (param_text cfg) (sort ks)) ?c0 (cfg\<lparr>DBName := [], dsn_tls := t\<rparr>)"
    by (rule reads_append)
  have seps: "no_sep p" if "p \<in> set (option_texts env cfg @ map (param_text cfg) (sort ks))" for p
    using that ok(5) no_sep_option_texts [OF ok(4)] no_sep_param_text by (auto simp: list_all_iff)
  have "cfg\<lparr>DBName := [], dsn_tls := t\<rparr>\<lparr>DBName := DBName cfg\<rparr> = cfg\<lparr>dsn_tls := t\<rparr>" by (cases cfg) simp
  then show ?thesis
    using ParseDSN_written [OF ok(1) normalize_Net_Addr [OF n] ok(2,3) seps r]
    by (simp only: FormatDSN_written n)
qed

text \<open>
  A configuration with parameters of every kind, a TLS configuration from the registry and a password
  full of separators.
\<close>

definition format_env :: dsn_env where
  "format_env =
     \<lparr>LoadLocation = (\<lambda>n. n = ''Asia/Shanghai''), ParseDuration = (\<lambda>s. if s = ''1m30s'' then Some 90000000000 else None),
      DurationString = (\<lambda>_. ''1m30s''), serverPubKeyRegistry = {''db key''},
      tlsConfigRegistry = [''corp & co'' \<mapsto> \<lparr>ServerName = [], InsecureSkipVerify = False\<rparr>]\<rparr>"

definition format_cfg :: dsn_Config where
  "format_cfg = NewConfig
     \<lparr>User := ''root'', Passwd := ''p:@/?('', Net := ''tcp'', Addr := ''db:3307'', DBName := ''agents'',
      Params := [''sql_mode'' \<mapsto> ''A/B'', ''autocommit'' \<mapsto> ''0''], Loc := ''Asia/Shanghai'', MaxAllowedPacket := -1,
      ServerPubKey := ''db key'', TLSConfig := ''corp & co'',
      dsn_tls := Some \<lparr>ServerName = ''db'', InsecureSkipVerify = False\<rparr>, Timeout := 90000000000, ParseTime := True\<rparr>"

lemma format_cfg_formattable: "formattable format_env [''sql_mode'', ''autocommit''] format_cfg"
proof -
  have "tls_of format_env ''corp & co'' = Some (Some \<lparr>ServerName = [], InsecureSkipVerify = False\<rparr>)"
    by (simp add: tls_of_def format_env_def readBool_def lower_def)
  moreover have "dsn_normalize (format_cfg\<lparr>dsn_tls := Some \<lparr>ServerName = [], InsecureSkipVerify = False\<rparr>\<rparr>) = Inr format_cfg"
    by (simp add: dsn_normalize_def default_addr_def ensureHavePort_def SplitHostPort_def last_at_def format_cfg_def
        NewConfig_def)
  moreover have "options_ok format_env format_cfg"
    by (simp add: options_ok_def duration_ok_def format_env_def format_cfg_def NewConfig_def no_sep_def)
  moreover have "left_ok format_cfg" by (simp add: left_ok_def format_cfg_def)
  moreover have "TLSConfig format_cfg = ''corp & co''" "DBName format_cfg = ''agents''"
    by (simp_all add: format_cfg_def)
  ultimately show ?thesis by (simp add: formattable_def key_ok_def no_sep_def known_params_def)
qed

theorem ParseDSN_FormatDSN_witness:
  "FormatDSN format_env [''sql_mode'', ''autocommit''] format_cfg =
     ''root:p:@/?(@tcp(db:3307)/agents?loc=Asia%2FShanghai&parseTime=true&serverPubKey=db+key&timeout=1m30s&tls=corp+%26+co&maxAllowedPacket=-1&autocommit=0&sql_mode=A%2FB''
   \<and> ParseDSN format_env (FormatDSN format_env [''sql_mode'', ''autocommit''] format_cfg) = Returns (Inr format_cfg)"
proof
  have "FormatDSN format_env [''sql_mode'', ''autocommit''] format_cfg =
     snd (format_params [''autocommit'', ''sql_mode''] format_cfg
       (format_options format_env format_cfg (False, format_left format_cfg @ ''/'' @ DBName format_cfg)))"
    by (simp add: FormatDSN_def less_list_code)
  also have "\<dots> = ''root:p:@/?(@tcp(db:3307)/agents?loc=Asia%2FShanghai&parseTime=true&serverPubKey=db+key&timeout=1m30s&tls=corp+%26+co&maxAllowedPacket=-1&autocommit=0&sql_mode=A%2FB''"
    by (simp add: format_options_def add_param_def format_left_def format_cfg_def NewConfig_def format_env_def
        escape_char_def unreserved_def upper_hex_def Itoa_def nat_text.simps digit_char_def Let_def char_of_def bit_Suc_0_iff
        defaultCollation_def defaultMaxAllowedPacket_def)
  finally show "FormatDSN format_env [''sql_mode'', ''autocommit''] format_cfg =
     ''root:p:@/?(@tcp(db:3307)/agents?loc=Asia%2FShanghai&parseTime=true&serverPubKey=db+key&timeout=1m30s&tls=corp+%26+co&maxAllowedPacket=-1&autocommit=0&sql_mode=A%2FB''" .
  show "ParseDSN format_env (FormatDSN format_env [''sql_mode'', ''autocommit''] format_cfg) = Returns (Inr format_cfg)"
    by (rule ParseDSN_FormatDSN [OF format_cfg_formattable]) (auto simp: format_cfg_def)
qed

end
