(* ===== verification/Http_Tool.thy ===== *)
theory Http_Tool
  imports Go_Errors
begin

text \<open>
  The HTTP client helper (\<open>src/util/tools/httptool.go\<close>).  The library \<open>requests\<close> and the log
  package it imports, which the repository does not have, are parameters: the answer to a request, the
  text of a response, and what the log does with a format and its arguments.
\<close>

record ('r, 'l) http_tool =
  requests_Get :: "string \<Rightarrow> error + 'r"
  resp_Text :: "'r \<Rightarrow> string"
  tool_Errorf :: "string \<Rightarrow> string list \<Rightarrow> 'l \<Rightarrow> 'l"
  tool_Infof :: "string \<Rightarrow> string list \<Rightarrow> 'l \<Rightarrow> 'l"

definition get_failed_text :: string where
  "get_failed_text =
     utf8_lit [0xE8, 0xB0, 0x83, 0xE7, 0x94, 0xA8, 0xE8, 0xAE, 0xA1, 0xE5, 0x88, 0x92, 0xE4, 0xBB,
       0xBB, 0xE5, 0x8A, 0xA1, 0xE6, 0x8E, 0xA5, 0xE5, 0x8F, 0xA3, 0xE5, 0xA4, 0xB1, 0xE8,
       0xB4, 0xA5, 0x2C, 0xE5, 0xA4, 0xB1, 0xE8, 0xB4, 0xA5]
     @ ''URL: %s''"

definition get_done_text :: string where
  "get_done_text =
     utf8_lit [0xE8, 0xB0, 0x83, 0xE7, 0x94, 0xA8, 0xE8, 0xAE, 0xA1, 0xE5, 0x88, 0x92, 0xE4, 0xBB,
       0xBB, 0xE5, 0x8A, 0xA1, 0xE6, 0x8E, 0xA5, 0xE5, 0x8F, 0xA3, 0xE6, 0x88, 0x90, 0xE5,
       0x8A, 0x9F, 0x2C, 0xE6, 0x88, 0x90, 0xE5, 0x8A, 0x9F, 0x55, 0x52, 0x4C, 0xEF, 0xBC,
       0x9A, 0x20, 0x25, 0x73, 0x2C, 0x20, 0xE8, 0xBF, 0x94, 0xE5, 0x9B, 0x9E, 0xE5, 0x80,
       0xBC]
     @ '': %s''"

definition HttpGetClient :: "('r, 'l) http_tool \<Rightarrow> string \<Rightarrow> 'l \<Rightarrow> 'l" where
  "HttpGetClient t url l =
     (case requests_Get t url of
        Inl err \<Rightarrow> tool_Errorf t get_failed_text [url] l
      | Inr resp \<Rightarrow> tool_Infof t get_done_text [url, resp_Text t resp] l)"

end
