(* ===== verification/Gin_Context.thy ===== *)
theory Gin_Context
  imports Gin_Router Net_Conn
begin

text \<open>
  How the HTTP framework runs a chain of handlers and what the client gets
  (\<open>src/vender/src/github.com/gin-gonic/gin\<close>, \<open>context.go\<close>, \<open>response_writer.go\<close>, \<open>recovery.go\<close>,
  \<open>serveError\<close> of \<open>gin.go\<close>).  The position in the chain is a signed byte, as in the source; \<open>Abort\<close>
  moves it behind every chain.  The main result is that this machine runs the chain
  as its structure says, and that the byte never wraps.
\<close>

section \<open>Handlers\<close>

text \<open>A call ends normally or panics; what has been written and changed by then stays.\<close>

datatype 'a called = Done 'a | Raised error 'a

text \<open>
  A handler by what it does with the chain: it runs without calling \<open>Next\<close>, it calls \<open>Next\<close> once and
  does something before and after, or it calls \<open>Next\<close> with a deferred function that recovers from a
  panic and aborts.  The parts say whether they have called \<open>Abort\<close>.
\<close>

datatype 's handler =
    Runs "'s \<Rightarrow> (bool \<times> 's) called"
  | Wraps "'s \<Rightarrow> (bool \<times> 's) called" "'s \<Rightarrow> (bool \<times> 's) called"
  | Recovers "error \<Rightarrow> 's \<Rightarrow> 's"

section \<open>Next\<close>

definition IsAborted :: "8 word \<Rightarrow> bool" where
  "IsAborted i \<longleftrightarrow> sint i \<ge> int abortIndex"

definition Abort_if :: "bool \<Rightarrow> 8 word \<Rightarrow> 8 word" where
  "Abort_if b i = (if b then of_nat abortIndex else i)"

text \<open>The loop of \<open>Next\<close>, with the calls of \<open>Next\<close> from the handlers in place; the fuel bounds the
  calls and turns.\<close>

fun Next_loop :: "nat \<Rightarrow> 's handler list \<Rightarrow> 8 word \<Rightarrow> 's \<Rightarrow> (8 word \<times> 's) called option" where
  "Next_loop 0 hs i s = None"
| "Next_loop (Suc n) hs i s =
     (if sint i < sint (of_nat (length hs) :: 8 word) then
        if sint i < 0 then Some (Raised (ExtError ''index out of range'') (i, s))
        else
          (case hs ! nat (sint i) of
             Runs f \<Rightarrow>
               (case f s of
                  Raised e (b, s1) \<Rightarrow> Some (Raised e (Abort_if b i, s1))
                | Done (b, s1) \<Rightarrow> Next_loop n hs (Abort_if b i + 1) s1)
           | Wraps f g \<Rightarrow>
               (case f s of
                  Raised e (b, s1) \<Rightarrow> Some (Raised e (Abort_if b i, s1))
                | Done (b, s1) \<Rightarrow>
                    (case Next_loop n hs (Abort_if b i + 1) s1 of
                       None \<Rightarrow> None
                     | Some (Raised e r) \<Rightarrow> Some (Raised e r)
                     | Some (Done (j, s2)) \<Rightarrow>
                         (case g s2 of
                            Raised e (c, s3) \<Rightarrow> Some (Raised e (Abort_if c j, s3))
                          | Done (c, s3) \<Rightarrow> Next_loop n hs (Abort_if c j + 1) s3)))
           | Recovers r \<Rightarrow>
               (case Next_loop n hs (i + 1) s of
                  None \<Rightarrow> None
                | Some (Raised e (j, s1)) \<Rightarrow> Next_loop n hs (Abort_if True j + 1) (r e s1)
                | Some (Done (j, s1)) \<Rightarrow> Next_loop n hs (j + 1) s1))
      else Some (Done (i, s)))"

definition Next :: "nat \<Rightarrow> 's handler list \<Rightarrow> 8 word \<Rightarrow> 's \<Rightarrow> (8 word \<times> 's) called option" where
  "Next n hs i s = Next_loop n hs (i + 1) s"

section \<open>The chain as its structure says\<close>

text \<open>Every handler is asked in turn until one aborts; the parts behind \<open>Next\<close> run in any case,
  unless there was a panic; a recovering handler ends a panic.\<close>

fun chain :: "'s handler list \<Rightarrow> 's \<Rightarrow> 's called" where
  "chain [] s = Done s"
| "chain (Runs f # hs) s =
     (case f s of Raised e (b, s1) \<Rightarrow> Raised e s1 | Done (b, s1) \<Rightarrow> if b then Done s1 else chain hs s1)"
| "chain (Wraps f g # hs) s =
     (case f s of
        Raised e (b, s1) \<Rightarrow> Raised e s1
      | Done (b, s1) \<Rightarrow>
          (case (if b then Done s1 else chain hs s1) of
             Raised e s2 \<Rightarrow> Raised e s2
           | Done s2 \<Rightarrow> (case g s2 of Raised e (c, s3) \<Rightarrow> Raised e s3 | Done (c, s3) \<Rightarrow> Done s3)))"
| "chain (Recovers r # hs) s = (case chain hs s of Raised e s1 \<Rightarrow> Done (r e s1) | Done s1 \<Rightarrow> Done s1)"

lemma sint_small: "n < 128 \<Longrightarrow> sint (of_nat n :: 8 word) = int n"
  by (simp add: signed_of_nat signed_take_bit_int_eq_self)

lemma sint_inc: "0 \<le> sint i \<Longrightarrow> sint i < 127 \<Longrightarrow> sint (i + 1 :: 8 word) = sint i + 1"
  by (simp add: sint_word_ariths signed_take_bit_int_eq_self)

lemma Abort_if_False: "Abort_if False i = i"
  by (simp add: Abort_if_def)

lemma Abort_if_True: "sint (Abort_if True i + 1) = 64"
  by (simp add: Abort_if_def abortIndex_def)

definition ends_as :: "nat \<Rightarrow> nat \<Rightarrow> 's called \<Rightarrow> (8 word \<times> 's) called option \<Rightarrow> bool" where
  "ends_as L m c r \<longleftrightarrow>
     (case c of
        Done s \<Rightarrow> (\<exists>j. r = Some (Done (j, s)) \<and> int L \<le> sint j \<and> sint j \<le> 64 + int m)
      | Raised e s \<Rightarrow> (\<exists>j. r = Some (Raised e (j, s))))"

lemma ends_as_mono: "ends_as L m c r \<Longrightarrow> m \<le> m' \<Longrightarrow> ends_as L m' c r"
  by (fastforce simp: ends_as_def split: called.splits)

lemma ends_as_Done: "ends_as L m (Done s) r \<longleftrightarrow> (\<exists>j. r = Some (Done (j, s)) \<and> int L \<le> sint j \<and> sint j \<le> 64 + int m)"
  and ends_as_Raised: "ends_as L m (Raised e s) r \<longleftrightarrow> (\<exists>j. r = Some (Raised e (j, s)))"
  by (simp_all add: ends_as_def)

lemma Next_loop_stops:
  "length hs < abortIndex \<Longrightarrow> int (length hs) \<le> sint i \<Longrightarrow> Next_loop (Suc n) hs i s = Some (Done (i, s))"
  by (simp add: sint_small abortIndex_def)

lemma Next_loop_at:
  assumes "length hs < abortIndex" and "k < length hs"
  shows "sint (of_nat k :: 8 word) < sint (of_nat (length hs) :: 8 word)" "\<not> sint (of_nat k :: 8 word) < 0"
    "hs ! nat (sint (of_nat k :: 8 word)) = hs ! k" "(of_nat k :: 8 word) + 1 = of_nat (Suc k)"
  using assms by (simp_all add: sint_small abortIndex_def)

lemma step_over:
  assumes "length hs < abortIndex" and "int (length hs) \<le> sint j" and "sint j \<le> 64 + int m" and "m \<le> 61"
  shows "Next_loop (Suc n) hs (j + 1) s = Some (Done (j + 1, s))" and "sint (j + 1) = sint j + 1"
proof -
  show i: "sint (j + 1) = sint j + 1" using assms(2-4) by (intro sint_inc) simp_all
  show "Next_loop (Suc n) hs (j + 1) s = Some (Done (j + 1, s))"
    using assms(1,2) i by (intro Next_loop_stops) simp_all
qed

lemma step_aborted:
  assumes "length hs < abortIndex"
  shows "Next_loop (Suc n) hs (Abort_if True i + 1) s = Some (Done (Abort_if True i + 1, s))"
  using assms Abort_if_True by (intro Next_loop_stops) (simp_all add: abortIndex_def)

text \<open>What the handlers behind position \<open>k\<close> do, once the one at \<open>k\<close> has called \<open>Next\<close> or returned.\<close>

definition rest_ok :: "nat \<Rightarrow> 's handler list \<Rightarrow> nat \<Rightarrow> bool" where
  "rest_ok n hs k \<longleftrightarrow>
     (\<forall>b s. ends_as (length hs) (length hs - Suc k) (if b then Done s else chain (drop (Suc k) hs) s)
        (Next_loop (Suc n) hs (Abort_if b (of_nat k) + 1) s))"

lemma Next_loop_here:
  assumes "length hs < abortIndex" and "k < length hs"
  shows "drop k hs = hs ! k # drop (Suc k) hs" and "length hs - k = Suc (length hs - Suc k)"
    and "length hs - Suc k \<le> 61"
  using assms Cons_nth_drop_Suc [OF assms(2)] by (simp_all add: abortIndex_def)

lemmas unfold_turn = Next_loop.simps(2) [of "Suc n" hs "of_nat k" s for n hs k s]

lemma turn_Runs:
  assumes "length hs < abortIndex" "k < length hs" and rest: "rest_ok n hs k" and h: "hs ! k = Runs f"
  shows "ends_as (length hs) (length hs - k) (chain (drop k hs) s) (Next_loop (Suc (Suc n)) hs (of_nat k) s)"
proof (cases "f s")
  case (Done r)
  have "ends_as (length hs) (length hs - k) (if fst r then Done (snd r) else chain (drop (Suc k) hs) (snd r))
      (Next_loop (Suc n) hs (Abort_if (fst r) (of_nat k) + 1) (snd r))"
    by (rule ends_as_mono [OF rest [unfolded rest_ok_def, rule_format]]) simp
  with Done h show ?thesis
    by (simp add: Next_loop_here [OF assms(1,2)] unfold_turn Next_loop_at(1-3) [OF assms(1,2)] split_beta del: Next_loop.simps)
next
  case (Raised e r)
  with h show ?thesis
    by (simp add: Next_loop_here [OF assms(1,2)] unfold_turn Next_loop_at(1-3) [OF assms(1,2)] split_beta ends_as_Raised
        del: Next_loop.simps)
qed

lemma turn_Wraps_after:
  assumes "length hs < abortIndex" "k < length hs" and h: "hs ! k = Wraps f g" and f: "f s = Done r"
    and i: "(if fst r then Done (snd r) else chain (drop (Suc k) hs) (snd r)) = Done s2"
    and j: "Next_loop (Suc n) hs (Abort_if (fst r) (of_nat k) + 1) (snd r) = Some (Done (j, s2))"
      "int (length hs) \<le> sint j" "sint j \<le> 64 + int (length hs - Suc k)"
  shows "ends_as (length hs) (length hs - k) (chain (drop k hs) s) (Next_loop (Suc (Suc n)) hs (of_nat k) s)"
proof -
  note here = Next_loop_here [OF assms(1,2)] and at = Next_loop_at(1-3) [OF assms(1,2)]
  note over = step_over [OF assms(1) j(2,3) here(3)]
  note e = i j(1) f h here(1) unfold_turn at
  show ?thesis
  proof (cases "g s2")
    case (Raised x q)
    then show ?thesis by (simp add: e split_beta ends_as_Raised del: Next_loop.simps)
  next
    case (Done q)
    with over j(2,3) here(2) step_aborted [OF assms(1), of n j] Abort_if_True [of j] assms(1) show ?thesis
      by (cases "fst q") (simp_all add: e split_beta ends_as_Done Abort_if_False abortIndex_def del: Next_loop.simps)
  qed
qed

lemma turn_Wraps:
  assumes "length hs < abortIndex" "k < length hs" and rest: "rest_ok n hs k" and h: "hs ! k = Wraps f g"
  shows "ends_as (length hs) (length hs - k) (chain (drop k hs) s) (Next_loop (Suc (Suc n)) hs (of_nat k) s)"
proof (cases "f s")
  case (Raised e r)
  with h show ?thesis
    by (simp add: Next_loop_here [OF assms(1,2)] unfold_turn Next_loop_at(1-3) [OF assms(1,2)] split_beta ends_as_Raised
        del: Next_loop.simps)
next
  case f: (Done r)
  let ?inner = "if fst r then Done (snd r) else chain (drop (Suc k) hs) (snd r)"
  have asked: "ends_as (length hs) (length hs - Suc k) ?inner
      (Next_loop (Suc n) hs (Abort_if (fst r) (of_nat k) + 1) (snd r))"
    using rest unfolding rest_ok_def by blast
  show ?thesis
  proof (cases ?inner)
    case (Raised e s2)
    with asked f h show ?thesis
      by (auto simp: Next_loop_here [OF assms(1,2)] unfold_turn Next_loop_at(1-3) [OF assms(1,2)] split_beta ends_as_Raised
          simp del: Next_loop.simps)
  next
    case (Done s2)
    with asked obtain j where j: "Next_loop (Suc n) hs (Abort_if (fst r) (of_nat k) + 1) (snd r) = Some (Done (j, s2))"
      "int (length hs) \<le> sint j" "sint j \<le> 64 + int (length hs - Suc k)" by (auto simp: ends_as_Done)
    show ?thesis by (rule turn_Wraps_after [OF assms(1,2) h f Done j])
  qed
qed

lemma turn_Recovers:
  assumes "length hs < abortIndex" "k < length hs" and rest: "rest_ok n hs k" and h: "hs ! k = Recovers r"
  shows "ends_as (length hs) (length hs - k) (chain (drop k hs) s) (Next_loop (Suc (Suc n)) hs (of_nat k) s)"
proof -
  note here = Next_loop_here [OF assms(1,2)] and at = Next_loop_at(1-3) [OF assms(1,2)]
  have asked: "ends_as (length hs) (length hs - Suc k) (chain (drop (Suc k) hs) s) (Next_loop (Suc n) hs (of_nat k + 1) s)"
    using rest [unfolded rest_ok_def, rule_format, of False s] by (simp add: Abort_if_False del: Next_loop.simps)
  show ?thesis
  proof (cases "chain (drop (Suc k) hs) s")
    case (Done s1)
    with asked obtain j where j: "Next_loop (Suc n) hs (of_nat k + 1) s = Some (Done (j, s1))"
      "int (length hs) \<le> sint j" "sint j \<le> 64 + int (length hs - Suc k)" by (auto simp: ends_as_Done)
    from step_over(1) [OF assms(1) j(2,3) here(3), of n s1] step_over(2) [OF assms(1) j(2,3) here(3)] j Done h here(2) show ?thesis
      by (simp add: here(1) unfold_turn at ends_as_Done del: Next_loop.simps)
  next
    case (Raised e s1)
    with asked obtain j where "Next_loop (Suc n) hs (of_nat k + 1) s = Some (Raised e (j, s1))"
      by (auto simp: ends_as_Raised)
    with Raised h step_aborted [OF assms(1), of n j "r e s1"] Abort_if_True [of j] assms(1) show ?thesis
      by (simp add: here(1) unfold_turn at ends_as_Done abortIndex_def del: Next_loop.simps)
  qed
qed

lemma Next_loop_chain:
  assumes "length hs < abortIndex" and "k \<le> length hs" and "length hs - k < n"
  shows "ends_as (length hs) (length hs - k) (chain (drop k hs) s) (Next_loop n hs (of_nat k) s)"
  using assms(2,3)
proof (induction n arbitrary: k s)
  case (Suc n)
  show ?case
  proof (cases "k < length hs")
    case False
    with Suc.prems have k: "k = length hs" by simp
    have "sint (of_nat k :: 8 word) = int k" using assms(1) k by (simp add: sint_small abortIndex_def)
    then show ?thesis using Next_loop_stops [OF assms(1), of "of_nat k" n s] k assms(1)
      by (simp add: ends_as_def abortIndex_def del: Next_loop.simps)
  next
    case True
    from True Suc.prems obtain n' where n: "n = Suc n'" by (cases n) auto
    have "ends_as (length hs) (length hs - Suc k) (if b then Done s1 else chain (drop (Suc k) hs) s1)
        (Next_loop n hs (Abort_if b (of_nat k) + 1) s1)" for b s1
    proof -
      have "ends_as (length hs) (length hs - Suc k) (chain (drop (Suc k) hs) s1) (Next_loop n hs (of_nat (Suc k)) s1)"
        using True Suc.prems by (intro Suc.IH) simp_all
      then show ?thesis
        using step_aborted [OF assms(1), of n' "of_nat k" s1] Abort_if_True [of "of_nat k"] assms(1)
        by (cases b) (simp_all add: n Abort_if_False Next_loop_at(4) [OF assms(1) True] ends_as_Done abortIndex_def
            del: Next_loop.simps of_nat_Suc)
    qed
    then have "rest_ok n' hs k" by (simp add: rest_ok_def n del: Next_loop.simps)
    then show ?thesis
      unfolding n using turn_Runs [OF assms(1) True] turn_Wraps [OF assms(1) True] turn_Recovers [OF assms(1) True]
      by (cases "hs ! k") blast+
  qed
qed simp

text \<open>\<open>IsAborted\<close> after thirty-two wrapping handlers, none of which has aborted.\<close>

lemma IsAborted_without_Abort:
  "\<exists>j. Next 34 (replicate 32 (Wraps (\<lambda>s. Done (False, s)) (\<lambda>s. Done (False, s)))) (- 1) () = Some (Done (j, ())) \<and>
     IsAborted j"
  by (rule exI [of _ 64]) code_simp

section \<open>The response\<close>

text \<open>
  The writer \<open>net/http\<close> gives to a handler: the status that was sent (the first one wins), the headers
  the framework sets, the body, and the outcomes of the writes to come.
\<close>

record http_writer =
  out_status :: "int option"
  out_type :: string
  out_location :: string
  out_body :: string
  out_script :: "out_event list"

definition net_WriteHeader :: "int \<Rightarrow> http_writer \<Rightarrow> http_writer" where
  "net_WriteHeader code w = (if out_status w = None then w\<lparr>out_status := Some code\<rparr> else w)"

definition net_Write :: "string \<Rightarrow> http_writer \<Rightarrow> (nat \<times> error option) \<times> http_writer" where
  "net_Write d w =
     (case out_script w of
        [] \<Rightarrow> ((length d, None), w\<lparr>out_body := out_body w @ d\<rparr>)
      | OutOk # evs \<Rightarrow> ((length d, None), w\<lparr>out_body := out_body w @ d, out_script := evs\<rparr>)
      | OutErr n e # evs \<Rightarrow>
          ((length (take n d), Some e), w\<lparr>out_body := out_body w @ take n d, out_script := evs\<rparr>))"

record responseWriter =
  rw_size :: int
  rw_status :: int
  rw_out :: http_writer

definition rw_reset :: "http_writer \<Rightarrow> responseWriter" where
  "rw_reset w = \<lparr>rw_size = -1, rw_status = 200, rw_out = w\<rparr>"

definition Written :: "responseWriter \<Rightarrow> bool" where
  "Written w \<longleftrightarrow> rw_size w \<noteq> -1"

definition WriteHeader :: "int \<Rightarrow> responseWriter \<Rightarrow> responseWriter" where
  "WriteHeader code w = (if code > 0 \<and> rw_status w \<noteq> code then w\<lparr>rw_status := code\<rparr> else w)"

definition WriteHeaderNow :: "responseWriter \<Rightarrow> responseWriter" where
  "WriteHeaderNow w =
     (if \<not> Written w then w\<lparr>rw_size := 0, rw_out := net_WriteHeader (rw_status w) (rw_out w)\<rparr> else w)"

definition rw_Write :: "string \<Rightarrow> responseWriter \<Rightarrow> error option \<times> responseWriter" where
  "rw_Write d w0 =
     (let w = WriteHeaderNow w0
      in case net_Write d (rw_out w) of
           ((n, err), o') \<Rightarrow> (err, w\<lparr>rw_size := rw_size w + int n, rw_out := o'\<rparr>))"

text \<open>A header set after the status has been sent has no effect.\<close>

definition set_type :: "string \<Rightarrow> responseWriter \<Rightarrow> responseWriter" where
  "set_type t w = (if out_status (rw_out w) = None then w\<lparr>rw_out := (rw_out w)\<lparr>out_type := t\<rparr>\<rparr> else w)"

definition writeContentType :: "string \<Rightarrow> responseWriter \<Rightarrow> responseWriter" where
  "writeContentType t w = (if out_type (rw_out w) = [] then set_type t w else w)"

definition bodyAllowedForStatus :: "int \<Rightarrow> bool" where
  "bodyAllowedForStatus status \<longleftrightarrow> \<not> (100 \<le> status \<and> status \<le> 199) \<and> status \<noteq> 204 \<and> status \<noteq> 304"

definition json_type :: string where "json_type = ''application/json; charset=utf-8''"

text \<open>\<open>c.JSON(code, obj)\<close>, with the outcome of encoding \<open>obj\<close>; an error of the encoding or of
  the write panics.\<close>

definition Context_JSON :: "int \<Rightarrow> string result \<Rightarrow> responseWriter \<Rightarrow> responseWriter called" where
  "Context_JSON code enc w0 =
     (let w1 = WriteHeader code w0
      in if \<not> bodyAllowedForStatus code then Done (WriteHeaderNow (writeContentType json_type w1))
         else
           let w2 = writeContentType json_type w1
           in case enc of
                Inl err \<Rightarrow> Raised err w2
              | Inr d \<Rightarrow> (case rw_Write d w2 of (None, w3) \<Rightarrow> Done w3 | (Some err, w3) \<Rightarrow> Raised err w3))"

definition AbortWithStatus :: "int \<Rightarrow> responseWriter \<Rightarrow> responseWriter" where
  "AbortWithStatus code w = WriteHeaderNow (WriteHeader code w)"

section \<open>Serving a request\<close>

text \<open>The parts of a context that outlive one handler, the log of the framework, and the world the
  handlers work on.\<close>

record 'w Context =
  ctx_writer :: responseWriter
  ctx_Errors :: "error list"
  gin_log :: "(int \<times> int) list"
  ctx_world :: 'w

definition Logger :: "'w Context handler" where
  "Logger = Wraps (\<lambda>c. Done (False, c))
     (\<lambda>c. Done (False, c\<lparr>gin_log := gin_log c @ [(rw_status (ctx_writer c), rw_size (ctx_writer c))]\<rparr>))"

text \<open>\<open>broken\<close> says which panics are a broken connection.\<close>

definition Recovery :: "(error \<Rightarrow> bool) \<Rightarrow> 'w Context handler" where
  "Recovery broken = Recovers (\<lambda>err c.
     if broken err then c\<lparr>ctx_Errors := ctx_Errors c @ [err]\<rparr>
     else c\<lparr>ctx_writer := AbortWithStatus 500 (ctx_writer c)\<rparr>)"

definition run_handlers :: "'w Context handler list \<Rightarrow> 'w Context \<Rightarrow> 'w Context called option" where
  "run_handlers hs c =
     (case Next (Suc (length hs)) hs (- 1) c of
        None \<Rightarrow> None
      | Some (Done (j, c')) \<Rightarrow> Some (Done c')
      | Some (Raised e (j, c')) \<Rightarrow> Some (Raised e c'))"

definition serveError :: "int \<Rightarrow> string \<Rightarrow> 'w Context handler list \<Rightarrow> 'w Context \<Rightarrow> 'w Context called option" where
  "serveError code defaultMessage hs c =
     (case run_handlers hs (c\<lparr>ctx_writer := (ctx_writer c)\<lparr>rw_status := code\<rparr>\<rparr>) of
        Some (Done c') \<Rightarrow>
          Some (Done
            (if Written (ctx_writer c') then c'
             else if rw_status (ctx_writer c') = code then
               c'\<lparr>ctx_writer := snd (rw_Write defaultMessage (set_type ''text/plain'' (ctx_writer c')))\<rparr>
             else c'\<lparr>ctx_writer := WriteHeaderNow (ctx_writer c')\<rparr>))
      | other \<Rightarrow> other)"

text \<open>\<open>http.Redirect\<close> and the end of the two redirecting functions; \<open>redirected\<close> gives the location as
  it is sent and the text that is written for a \<open>GET\<close>.\<close>

definition send_redirect :: "(string \<Rightarrow> int \<Rightarrow> string \<times> string) \<Rightarrow> string \<Rightarrow> int \<Rightarrow> string \<Rightarrow> responseWriter \<Rightarrow> responseWriter" where
  "send_redirect redirected m code url w =
     (let w1 = w\<lparr>rw_out := (rw_out w)\<lparr>out_location := fst (redirected url code)\<rparr>\<rparr>;
          w2 = (if m = ''GET'' \<or> m = ''HEAD'' then set_type ''text/html; charset=utf-8'' w1 else w1);
          w3 = WriteHeader code w2
      in WriteHeaderNow (if m = ''GET'' then snd (rw_Write (snd (redirected url code)) w3) else w3))"

definition ServeHTTP ::
    "('h \<Rightarrow> 'w Context handler) \<Rightarrow> (string \<Rightarrow> int \<Rightarrow> string \<times> string) \<Rightarrow>
     ('h list node \<Rightarrow> string \<Rightarrow> bool \<Rightarrow> string option) \<Rightarrow> nat \<Rightarrow> 'h Engine \<Rightarrow> Request \<Rightarrow> http_writer \<Rightarrow>
     (int \<times> int) list \<Rightarrow> 'w \<Rightarrow> 'w Context called option run" where
  "ServeHTTP impl redirected ci cap engine req out lg w =
     (let c = \<lparr>ctx_writer = rw_reset out, ctx_Errors = [], gin_log = lg, ctx_world = w\<rparr>
      in case handleHTTPRequest ci cap engine req of
           Panics \<Rightarrow> Panics
         | Returns (Serve hs ps fp) \<Rightarrow>
             Returns (case run_handlers (map impl hs) c of
                        Some (Done c') \<Rightarrow> Some (Done (c'\<lparr>ctx_writer := WriteHeaderNow (ctx_writer c')\<rparr>))
                      | other \<Rightarrow> other)
         | Returns (Redirect code url) \<Rightarrow>
             Returns (Some (Done (c\<lparr>ctx_writer := send_redirect redirected (req_Method req) code url (ctx_writer c)\<rparr>)))
         | Returns (ServeError code hs) \<Rightarrow>
             Returns (serveError code (if code = 405 then ''405 method not allowed'' else ''404 page not found'')
               (map impl hs) c))"

section \<open>Properties\<close>



end
