(* ===== verification/Json.thy ===== *)
theory Json
  imports Proto_Wire
begin

text \<open>
  JSON as Go's \<open>encoding/json\<close> reads and writes it, as far as the HTTP interface uses it: the encoder
  for strings, lists and objects with its escapes, the byte by byte scanner of the decoder with the
  stack of what is open, the decoding of string literals, and the storing of an object in a struct
  of string fields, names compared without case as the decoder does.  The main result is that every value
  that was written is read back.
\<close>

section \<open>Values\<close>

datatype jvalue =
    JNull
  | JBool bool
  | JNum string
  | JText string
  | JList "jvalue list"
  | JObj "(string \<times> jvalue) list"

abbreviation char_code :: "char \<Rightarrow> nat" where
  "char_code c \<equiv> of_char c"

section \<open>UTF-8\<close>

text \<open>The number of bytes of the code point at the start of a string, \<open>utf8.DecodeRuneInString\<close>; 0 when
  there is none.\<close>

definition cont :: "nat \<Rightarrow> nat \<Rightarrow> char \<Rightarrow> bool" where
  "cont lo hi c \<longleftrightarrow> lo \<le> char_code c \<and> char_code c \<le> hi"

definition lead :: "char \<Rightarrow> nat" where
  "lead a =
     (if char_code a < 0x80 then 1 else if cont 0xC2 0xDF a then 2 else if cont 0xE0 0xEF a then 3
      else if cont 0xF0 0xF4 a then 4 else 0)"

text \<open>The second byte has a smaller range behind four of the first bytes.\<close>

definition second_byte :: "char \<Rightarrow> char \<Rightarrow> bool" where
  "second_byte a =
     cont (if char_code a = 0xE0 then 0xA0 else if char_code a = 0xF0 then 0x90 else 0x80)
       (if char_code a = 0xED then 0x9F else if char_code a = 0xF4 then 0x8F else 0xBF)"

fun tail_ok :: "char \<Rightarrow> string \<Rightarrow> bool" where
  "tail_ok a [] = False"
| "tail_ok a (b # cs) = (second_byte a b \<and> list_all (cont 0x80 0xBF) cs)"

fun rune_len :: "string \<Rightarrow> nat" where
  "rune_len [] = 0"
| "rune_len (a # s) =
     (if lead a = 1 then 1
      else if lead a \<le> Suc (length s) \<and> tail_ok a (take (lead a - 1) s) then lead a
      else 0)"

text \<open>\<open>utf8.EncodeRune\<close>; what is no code point becomes U+FFFD.\<close>

definition rune_error :: string where
  "rune_error = map char_of [0xEF :: nat, 0xBF, 0xBD]"

definition EncodeRune :: "nat \<Rightarrow> string" where
  "EncodeRune r =
     (if r < 0x80 then [char_of r]
      else if r < 0x800 then map char_of [0xC0 + r div 64, 0x80 + r mod 64]
      else if r > 0x10FFFF \<or> (0xD800 \<le> r \<and> r \<le> 0xDFFF) then rune_error
      else if r < 0x10000 then map char_of [0xE0 + r div 4096, 0x80 + r div 64 mod 64, 0x80 + r mod 64]
      else map char_of [0xF0 + r div 262144, 0x80 + r div 4096 mod 64, 0x80 + r div 64 mod 64, 0x80 + r mod 64])"

section \<open>Writing\<close>

definition hex_char :: "nat \<Rightarrow> char" where
  "hex_char d = char_of (if d < 10 then 48 + d else 87 + d)"

text \<open>One byte below 0x80; \<open>htmlSafeSet\<close> are the bytes that stay.\<close>

definition htmlSafe :: "char \<Rightarrow> bool" where
  "htmlSafe c \<longleftrightarrow> 0x20 \<le> char_code c \<and> c \<notin> {CHR 0x22, CHR ''&'', CHR ''<'', CHR ''>'', CHR 0x5C}"

definition escape_byte :: "char \<Rightarrow> string" where
  "escape_byte c =
     (if htmlSafe c then [c]
      else if c = CHR 0x5C \<or> c = CHR 0x22 then [CHR 0x5C, c]
      else if c = CHR 0x0A then [CHR 0x5C, CHR ''n'']
      else if c = CHR 0x0D then [CHR 0x5C, CHR ''r'']
      else if c = CHR 0x09 then [CHR 0x5C, CHR ''t'']
      else CHR 0x5C # ''u00'' @ [hex_char (char_code c div 16), hex_char (char_code c mod 16)])"

text \<open>A code point of several bytes; U+2028 and U+2029 are escaped.\<close>

definition escape_rune :: "string \<Rightarrow> string" where
  "escape_rune r =
     (if r = map char_of [0xE2 :: nat, 0x80, 0xA8] then CHR 0x5C # ''u2028''
      else if r = map char_of [0xE2 :: nat, 0x80, 0xA9] then CHR 0x5C # ''u2029''
      else r)"

function escape :: "string \<Rightarrow> string" where
  "escape [] = []"
| "escape (c # s) =
     (if char_code c < 0x80 then escape_byte c @ escape s
      else if rune_len (c # s) = 0 then (CHR 0x5C # ''ufffd'') @ escape s
      else escape_rune (take (rune_len (c # s)) (c # s)) @ escape (drop (rune_len (c # s)) (c # s)))"
  by pat_completeness auto
termination by (relation "measure length") auto

definition quote :: "string \<Rightarrow> string" where
  "quote s = CHR 0x22 # escape s @ [CHR 0x22]"

fun json_text :: "jvalue \<Rightarrow> string" where
  "json_text JNull = ''null''"
| "json_text (JBool b) = (if b then ''true'' else ''false'')"
| "json_text (JNum t) = t"
| "json_text (JText s) = quote s"
| "json_text (JList vs) = ''['' @ strings_Join (map json_text vs) CHR '','' @ '']''"
| "json_text (JObj ms) = ''{'' @ strings_Join (map (\<lambda>(k, v). quote k @ '':'' @ json_text v) ms) CHR '','' @ ''}''"

section \<open>Reading string literals\<close>

text \<open>\<open>getu4\<close>: the number behind a backslash and an u, and the rest.\<close>

fun getu4 :: "string \<Rightarrow> (nat \<times> string) option" where
  "getu4 (e # u # a # b # c # d # s) =
     (if e = CHR 0x5C \<and> u = CHR ''u'' then
        (case (hex_digit a, hex_digit b, hex_digit c, hex_digit d) of
           (Some w, Some x, Some y, Some z) \<Rightarrow> Some (w * 4096 + x * 256 + y * 16 + z, s)
         | _ \<Rightarrow> None)
      else None)"
| "getu4 _ = None"

definition surrogate :: "nat \<Rightarrow> bool" where
  "surrogate r \<longleftrightarrow> 0xD800 \<le> r \<and> r < 0xE000"

text \<open>A code point behind an escape, with the second half of a surrogate pair when there is one.\<close>

definition unquote_u :: "string \<Rightarrow> (string \<times> string) option" where
  "unquote_u s =
     (case getu4 s of
        None \<Rightarrow> None
      | Some (r, t) \<Rightarrow>
          if surrogate r then
            (case getu4 t of
               Some (r1, t1) \<Rightarrow>
                 if 0xD800 \<le> r \<and> r < 0xDC00 \<and> 0xDC00 \<le> r1 \<and> r1 < 0xE000
                 then Some (EncodeRune ((r - 0xD800) * 1024 + (r1 - 0xDC00) + 0x10000), t1)
                 else Some (rune_error, t)
             | None \<Rightarrow> Some (rune_error, t))
          else Some (EncodeRune r, t))"

definition simple_escape :: "char \<Rightarrow> char option" where
  "simple_escape c =
     (if c = CHR 0x22 \<or> c = CHR 0x5C \<or> c = CHR ''/'' \<or> c = CHR 0x27 then Some c
      else if c = CHR ''b'' then Some CHR 0x08
      else if c = CHR ''f'' then Some CHR 0x0C
      else if c = CHR ''n'' then Some CHR 0x0A
      else if c = CHR ''r'' then Some CHR 0x0D
      else if c = CHR ''t'' then Some CHR 0x09
      else None)"

lemma getu4_shorter: "getu4 s = Some (r, t) \<Longrightarrow> length t < length s"
  by (induction s rule: getu4.induct) (auto split: if_splits option.splits)

lemma unquote_u_shorter: "unquote_u s = Some (x, t) \<Longrightarrow> length t < length s"
  by (auto simp: unquote_u_def dest!: getu4_shorter split: option.splits if_splits)

function unquote :: "string \<Rightarrow> string option" where
  "unquote [] = Some []"
| "unquote (c # s) =
     (if c = CHR 0x5C then
        (case s of
           [] \<Rightarrow> None
         | e # t \<Rightarrow>
             if e = CHR ''u'' then
               (case unquote_u (c # s) of None \<Rightarrow> None | Some (x, t') \<Rightarrow> map_option (append x) (unquote t'))
             else (case simple_escape e of None \<Rightarrow> None | Some x \<Rightarrow> map_option (Cons x) (unquote t)))
      else if c = CHR 0x22 \<or> char_code c < 0x20 then None
      else if char_code c < 0x80 then map_option (Cons c) (unquote s)
      else if rune_len (c # s) = 0 then map_option (append rune_error) (unquote s)
      else map_option (append (take (rune_len (c # s)) (c # s))) (unquote (drop (rune_len (c # s)) (c # s))))"
  by pat_completeness auto
termination
  by (relation "measure length") (auto dest: unquote_u_shorter)

section \<open>Written strings are read back\<close>

lemma rune_len_le: "rune_len s \<le> length s"
  by (cases s) auto

lemma lead_1: "lead a = 1 \<longleftrightarrow> char_code a < 0x80"
  by (simp add: lead_def)

lemma rune_len_append: "0 < rune_len s \<Longrightarrow> rune_len (s @ t) = rune_len s"
  by (cases s) (auto split: if_splits)

lemma rune_len_take: "rune_len (take (rune_len s) s) = rune_len s"
  by (cases s) (auto simp: take_Cons' split: if_splits)

lemma rune_len_first: "0 < rune_len (c # s) \<Longrightarrow> char_code c < 0x80 \<longleftrightarrow> rune_len (c # s) = 1"
  by (auto simp: lead_1 [symmetric] split: if_splits)

lemma in_range_cont: "in_range (of_nat lo) (of_nat hi) (byte_of_char c) \<longleftrightarrow> cont lo hi c" if "lo < 256" "hi < 256"
  using that by (simp add: in_range_def cont_def word_le_nat_alt unat_of_nat take_bit_nat_eq_self)

lemma byte_of_char_eq: "byte_of_char c = of_nat n \<longleftrightarrow> char_code c = n" if "n < 256"
  using that by (simp add: word_unat_eq_iff unat_of_nat take_bit_nat_eq_self)

lemmas byte_cont = in_range_cont [of "0xC2" "0xDF", simplified] in_range_cont [of "0xE0" "0xEF", simplified]
  in_range_cont [of "0xF0" "0xF4", simplified] in_range_cont [of "0x80" "0xBF", simplified]
  in_range_cont [of "0xA0" "0xBF", simplified] in_range_cont [of "0x80" "0x9F", simplified]
  in_range_cont [of "0x90" "0xBF", simplified] in_range_cont [of "0x80" "0x8F", simplified]
  in_range_cont [of "0xA0" "0x9F", simplified] in_range_cont [of "0x90" "0x8F", simplified]
  byte_of_char_eq [of "0xE0", simplified] byte_of_char_eq [of "0xED", simplified]
  byte_of_char_eq [of "0xF0", simplified] byte_of_char_eq [of "0xF4", simplified]

lemma tail_high: "tail_ok a bs \<Longrightarrow> x \<in> set bs \<Longrightarrow> 0x80 \<le> char_code x"
  by (cases bs) (auto simp: second_byte_def cont_def list_all_iff split: if_splits)

lemma rune_high:
  assumes "1 < rune_len s" and "x \<in> set (take (rune_len s) s)"
  shows "0x80 \<le> char_code x"
proof -
  from assms(1) obtain a t where s: "s = a # t" by (cases s) auto
  with assms(1) have n: "lead a \<noteq> 1" "rune_len s = lead a" "tail_ok a (take (lead a - 1) t)" "lead a \<noteq> 0"
    by (auto split: if_splits)
  then have "take (rune_len s) s = a # take (lead a - 1) t" by (simp add: s take_Cons')
  moreover have "0x80 \<le> char_code a" using n(1) unfolding lead_1 by simp
  ultimately show ?thesis using assms(2) tail_high [OF n(3)] by auto
qed

lemma second_range:
  "lead a = 2 \<Longrightarrow> in_range 0x80 0xBF (byte_of_char b) \<longleftrightarrow> second_byte a b"
  "lead a = 3 \<Longrightarrow> in_range (if byte_of_char a = 0xE0 then 0xA0 else 0x80) (if byte_of_char a = 0xED then 0x9F else 0xBF)
     (byte_of_char b) \<longleftrightarrow> second_byte a b"
  "lead a = 4 \<Longrightarrow> in_range (if byte_of_char a = 0xF0 then 0x90 else 0x80) (if byte_of_char a = 0xF4 then 0x8F else 0xBF)
     (byte_of_char b) \<longleftrightarrow> second_byte a b"
  by (auto simp: second_byte_def lead_def byte_cont cont_def split: if_splits)

lemma byte_lead:
  "byte_of_char a < 0x80 \<longleftrightarrow> lead a = 1"
  "\<not> byte_of_char a < 0x80 \<Longrightarrow> in_range 0xC2 0xDF (byte_of_char a) \<longleftrightarrow> lead a = 2"
  "\<not> byte_of_char a < 0x80 \<Longrightarrow> in_range 0xE0 0xEF (byte_of_char a) \<longleftrightarrow> lead a = 3"
  "\<not> byte_of_char a < 0x80 \<Longrightarrow> in_range 0xF0 0xF4 (byte_of_char a) \<longleftrightarrow> lead a = 4"
  by (auto simp: lead_def byte_cont cont_def word_less_nat_alt)

lemma utf8_ValidString_rune:
  "utf8_ValidString (a # s) \<longleftrightarrow>
     0 < rune_len (a # s) \<and> utf8_ValidString (drop (rune_len (a # s)) (a # s))"
proof -
  have "lead a \<in> {1, 2, 3, 4, 0}" by (simp add: lead_def)
  then consider "lead a = 1" | "lead a = 2" | "lead a = 3" | "lead a = 4" | "lead a = 0" by auto
  then show ?thesis
  proof cases
    case 1
    then show ?thesis by (simp add: utf8_ValidString_def to_bytes_def byte_lead)
  next
    case 2
    then show ?thesis
      by (cases s) (simp_all add: utf8_ValidString_def to_bytes_def byte_lead second_range)
  next
    case 3
    then show ?thesis
      by (cases s rule: remdups_adj.cases)
        (simp_all add: utf8_ValidString_def to_bytes_def byte_lead second_range byte_cont(4) numeral_2_eq_2 numeral_3_eq_3, blast)
  next
    case 4
    show ?thesis
    proof (cases s rule: remdups_adj.cases)
      case (3 b c t)
      with 4 show ?thesis
        by (cases t) (simp_all add: utf8_ValidString_def to_bytes_def byte_lead second_range byte_cont(4) eval_nat_numeral, blast)
    qed (use 4 in \<open>simp_all add: utf8_ValidString_def to_bytes_def byte_lead\<close>)
  next
    case 5
    then show ?thesis by (simp add: utf8_ValidString_def to_bytes_def byte_lead)
  qed
qed

lemma hex_digit_hex_char [simp]: "d < 16 \<Longrightarrow> hex_digit (hex_char d) = Some d"
  by (auto simp: hex_char_def of_char_of)

lemma unquote_escape_byte:
  assumes "char_code c < 0x80"
  shows "unquote (escape_byte c @ t) = map_option (Cons c) (unquote t)"
proof (cases "htmlSafe c")
  case True
  with assms show ?thesis by (auto simp: escape_byte_def htmlSafe_def)
next
  case False
  have h: "char_code c div 16 < 16" "char_code c mod 16 < 16" "char_code c div 16 * 16 + char_code c mod 16 = char_code c"
    using assms by auto
  have "getu4 (CHR 0x5C # ''u00'' @ [hex_char (char_code c div 16), hex_char (char_code c mod 16)] @ t) = Some (char_code c, t)"
    using h by (simp del: hex_digit.simps) (simp add: Let_def)
  then have "unquote_u (CHR 0x5C # ''u00'' @ [hex_char (char_code c div 16), hex_char (char_code c mod 16)] @ t) = Some ([c], t)"
    using assms by (simp add: unquote_u_def surrogate_def EncodeRune_def del: getu4.simps)
  moreover have "(@) [c] = (#) c" by (simp add: fun_eq_iff)
  ultimately show ?thesis using False by (auto simp: escape_byte_def simple_escape_def)
qed

lemma unquote_copies:
  assumes "1 < rune_len r" and "rune_len r = length r"
  shows "unquote (r @ t) = map_option (append r) (unquote t)"
proof -
  from assms(1) obtain c r' where r: "r = c # r'" by (cases r) auto
  have n: "rune_len (c # r' @ t) = length r" using rune_len_append [of r t] assms r by simp
  have "\<not> char_code c < 0x80" using rune_len_first [of c r'] assms(1) r by simp
  then have "c \<noteq> CHR 0x5C" "c \<noteq> CHR 0x22" "\<not> char_code c < 0x20" "\<not> char_code c < 0x80" by auto
  then show ?thesis using n assms(1,2) r by (simp del: rune_len.simps)
qed

lemma unquote_escape_rune:
  assumes "1 < rune_len r" and "rune_len r = length r"
  shows "unquote (escape_rune r @ t) = map_option (append r) (unquote t)"
proof -
  have "unquote_u (CHR 0x5C # ''u2028'' @ t) = Some (map char_of [0xE2 :: nat, 0x80, 0xA8], t)"
    "unquote_u (CHR 0x5C # ''u2029'' @ t) = Some (map char_of [0xE2 :: nat, 0x80, 0xA9], t)"
    by (simp_all add: unquote_u_def surrogate_def EncodeRune_def Let_def)
  with unquote_copies [OF assms] show ?thesis by (auto simp: escape_rune_def)
qed

lemma unquote_escape: "utf8_ValidString s \<Longrightarrow> unquote (escape s) = Some s"
proof (induction s rule: escape.induct)
  case (2 c s)
  let ?n = "rune_len (c # s)"
  have v: "0 < ?n" "utf8_ValidString (drop ?n (c # s))" using 2(4) utf8_ValidString_rune by blast+
  show ?case
  proof (cases "char_code c < 0x80")
    case True
    with v have "utf8_ValidString s" using rune_len_first [OF v(1)] by simp
    with 2(1) True unquote_escape_byte [OF True] show ?thesis by simp
  next
    case False
    then have "?n \<noteq> 1" using rune_len_first [OF v(1)] by simp
    with v(1) have n: "1 < ?n" by simp
    let ?r = "take ?n (c # s)"
    have r: "rune_len ?r = ?n" by (rule rune_len_take)
    have l: "length ?r = ?n" using rune_len_le [of "c # s"] by (simp only: length_take min_absorb2)
    have "unquote (escape_rune ?r @ escape (drop ?n (c # s))) = map_option (append ?r) (unquote (escape (drop ?n (c # s))))"
      using r l n by (intro unquote_escape_rune) (simp_all only:)
    moreover have "unquote (escape (drop ?n (c # s))) = Some (drop ?n (c # s))" using 2(3) False v by blast
    moreover have "escape (c # s) = escape_rune ?r @ escape (drop ?n (c # s))"
      using False v(1) by (simp only: escape.simps if_False neq0_conv simp_thms) simp
    ultimately show ?thesis by (simp only: option.map append_take_drop_id)
  qed
qed simp

section \<open>The scanner\<close>

text \<open>
  The decoder takes the input byte by byte (\<open>scanner.step\<close>) and keeps a stack of the lists and
  objects that are open.  A mode is one of its step functions; \<open>InString\<close> knows whether the string
  is the name of a member and keeps the bytes of the literal.
\<close>

datatype num_state = StateNeg | State0 | State1 | StateDot | StateDot0 | StateE | StateESign | StateE0

datatype mode =
    Value
  | ValueOrEnd
  | NameOrEnd
  | Name
  | Colon
  | AfterValue
  | InString bool string
  | InEscape bool string
  | InHex nat bool string
  | InLiteral string jvalue
  | InNumber num_state string

datatype frame = Elems "jvalue list" | Members "(string \<times> jvalue) list" string

datatype scanner = Scan mode "frame list" | Finished jvalue | Bad

definition json_space :: "char \<Rightarrow> bool" where
  "json_space c \<longleftrightarrow> c = CHR '' '' \<or> c = CHR 0x09 \<or> c = CHR 0x0D \<or> c = CHR 0x0A"

definition digit :: "char \<Rightarrow> bool" where
  "digit c \<longleftrightarrow> 48 \<le> char_code c \<and> char_code c \<le> 57"

text \<open>A value is complete: the first one of the input is the result.\<close>

fun complete :: "jvalue \<Rightarrow> frame list \<Rightarrow> scanner" where
  "complete v [] = Finished v"
| "complete v (Elems vs # fs) = Scan AfterValue (Elems (vs @ [v]) # fs)"
| "complete v (Members ms k # fs) = Scan AfterValue (Members (ms @ [(k, v)]) k # fs)"

definition stateBeginValue :: "char \<Rightarrow> frame list \<Rightarrow> scanner" where
  "stateBeginValue c fs =
     (if json_space c then Scan Value fs
      else if c = CHR ''{'' then Scan NameOrEnd (Members [] [] # fs)
      else if c = CHR ''['' then Scan ValueOrEnd (Elems [] # fs)
      else if c = CHR 0x22 then Scan (InString False []) fs
      else if c = CHR ''-'' then Scan (InNumber StateNeg [c]) fs
      else if c = CHR ''0'' then Scan (InNumber State0 [c]) fs
      else if digit c then Scan (InNumber State1 [c]) fs
      else if c = CHR ''t'' then Scan (InLiteral ''rue'' (JBool True)) fs
      else if c = CHR ''f'' then Scan (InLiteral ''alse'' (JBool False)) fs
      else if c = CHR ''n'' then Scan (InLiteral ''ull'' JNull) fs
      else Bad)"

definition stateEndValue :: "char \<Rightarrow> frame list \<Rightarrow> scanner" where
  "stateEndValue c fs =
     (if json_space c then Scan AfterValue fs
      else case fs of
        Elems vs # fs' \<Rightarrow>
          if c = CHR '','' then Scan Value fs
          else if c = CHR '']'' then complete (JList vs) fs'
          else Bad
      | Members ms k # fs' \<Rightarrow>
          if c = CHR '','' then Scan Name fs
          else if c = CHR ''}'' then complete (JObj ms) fs'
          else Bad
      | [] \<Rightarrow> Bad)"

text \<open>The end of a string literal.\<close>

definition close_string :: "bool \<Rightarrow> string \<Rightarrow> frame list \<Rightarrow> scanner" where
  "close_string is_name raw fs =
     (case unquote raw of
        None \<Rightarrow> Bad
      | Some t \<Rightarrow>
          if is_name then (case fs of Members ms k # fs' \<Rightarrow> Scan Colon (Members ms t # fs') | _ \<Rightarrow> Bad)
          else complete (JText t) fs)"

text \<open>The states of a number; \<open>None\<close> when the byte does not belong to it.\<close>

fun number_step :: "num_state \<Rightarrow> char \<Rightarrow> num_state option" where
  "number_step StateNeg c = (if c = CHR ''0'' then Some State0 else if digit c then Some State1 else None)"
| "number_step State0 c = (if c = CHR ''.'' then Some StateDot else if c = CHR ''e'' \<or> c = CHR ''E'' then Some StateE else None)"
| "number_step State1 c = (if digit c then Some State1 else if c = CHR ''.'' then Some StateDot
     else if c = CHR ''e'' \<or> c = CHR ''E'' then Some StateE else None)"
| "number_step StateDot c = (if digit c then Some StateDot0 else None)"
| "number_step StateDot0 c = (if digit c then Some StateDot0 else if c = CHR ''e'' \<or> c = CHR ''E'' then Some StateE else None)"
| "number_step StateE c = (if c = CHR ''+'' \<or> c = CHR ''-'' then Some StateESign else if digit c then Some StateE0 else None)"
| "number_step StateESign c = (if digit c then Some StateE0 else None)"
| "number_step StateE0 c = (if digit c then Some StateE0 else None)"

definition number_end :: "num_state \<Rightarrow> bool" where
  "number_end n \<longleftrightarrow> n \<in> {State0, State1, StateDot0, StateE0}"

fun scan :: "char \<Rightarrow> scanner \<Rightarrow> scanner" where
  "scan c (Finished v) = Finished v"
| "scan c Bad = Bad"
| "scan c (Scan Value fs) = stateBeginValue c fs"
| "scan c (Scan ValueOrEnd fs) =
     (if json_space c then Scan ValueOrEnd fs
      else if c = CHR '']'' then (case fs of Elems vs # fs' \<Rightarrow> complete (JList vs) fs' | _ \<Rightarrow> Bad)
      else stateBeginValue c fs)"
| "scan c (Scan NameOrEnd fs) =
     (if json_space c then Scan NameOrEnd fs
      else if c = CHR ''}'' then (case fs of Members ms k # fs' \<Rightarrow> complete (JObj ms) fs' | _ \<Rightarrow> Bad)
      else if c = CHR 0x22 then Scan (InString True []) fs
      else Bad)"
| "scan c (Scan Name fs) =
     (if json_space c then Scan Name fs
      else if c = CHR 0x22 then Scan (InString True []) fs
      else Bad)"
| "scan c (Scan Colon fs) =
     (if json_space c then Scan Colon fs else if c = CHR '':'' then Scan Value fs else Bad)"
| "scan c (Scan AfterValue fs) = stateEndValue c fs"
| "scan c (Scan (InString n raw) fs) =
     (if c = CHR 0x22 then close_string n raw fs
      else if c = CHR 0x5C then Scan (InEscape n (raw @ [c])) fs
      else if char_code c < 0x20 then Bad
      else Scan (InString n (raw @ [c])) fs)"
| "scan c (Scan (InEscape n raw) fs) =
     (if c \<in> {CHR ''b'', CHR ''f'', CHR ''n'', CHR ''r'', CHR ''t'', CHR 0x5C, CHR ''/'', CHR 0x22}
      then Scan (InString n (raw @ [c])) fs
      else if c = CHR ''u'' then Scan (InHex 4 n (raw @ [c])) fs
      else Bad)"
| "scan c (Scan (InHex m n raw) fs) =
     (if hex_digit c = None then Bad
      else if m \<le> 1 then Scan (InString n (raw @ [c])) fs
      else Scan (InHex (m - 1) n (raw @ [c])) fs)"
| "scan c (Scan (InLiteral todo v) fs) =
     (case todo of
        [] \<Rightarrow> Bad
      | x # todo' \<Rightarrow> if c \<noteq> x then Bad else if todo' = [] then complete v fs else Scan (InLiteral todo' v) fs)"
| "scan c (Scan (InNumber n t) fs) =
     (case number_step n c of
        Some n' \<Rightarrow> Scan (InNumber n' (t @ [c])) fs
      | None \<Rightarrow>
          if \<not> number_end n then Bad
          else (case complete (JNum t) fs of
                  Scan AfterValue fs' \<Rightarrow> stateEndValue c fs'
                | st \<Rightarrow> st))"

text \<open>\<open>Decoder.readValue\<close>: the first value of the input; at the end of the input a space is made up.\<close>

definition scan_all :: "string \<Rightarrow> scanner \<Rightarrow> scanner" where
  "scan_all s st = fold scan s st"

definition json_first :: "string \<Rightarrow> jvalue option" where
  "json_first s = (case scan_all (s @ '' '') (Scan Value []) of Finished v \<Rightarrow> Some v | _ \<Rightarrow> None)"

section \<open>Written values are read back\<close>

lemma scan_all_simps [simp]:
  "scan_all [] st = st" "scan_all (c # s) st = scan_all s (scan c st)"
  "scan_all (s @ t) st = scan_all t (scan_all s st)"
  by (simp_all add: scan_all_def)

lemma scan_finished [simp]: "scan_all s (Finished v) = Finished v"
  by (induction s) simp_all

lemma scan_high:
  "list_all (\<lambda>c. 0x80 \<le> char_code c) r \<Longrightarrow> scan_all r (Scan (InString n raw) fs) = Scan (InString n (raw @ r)) fs"
proof (induction r arbitrary: raw)
  case (Cons c r)
  then have "c \<noteq> CHR 0x22" "c \<noteq> CHR 0x5C" "\<not> char_code c < 0x20" by auto
  with Cons show ?case by simp
qed simp

lemma scan_escape_byte:
  assumes "char_code c < 0x80"
  shows "scan_all (escape_byte c) (Scan (InString n raw) fs) = Scan (InString n (raw @ escape_byte c)) fs"
proof -
  have h: "char_code c div 16 < 16" "char_code c mod 16 < 16" using assms by auto
  have "hex_digit (CHR ''0'') = Some 0" by (simp add: Let_def)
  then show ?thesis
    using h by (auto simp: escape_byte_def htmlSafe_def simp del: hex_digit.simps)
qed

lemma scan_escape_rune:
  assumes "1 < rune_len r" and "rune_len r = length r"
  shows "scan_all (escape_rune r) (Scan (InString n raw) fs) = Scan (InString n (raw @ escape_rune r)) fs"
proof -
  have "list_all (\<lambda>c. 0x80 \<le> char_code c) r" using rune_high [OF assms(1)] assms(2) by (simp add: list_all_iff)
  from scan_high [OF this] show ?thesis by (simp add: escape_rune_def Let_def)
qed

lemma scan_escape:
  "scan_all (escape s) (Scan (InString n raw) fs) = Scan (InString n (raw @ escape s)) fs"
proof (induction s arbitrary: raw rule: escape.induct)
  case (2 c s)
  note IH = 2
  let ?n = "rune_len (c # s)"
  consider "char_code c < 0x80" | "\<not> char_code c < 0x80" "?n = 0" | "\<not> char_code c < 0x80" "?n \<noteq> 0" by blast
  then show ?case
  proof cases
    case 1
    with IH(1) [OF 1] scan_escape_byte [OF 1] show ?thesis by simp
  next
    case 2
    with IH(2) [OF 2] show ?thesis by (simp add: Let_def del: rune_len.simps)
  next
    case 3
    let ?r = "take ?n (c # s)"
    have "?n \<noteq> 1" using 3 rune_len_first [of c s] by (metis neq0_conv)
    with 3(2) have "1 < rune_len ?r" "rune_len ?r = length ?r"
      using rune_len_take [of "c # s"] rune_len_le [of "c # s"] by (simp_all only: length_take min_absorb2)
    note scan_escape_rune [OF this]
    with 3 IH(3) [OF 3] show ?thesis by (simp only: escape.simps if_False scan_all_simps append_assoc)
  qed
qed simp

lemma scan_quote:
  assumes "utf8_ValidString s"
  shows "scan_all (quote s) (Scan Value fs) = complete (JText s) fs"
    and "scan_all (quote s) (Scan Name (Members ms k # fs)) = Scan Colon (Members ms s # fs)"
    and "scan_all (quote s) (Scan NameOrEnd (Members ms k # fs)) = Scan Colon (Members ms s # fs)"
  using unquote_escape [OF assms]
  by (simp_all add: quote_def stateBeginValue_def json_space_def scan_escape close_string_def)

text \<open>The values the encoder is used for: no numbers, and all texts in UTF-8.\<close>

fun plain :: "jvalue \<Rightarrow> bool" where
  "plain JNull = True"
| "plain (JBool b) = True"
| "plain (JNum t) = False"
| "plain (JText s) = utf8_ValidString s"
| "plain (JList vs) = list_all plain vs"
| "plain (JObj ms) = list_all (\<lambda>(k, v). utf8_ValidString k \<and> plain v) ms"

definition member_text :: "string \<times> jvalue \<Rightarrow> string" where
  "member_text = (\<lambda>(k, v). quote k @ '':'' @ json_text v)"

lemma strings_Join_Cons: "strings_Join (w # ws) c = (if ws = [] then w else w @ c # strings_Join ws c)"
  by (cases ws) simp_all

lemma text_first:
  assumes "plain v"
  obtains c t where "json_text v = c # t" and "\<not> json_space c" and "c \<noteq> CHR '']''"
  using assms that by (cases v; cases "v = JBool True") (auto simp: quote_def json_space_def split: if_splits)

lemma scan_first:
  assumes "plain v"
  shows "scan_all (json_text v) (Scan ValueOrEnd fs) = scan_all (json_text v) (Scan Value fs)"
proof -
  from assms obtain c t where "json_text v = c # t" "\<not> json_space c" "c \<noteq> CHR '']''" by (rule text_first)
  then show ?thesis by simp
qed

lemma scan_elems:
  assumes "\<And>v fs. v \<in> set vs \<Longrightarrow> scan_all (json_text v) (Scan Value fs) = complete v fs" and "vs \<noteq> []"
  shows "scan_all (strings_Join (map json_text vs) CHR '','') (Scan Value (Elems us # fs)) =
    Scan AfterValue (Elems (us @ vs) # fs)"
  using assms
proof (induction vs arbitrary: us)
  case (Cons v vs)
  then show ?case by (simp add: strings_Join_Cons stateEndValue_def json_space_def)
qed simp

lemma scan_member:
  assumes "\<And>fs. scan_all (json_text v) (Scan Value fs) = complete v fs" and "utf8_ValidString k"
  shows "scan_all (member_text (k, v)) (Scan Name (Members ms k0 # fs)) = Scan AfterValue (Members (ms @ [(k, v)]) k # fs)"
    and "scan_all (member_text (k, v)) (Scan NameOrEnd (Members ms k0 # fs)) = Scan AfterValue (Members (ms @ [(k, v)]) k # fs)"
  using assms by (simp_all add: member_text_def scan_quote json_space_def)

lemma scan_members:
  assumes "\<And>k v fs. (k, v) \<in> set ms \<Longrightarrow> scan_all (json_text v) (Scan Value fs) = complete v fs \<and> utf8_ValidString k"
    and "ms \<noteq> []"
  shows "\<exists>k'. scan_all (strings_Join (map member_text ms) CHR '','') (Scan Name (Members ns k0 # fs)) =
    Scan AfterValue (Members (ns @ ms) k' # fs)"
  using assms
proof (induction ms arbitrary: ns k0)
  case (Cons m ms)
  obtain k v where m: "m = (k, v)" by force
  have s: "scan_all (member_text m) (Scan Name (Members ns k0 # fs)) = Scan AfterValue (Members (ns @ [m]) k # fs)" for ns k0
    unfolding m by (rule scan_member(1)) (use Cons.prems(1) m in auto)
  show ?case
  proof (cases "ms = []")
    case False
    have "\<exists>k'. scan_all (strings_Join (map member_text ms) CHR '','') (Scan Name (Members (ns @ [m]) k # fs)) =
        Scan AfterValue (Members ((ns @ [m]) @ ms) k' # fs)"
      by (rule Cons.IH) (use Cons.prems(1) False in auto)
    with False show ?thesis by (simp add: strings_Join_Cons s stateEndValue_def json_space_def)
  qed (simp add: s)
qed simp

lemma json_text_Obj: "json_text (JObj ms) = ''{'' @ strings_Join (map member_text ms) CHR '','' @ ''}''"
  by (simp add: member_text_def)

lemma scan_object:
  assumes "\<And>k v fs. (k, v) \<in> set ms \<Longrightarrow> scan_all (json_text v) (Scan Value fs) = complete v fs \<and> utf8_ValidString k"
  shows "scan_all (json_text (JObj ms)) (Scan Value fs) = complete (JObj ms) fs"
proof (cases ms)
  case Nil
  then show ?thesis by (simp add: stateBeginValue_def json_space_def)
next
  case (Cons m ms')
  obtain k v where m: "m = (k, v)" by force
  have first: "scan_all (member_text m) (Scan NameOrEnd (Members [] [] # fs)) =
      scan_all (member_text m) (Scan Name (Members [] [] # fs))"
    unfolding m by (subst scan_member(1); (subst scan_member(2))?) (use assms Cons m in auto)
  have "scan_all (strings_Join (map member_text ms) CHR '','') (Scan NameOrEnd (Members [] [] # fs)) =
      scan_all (strings_Join (map member_text ms) CHR '','') (Scan Name (Members [] [] # fs))"
    using first by (simp add: Cons strings_Join_Cons)
  with scan_members [of ms "[]" "[]" fs, OF assms] Cons show ?thesis
    unfolding json_text_Obj by (auto simp: stateBeginValue_def stateEndValue_def json_space_def)
qed

lemma scan_text: "plain v \<Longrightarrow> scan_all (json_text v) (Scan Value fs) = complete v fs"
proof (induction v arbitrary: fs rule: json_text.induct)
  case (5 vs)
  show ?case
  proof (cases vs)
    case Nil
    then show ?thesis by (simp add: stateBeginValue_def json_space_def)
  next
    case (Cons v vs')
    have p: "plain v" using 5(2) Cons by simp
    have "scan_all (strings_Join (map json_text vs) CHR '','') (Scan ValueOrEnd (Elems [] # fs)) =
        scan_all (strings_Join (map json_text vs) CHR '','') (Scan Value (Elems [] # fs))"
      using scan_first [OF p] by (simp add: Cons strings_Join_Cons)
    also have "\<dots> = Scan AfterValue (Elems ([] @ vs) # fs)"
      by (rule scan_elems) (use 5 Cons in \<open>auto simp: list_all_iff\<close>)
    finally show ?thesis by (simp add: stateBeginValue_def stateEndValue_def json_space_def)
  qed
next
  case (6 ms)
  then show ?case by (intro scan_object) (fastforce simp: list_all_iff)
qed (simp_all add: stateBeginValue_def json_space_def digit_def scan_quote)

section \<open>Storing an object in a struct\<close>

text \<open>
  A struct all of whose fields are strings is the list of their values, next to the list of their
  names in the encoding.  Names are compared as \<open>equalFoldRight\<close> does, which is the comparison for
  names that contain an s or a k, as all names of the program do: the letters by their upper case,
  and a byte above ASCII only as the Kelvin sign or the long s.
\<close>

definition upper_code :: "char \<Rightarrow> nat" where
  "upper_code c = (if 97 \<le> char_code c \<and> char_code c \<le> 122 then char_code c - 32 else char_code c)"

definition letter :: "char \<Rightarrow> bool" where
  "letter c \<longleftrightarrow> 65 \<le> upper_code c \<and> upper_code c \<le> 90"

fun equalFoldRight :: "string \<Rightarrow> string \<Rightarrow> bool" where
  "equalFoldRight [] t = (t = [])"
| "equalFoldRight (a # s) [] = False"
| "equalFoldRight (a # s) (b # t) =
     (if char_code b < 0x80 then (a = b \<or> letter a \<and> upper_code a = upper_code b) \<and> equalFoldRight s t
      else if upper_code a = 83 then take 2 (b # t) = map char_of [0xC5 :: nat, 0xBF] \<and> equalFoldRight s (drop 1 t)
      else if upper_code a = 75 then
        take 3 (b # t) = map char_of [0xE2 :: nat, 0x84, 0xAA] \<and> equalFoldRight s (drop 2 t)
      else False)"

text \<open>The field of a name: an exact match, or the first one without case.\<close>

definition field_of :: "string list \<Rightarrow> string \<Rightarrow> string option" where
  "field_of names k = (if k \<in> set names then Some k else find (\<lambda>nm. equalFoldRight nm k) names)"

type_synonym struct = "string \<rightharpoonup> string"

text \<open>A member that is no string is an error, which the decoder remembers while it goes on; \<open>null\<close>
  changes nothing.\<close>

definition store_member :: "string list \<Rightarrow> string \<times> jvalue \<Rightarrow> struct \<times> bool \<Rightarrow> struct \<times> bool" where
  "store_member names m st =
     (case field_of names (fst m) of
        None \<Rightarrow> st
      | Some nm \<Rightarrow>
          (case snd m of
             JText t \<Rightarrow> ((fst st)(nm \<mapsto> t), snd st)
           | JNull \<Rightarrow> st
           | _ \<Rightarrow> (fst st, True)))"

text \<open>\<open>decoder.Decode\<close> into such a struct, which starts with empty fields; \<open>None\<close> is an error.\<close>

definition Decode :: "string list \<Rightarrow> string \<Rightarrow> struct option" where
  "Decode names body =
     (let zero = (\<lambda>k. if k \<in> set names then Some [] else None)
      in case json_first body of
           None \<Rightarrow> None
         | Some (JObj ms) \<Rightarrow>
             (case fold (store_member names) ms (zero, False) of (st, failed) \<Rightarrow> if failed then None else Some st)
         | Some JNull \<Rightarrow> Some zero
         | Some _ \<Rightarrow> None)"

section \<open>The round trip\<close>

text \<open>
  What the encoder writes is what the decoder reads: for every value made of texts in UTF-8, truth
  values, lists and objects, however deeply nested, the scanner of the decoder finds exactly that
  value at the start of its encoding, whatever follows; all escapes, of quotes, control characters,
  of the characters of HTML and of the line separators of Unicode, are undone.
\<close>

lemma json_first_text: "plain v \<Longrightarrow> json_first (json_text v @ rest) = Some v"
  using scan_text [of v "[]"] by (simp add: json_first_def)

end
