(* ===== verification/Http_Binding.thy ===== *)
theory Http_Binding
  imports Json Http
begin

text \<open>
  What a request brings and what an answer looks like on the wire
  (\<open>src/vender/src/github.com/gin-gonic/gin/binding\<close>, \<open>src/vender/src/gopkg.in/go-playground/validator.v8\<close>,
  \<open>src/service/httpservice/task.go\<close>): the body of a request is decoded into the struct of its handler and every field is
  required; the answer is encoded with its keys in order.
\<close>

section \<open>Requests\<close>

text \<open>The check of a field with the tag \<open>required\<close>, and of a struct of such fields: the names of the
  fields that fail.\<close>

definition HasValue :: "string \<Rightarrow> bool" where
  "HasValue v \<longleftrightarrow> v \<noteq> []"

definition validate_fields :: "string list \<Rightarrow> struct \<Rightarrow> string list" where
  "validate_fields names st = filter (\<lambda>nm. \<not> HasValue (the (st nm))) names"

definition decodeJSON :: "string list \<Rightarrow> string \<Rightarrow> struct result" where
  "decodeJSON names body =
     (case Decode names body of
        None \<Rightarrow> Inl (ExtError ''json'')
      | Some st \<Rightarrow> if validate_fields names st \<noteq> [] then Inl (ExtError ''required'') else Inr st)"

text \<open>The three handlers.\<close>

definition bind_shell :: "string \<Rightarrow> shell_request result" where
  "bind_shell body =
     (case decodeJSON [''taskcmd'', ''taskip''] body of
        Inl err \<Rightarrow> Inl err
      | Inr st \<Rightarrow> Inr \<lparr>Taskcmd = the (st ''taskcmd''), TaskIp = the (st ''taskip'')\<rparr>)"

definition bind_task :: "string \<Rightarrow> string result" where
  "bind_task body =
     (case decodeJSON [''taskid''] body of Inl err \<Rightarrow> Inl err | Inr st \<Rightarrow> Inr (the (st ''taskid'')))"

definition bind_file :: "string \<Rightarrow> file_request result" where
  "bind_file body =
     (case decodeJSON [''srcfilename'', ''dstfilename'', ''ipstr''] body of
        Inl err \<Rightarrow> Inl err
      | Inr st \<Rightarrow> Inr \<lparr>Srcfilename = the (st ''srcfilename''), Dstfilename = the (st ''dstfilename''), Ipstr = the (st ''ipstr'')\<rparr>)"

section \<open>Answers\<close>

text \<open>\<open>gin.H\<close> and the entries of a result are maps, which are written with their keys in order; a list
  nothing was appended to is \<open>nil\<close> and written as \<open>null\<close>.\<close>

definition map_value :: "(string \<rightharpoonup> string) \<Rightarrow> jvalue" where
  "map_value m = JObj (map (\<lambda>k. (k, JText (the (m k)))) (sorted_list_of_set (dom m)))"

fun msg_value :: "json \<Rightarrow> jvalue" where
  "msg_value (JString s) = JText s"
| "msg_value (JArray ms) = (if ms = [] then JNull else JList (map map_value ms))"

definition response_value :: "response \<Rightarrow> jvalue" where
  "response_value r = JObj [(''Msg'', msg_value (rsp_Msg r)), (''Status'', JText (rsp_Status r))]"

definition encode_response :: "response \<Rightarrow> string" where
  "encode_response r = json_text (response_value r) @ [CHR 0x0A]"

section \<open>Lemmas\<close>

text \<open>What a handler gets has no empty field.\<close>

lemma decodeJSON_required: "decodeJSON names body = Inr st \<Longrightarrow> nm \<in> set names \<Longrightarrow> the (st nm) \<noteq> []"
  by (auto simp: decodeJSON_def validate_fields_def HasValue_def filter_empty_conv split: option.splits if_splits)

lemma bind_required:
  "bind_shell body = Inr q \<Longrightarrow> Taskcmd q \<noteq> [] \<and> TaskIp q \<noteq> []"
  "bind_task body = Inr t \<Longrightarrow> t \<noteq> []"
  "bind_file body = Inr f \<Longrightarrow> Srcfilename f \<noteq> [] \<and> Dstfilename f \<noteq> [] \<and> Ipstr f \<noteq> []"
  by (auto simp: bind_shell_def bind_task_def bind_file_def dest: decodeJSON_required split: sum.splits)

text \<open>A request as a client would write it, with anything behind it.\<close>

lemma ascii_names: "utf8_ValidString ''taskcmd''" "utf8_ValidString ''taskip''" "utf8_ValidString ''taskid''"
  "utf8_ValidString ''Msg''" "utf8_ValidString ''Status''" "utf8_ValidString ''ip''" "utf8_ValidString ''status''"
  "utf8_ValidString ''output''" "utf8_ValidString ''success''" "utf8_ValidString ''Success''"
  "utf8_ValidString ''srcfilename''" "utf8_ValidString ''dstfilename''" "utf8_ValidString ''ipstr''"
  "utf8_ValidString ''Send File Success''"
  by code_simp+

definition shell_body :: "string \<Rightarrow> string \<Rightarrow> string" where
  "shell_body cmd ip = json_text (JObj [(''taskcmd'', JText cmd), (''taskip'', JText ip)])"

definition task_body :: "string \<Rightarrow> string" where
  "task_body t = json_text (JObj [(''taskid'', JText t)])"

definition file_body :: "string \<Rightarrow> string \<Rightarrow> string \<Rightarrow> string" where
  "file_body src dst ip = json_text (JObj [(''srcfilename'', JText src), (''dstfilename'', JText dst), (''ipstr'', JText ip)])"

lemma bind_shell_body:
  assumes "utf8_ValidString cmd" and "utf8_ValidString ip" and "cmd \<noteq> []" and "ip \<noteq> []"
  shows "bind_shell (shell_body cmd ip @ rest) = Inr \<lparr>Taskcmd = cmd, TaskIp = ip\<rparr>"
proof -
  have "plain (JObj [(''taskcmd'', JText cmd), (''taskip'', JText ip)])" using assms ascii_names by simp
  from json_first_text [OF this, of rest] assms(3,4) show ?thesis
    by (simp add: bind_shell_def shell_body_def decodeJSON_def Decode_def store_member_def field_of_def
        validate_fields_def HasValue_def)
qed

lemma bind_task_body:
  assumes "utf8_ValidString t" and "t \<noteq> []"
  shows "bind_task (task_body t @ rest) = Inr t"
proof -
  have "plain (JObj [(''taskid'', JText t)])" using assms ascii_names by simp
  from json_first_text [OF this, of rest] assms(2) show ?thesis
    by (simp add: bind_task_def task_body_def decodeJSON_def Decode_def store_member_def field_of_def
        validate_fields_def HasValue_def)
qed

lemma bind_file_body:
  assumes "utf8_ValidString src" and "utf8_ValidString dst" and "utf8_ValidString ip"
    and "src \<noteq> []" and "dst \<noteq> []" and "ip \<noteq> []"
  shows "bind_file (file_body src dst ip @ rest) = Inr \<lparr>Srcfilename = src, Dstfilename = dst, Ipstr = ip\<rparr>"
proof -
  have "plain (JObj [(''srcfilename'', JText src), (''dstfilename'', JText dst), (''ipstr'', JText ip)])"
    using assms ascii_names by simp
  from json_first_text [OF this, of rest] assms(4-6) show ?thesis
    by (simp add: bind_file_def file_body_def decodeJSON_def Decode_def store_member_def field_of_def
        validate_fields_def HasValue_def)
qed

text \<open>A client that decodes an answer finds what the handler put in.\<close>

lemma response_read_back: "plain (response_value r) \<Longrightarrow> json_first (encode_response r) = Some (response_value r)"
  by (simp only: encode_response_def json_first_text)

section \<open>What is bound\<close>

text \<open>The texts an object gives to a field, and whether it gives a value that is no text to one.\<close>

definition field_texts :: "string list \<Rightarrow> (string \<times> jvalue) list \<Rightarrow> string \<Rightarrow> string list" where
  "field_texts names ms nm =
     List.map_filter (\<lambda>(k, v). case v of JText t \<Rightarrow> if field_of names k = Some nm then Some t else None | _ \<Rightarrow> None) ms"

definition wrong_kind :: "string list \<Rightarrow> string \<times> jvalue \<Rightarrow> bool" where
  "wrong_kind names m \<longleftrightarrow> field_of names (fst m) \<noteq> None \<and> (case snd m of JText t \<Rightarrow> False | JNull \<Rightarrow> False | _ \<Rightarrow> True)"

lemma field_texts_simps:
  "field_texts names [] nm = []"
  "field_texts names ((k, JText t) # ms) nm =
     (if field_of names k = Some nm then t # field_texts names ms nm else field_texts names ms nm)"
  "(\<And>t. v \<noteq> JText t) \<Longrightarrow> field_texts names ((k, v) # ms) nm = field_texts names ms nm"
  by (auto simp: field_texts_def map_filter_simps split: jvalue.splits)

lemma field_of_in: "field_of names k = Some nm \<Longrightarrow> nm \<in> set names"
  by (auto simp: field_of_def find_Some_iff split: if_splits)

lemma store_member_simps:
  "store_member names (k, JText t) (st, f) = (case field_of names k of None \<Rightarrow> st | Some nm \<Rightarrow> st(nm \<mapsto> t), f)"
  "(\<And>t. v \<noteq> JText t) \<Longrightarrow> store_member names (k, v) (st, f) = (st, f \<or> wrong_kind names (k, v))"
  "\<not> wrong_kind names (k, JText t)"
  by (auto simp: store_member_def wrong_kind_def split: option.splits jvalue.splits)

lemma store_members:
  "fold (store_member names) ms (st, f) =
     ((\<lambda>nm. if field_texts names ms nm = [] then st nm else Some (last (field_texts names ms nm))),
      f \<or> list_ex (wrong_kind names) ms)"
proof (induction ms arbitrary: st f)
  case (Cons m ms)
  obtain k v where m: "m = (k, v)" by force
  show ?case
  proof (cases "\<exists>t. v = JText t")
    case True
    then obtain t where v: "v = JText t" by blast
    show ?thesis
      by (cases "field_of names k") (auto simp: m v Cons store_member_simps field_texts_simps fun_eq_iff)
  next
    case False
    then have v: "v \<noteq> JText t" for t by blast
    show ?thesis by (simp add: m Cons store_member_simps(2) [OF v] field_texts_simps(3) [OF v] cong: if_cong)
  qed
qed (simp add: field_texts_simps)

lemma field_texts_known: "field_texts names ms nm \<noteq> [] \<Longrightarrow> nm \<in> set names"
proof (induction ms)
  case (Cons m ms)
  obtain k v where m: "m = (k, v)" by force
  show ?case
  proof (cases "\<exists>t. v = JText t")
    case True
    with Cons show ?thesis by (auto simp: m field_texts_simps dest: field_of_in split: if_splits)
  next
    case False
    then have "field_texts names (m # ms) nm = field_texts names ms nm"
      unfolding m by (intro field_texts_simps) blast
    with Cons show ?thesis by simp
  qed
qed (simp add: field_texts_simps)

section \<open>Properties\<close>



end
