(* ===== verification/Http_Service.thy ===== *)
theory Http_Service
  imports Http_Routes Gin_Context Server_Steps Http_Binding
begin

text \<open>
  The HTTP interface as a whole: a request comes in, the router finds the chain, the chain runs the
  handler of the program (\<open>src/service/httpservice/task.go\<close>) on the server and on etcd, and the
  framework writes the answer.  What a request brings with it, its body and the state of the clock, the
  files and the source of random numbers, and the texts of redirects are given by a record.
\<close>

section \<open>The handlers in the framework\<close>

record 'e http_world =
  hw_server :: TcpServer
  hw_etcd :: 'e

record http_input =
  inp_now :: int
  inp_order :: "string list"
  inp_random :: nat
  inp_body :: string
  inp_files :: "string \<Rightarrow> os_file result"
  broken_pipe :: "error \<Rightarrow> bool"
  redirect_text :: "string \<Rightarrow> int \<Rightarrow> string \<times> string"

text \<open>What the handler of a route does to the world, and what it answers.\<close>

fun handler_answer ::
    "'e etcd_api \<Rightarrow> Conf \<Rightarrow> http_input \<Rightarrow> http_handler \<Rightarrow> 'e http_world \<Rightarrow> (response \<times> 'e http_world) option" where
  "handler_answer api cf inp H_RemoteShellRun w =
     (case http_RemoteShellRun api cf (inp_now inp) (inp_order inp) (inp_random inp) (bind_shell (inp_body inp))
             (hw_server w) (hw_etcd w) of
        (r, s, e) \<Rightarrow> Some (r, \<lparr>hw_server = s, hw_etcd = e\<rparr>))"
| "handler_answer api cf inp H_GetShellResult w = Some (GetShellResult api (bind_task (inp_body inp)) (hw_etcd w), w)"
| "handler_answer api cf inp H_FileTrans w =
     (case http_FileTrans (inp_files inp) cf (inp_now inp) (inp_order inp) (bind_file (inp_body inp)) (hw_server w) of
        (r, s) \<Rightarrow> Some (r, w\<lparr>hw_server := s\<rparr>))"
| "handler_answer api cf inp H_Logger w = None"
| "handler_answer api cf inp H_Recovery w = None"

definition reply :: "response \<Rightarrow> 'e http_world \<Rightarrow> 'e http_world Context \<Rightarrow> (bool \<times> 'e http_world Context) called" where
  "reply r w c =
     (case Context_JSON (http_status r) (Inr (encode_response r)) (ctx_writer c) of
        Done wr \<Rightarrow> Done (False, c\<lparr>ctx_writer := wr, ctx_world := w\<rparr>)
      | Raised err wr \<Rightarrow> Raised err (False, c\<lparr>ctx_writer := wr, ctx_world := w\<rparr>))"

fun http_impl :: "'e etcd_api \<Rightarrow> Conf \<Rightarrow> http_input \<Rightarrow> http_handler \<Rightarrow> 'e http_world Context handler" where
  "http_impl api cf inp H_Logger = Logger"
| "http_impl api cf inp H_Recovery = Recovery (broken_pipe inp)"
| "http_impl api cf inp h =
     Runs (\<lambda>c. case handler_answer api cf inp h (ctx_world c) of
                  None \<Rightarrow> Done (False, c)
                | Some (r, w) \<Rightarrow> reply r w c)"

definition http_serve ::
    "'e etcd_api \<Rightarrow> Conf \<Rightarrow> http_input \<Rightarrow> (http_handler list node \<Rightarrow> string \<Rightarrow> bool \<Rightarrow> string option) \<Rightarrow> nat \<Rightarrow>
     http_handler Engine \<Rightarrow> Request \<Rightarrow> http_writer \<Rightarrow> (int \<times> int) list \<Rightarrow> 'e http_world \<Rightarrow> 'e http_world Context called option run" where
  "http_serve api cf inp ci cap router req out lg w =
     ServeHTTP (http_impl api cf inp) (redirect_text inp) ci cap router req out lg w"

text \<open>A writer as \<open>net/http\<close> hands it to a handler.\<close>

definition fresh_writer :: "out_event list \<Rightarrow> http_writer" where
  "fresh_writer evs = \<lparr>out_status = None, out_type = [], out_location = [], out_body = [], out_script = evs\<rparr>"

section \<open>Lemmas\<close>

lemma run_handlers_chain:
  "length hs < abortIndex \<Longrightarrow> run_handlers hs c = Some (chain hs c)"
  using Next_loop_chain [of hs 0 "Suc (length hs)" c]
  by (auto simp: run_handlers_def Next_def ends_as_def split: called.splits simp del: Next_loop.simps)

lemmas writer_defs = rw_reset_def Written_def WriteHeader_def WriteHeaderNow_def rw_Write_def set_type_def
  writeContentType_def net_WriteHeader_def net_Write_def fresh_writer_def

lemma handler_answer_status: "handler_answer api cf inp h w = Some (r, w') \<Longrightarrow> http_status r = 200 \<or> http_status r = 400"
  by (cases h)
    (auto simp: http_RemoteShellRun_def GetShellResult_def http_FileTrans_def success_def failed_def StatusOK_def
      StatusBadRequest_def Let_def split: sum.splits prod.splits)

text \<open>What the client gets when the handler has answered \<open>r\<close> and the writes end as \<open>evs\<close> says.\<close>

definition answer_sent :: "out_event list \<Rightarrow> response \<Rightarrow> http_writer \<Rightarrow> bool" where
  "answer_sent evs r out \<longleftrightarrow>
     out_status out = Some (http_status r) \<and> out_type out = json_type \<and>
     out_body out = (case evs of OutErr n e # _ \<Rightarrow> take n (encode_response r) | _ \<Rightarrow> encode_response r)"

text \<open>\<open>c.JSON\<close> on a writer nothing has been written to.\<close>

definition json_sent :: "int \<Rightarrow> out_event list \<Rightarrow> string \<Rightarrow> responseWriter" where
  "json_sent code evs d =
     \<lparr>rw_size = int (length d), rw_status = code,
      rw_out = \<lparr>out_status = Some code, out_type = json_type, out_location = [], out_body = d, out_script = evs\<rparr>\<rparr>"

lemma json_sent_out [simp]:
  "out_status (rw_out (json_sent code evs d)) = Some code" "out_type (rw_out (json_sent code evs d)) = json_type"
  "out_body (rw_out (json_sent code evs d)) = d"
  by (simp_all add: json_sent_def)

lemma Context_JSON_fresh:
  assumes "code = 200 \<or> code = 400"
  shows "Context_JSON code (Inr b) (rw_reset (fresh_writer [])) = Done (json_sent code [] b)"
    and "Context_JSON code (Inr b) (rw_reset (fresh_writer (OutOk # evs))) = Done (json_sent code evs b)"
    and "Context_JSON code (Inr b) (rw_reset (fresh_writer (OutErr n e # evs))) = Raised e (json_sent code evs (take n b))"
  using assms
  by (auto simp: Context_JSON_def bodyAllowedForStatus_def json_sent_def writer_defs Let_def)

text \<open>The chain of a route: whatever happens to the answer, the request ends, and the world is what
  the handler made of it.\<close>

lemma route_chain:
  assumes h: "handler_answer api cf inp h w = Some (r, w')"
    and c: "c = \<lparr>ctx_writer = rw_reset (fresh_writer evs), ctx_Errors = [], gin_log = lg, ctx_world = w\<rparr>"
  shows "\<exists>c'. chain (map (http_impl api cf inp) [H_Logger, H_Recovery, h]) c = Done c' \<and> ctx_world c' = w' \<and>
    answer_sent evs r (rw_out (WriteHeaderNow (ctx_writer c')))"
proof -
  have i: "http_impl api cf inp h = Runs (\<lambda>c. case handler_answer api cf inp h (ctx_world c) of
      None \<Rightarrow> Done (False, c) | Some (r, w) \<Rightarrow> reply r w c)"
    using h by (cases h) simp_all
  note json = Context_JSON_fresh [OF handler_answer_status [OF h]]
  have sent: "WriteHeaderNow (json_sent code evs d) = json_sent code evs d"
    "WriteHeaderNow (WriteHeader 500 (json_sent code evs d)) = json_sent code evs d\<lparr>rw_status := 500\<rparr>"
    "WriteHeaderNow (json_sent code evs d\<lparr>rw_status := 500\<rparr>) = json_sent code evs d\<lparr>rw_status := 500\<rparr>" for code evs d
    by (auto simp: WriteHeaderNow_def WriteHeader_def Written_def json_sent_def)
  show ?thesis
  proof (cases evs)
    case Nil
    then show ?thesis by (simp add: i h c Logger_def Recovery_def reply_def json answer_sent_def sent)
  next
    case (Cons ev evs')
    then show ?thesis
      by (cases ev) (auto simp: i h c Logger_def Recovery_def reply_def json answer_sent_def AbortWithStatus_def sent)
  qed
qed

text \<open>The chain that answers an unknown path, and the two redirects.\<close>

lemma not_found_chain:
  fixes w :: "'e http_world"
  assumes c: "c = \<lparr>ctx_writer = rw_reset (fresh_writer evs), ctx_Errors = [], gin_log = lg, ctx_world = w\<rparr>"
  shows "\<exists>c'. serveError 404 msg (map (http_impl api cf inp) [H_Logger, H_Recovery]) c = Some (Done c') \<and>
    ctx_world c' = w \<and> out_status (rw_out (ctx_writer c')) = Some 404"
  by (simp add: serveError_def run_handlers_chain abortIndex_def c Logger_def Recovery_def writer_defs Let_def
      split: prod.splits list.splits out_event.splits)

lemma redirect_status:
  "out_status (rw_out (send_redirect rt m code url (rw_reset (fresh_writer evs)))) = Some code" if "code > 0"
  using that
  by (auto simp: send_redirect_def writer_defs Let_def split: prod.splits list.splits out_event.splits)

lemma InitRouter_opened:
  "InitRouter openFile cf = Some (Returns router) \<Longrightarrow>
     openFile (GetStr cf ''server'' ''logdir'' @ ''/'' @ GetStr cf ''server'' ''httplogname'') = None"
  by (simp add: InitRouter_def split: option.splits)

lemma routes_cases:
  assumes "map_of routes mp = Some hs"
  obtains h where "hs = [H_Logger, H_Recovery, h]" and "h \<in> {H_RemoteShellRun, H_GetShellResult, H_FileTrans}"
  using map_of_SomeD [OF assms] by (auto simp: routes_def)

lemma handler_answer_Some:
  "h \<in> {H_RemoteShellRun, H_GetShellResult, H_FileTrans} \<Longrightarrow> \<exists>r w'. handler_answer api cf inp h w = Some (r, w')"
  by (auto split: prod.splits)

lemma http_serve_ends:
  assumes "InitRouter openFile cf = Some (Returns router)"
  shows "\<exists>c'. http_serve api cf inp ci cap router req (fresh_writer evs) lg w = Returns (Some (Done c')) \<and>
    (case map_of routes (req_Method req, clean_elements (url_Path req)) of
       None \<Rightarrow> ctx_world c' = w \<and> out_status (rw_out (ctx_writer c')) \<in> {Some 301, Some 307, Some 404}
     | Some hs \<Rightarrow>
         \<exists>r. handler_answer api cf inp (last hs) w = Some (r, ctx_world c') \<and>
           answer_sent evs r (rw_out (ctx_writer c')))"
proof -
  let ?c = "\<lparr>ctx_writer = rw_reset (fresh_writer evs), ctx_Errors = [], gin_log = lg, ctx_world = w\<rparr>"
  have serves: "case map_of routes (req_Method req, clean_elements (url_Path req)) of
         Some hs \<Rightarrow> \<exists>f. handleHTTPRequest ci cap router req = Returns (Serve hs [] f)
       | None \<Rightarrow> handleHTTPRequest ci cap router req \<in>
           {Returns (redirectTrailingSlash req), Returns (ServeError 404 [H_Logger, H_Recovery])}"
    using InitRouter_serves [of openFile cf, OF InitRouter_opened [OF assms]] assms by auto
  show ?thesis
  proof (cases "map_of routes (req_Method req, clean_elements (url_Path req))")
    case None
    with serves consider "handleHTTPRequest ci cap router req = Returns (redirectTrailingSlash req)"
      | "handleHTTPRequest ci cap router req = Returns (ServeError 404 [H_Logger, H_Recovery])" by auto
    then show ?thesis
    proof cases
      case 1
      have "0 < redirect_code req" "redirect_code req \<in> {301, 307}" by (simp_all add: redirect_code_def)
      with 1 None redirect_status [of "redirect_code req"] show ?thesis
        by (auto simp: http_serve_def ServeHTTP_def redirectTrailingSlash_def Let_def)
    next
      case 2
      with None not_found_chain [of ?c evs lg w "''404 page not found''" api cf inp] show ?thesis
        by (auto simp: http_serve_def ServeHTTP_def)
    qed
  next
    case (Some hs)
    then obtain h where h: "hs = [H_Logger, H_Recovery, h]" "h \<in> {H_RemoteShellRun, H_GetShellResult, H_FileTrans}"
      by (rule routes_cases)
    obtain r w' where r: "handler_answer api cf inp h w = Some (r, w')" using handler_answer_Some [OF h(2)] by blast
    obtain c' where c': "chain (map (http_impl api cf inp) hs) ?c = Done c'" "ctx_world c' = w'"
      "answer_sent evs r (rw_out (WriteHeaderNow (ctx_writer c')))"
      using route_chain [OF r refl] h(1) by blast
    have "run_handlers (map (http_impl api cf inp) hs) ?c = Some (Done c')"
      using run_handlers_chain [of "map (http_impl api cf inp) hs" ?c] c'(1) h(1) by (simp add: abortIndex_def)
    with serves Some c'(2,3) r h(1) show ?thesis by (auto simp: http_serve_def ServeHTTP_def)
  qed
qed

lemma handler_answer_step:
  assumes "\<not> down w" and "visits (inp_order inp) (srv w)"
    and "handler_answer api cf inp h \<lparr>hw_server = srv w, hw_etcd = etcd w\<rparr> = Some (r, v)"
  shows "(srv_step api cf)\<^sup>=\<^sup>= w (w\<lparr>srv := hw_server v, etcd := hw_etcd v\<rparr>)"
proof (cases h)
  case H_RemoteShellRun
  show ?thesis
  proof (cases "bind_shell (inp_body inp)")
    case (Inr q)
    obtain res s e where "RemoteShellRun api cf (inp_now inp) (inp_order inp) (inp_random inp) (Taskcmd q)
        (strings_Split (TaskIp q) CHR '','') (srv w) (etcd w) = (res, s, e)" by (metis prod.exhaust)
    moreover from shell [OF assms(1,2) this] have "srv_step api cf w (w\<lparr>srv := s, etcd := e\<rparr>)" .
    ultimately show ?thesis using assms(3) H_RemoteShellRun Inr by (auto simp: http_RemoteShellRun_def)
  qed (use assms(3) H_RemoteShellRun in \<open>auto simp: http_RemoteShellRun_def\<close>)
next
  case H_FileTrans
  show ?thesis
  proof (cases "bind_file (inp_body inp)")
    case (Inr q)
    obtain res s where "RemoteFileSend (inp_files inp) cf (inp_now inp) (inp_order inp) (Srcfilename q) (Dstfilename q)
        (strings_Split (Ipstr q) CHR '','') (srv w) = (res, s)" by (metis prod.exhaust)
    moreover from file_send [OF assms(1,2) this] have "srv_step api cf w (w\<lparr>srv := s, etcd := etcd w\<rparr>)" by simp
    ultimately show ?thesis using assms(3) H_FileTrans Inr by (auto simp: http_FileTrans_def)
  qed (use assms(3) H_FileTrans in \<open>auto simp: http_FileTrans_def\<close>)
qed (use assms(3) in auto)

section \<open>Properties\<close>

text \<open>
  C16. The HTTP interface as a whole: on the router the program builds, every request is answered and no
  panic leaves the framework, whatever the network does to the answer.  A request for one of the three routes, however its path is
  written, has exactly the effect of its handler on the server and on etcd, and the client gets the
  status and the encoded answer of that handler (a prefix of it when the write fails); every other request changes nothing and is redirected or answered with 404.
\<close>

theorem http_request_answered:
  assumes "InitRouter openFile cf = Some (Returns router)"
  shows "\<exists>c'. http_serve api cf inp ci cap router req (fresh_writer evs) lg w = Returns (Some (Done c')) \<and>
    (case map_of routes (req_Method req, clean_elements (url_Path req)) of
       None \<Rightarrow> ctx_world c' = w \<and> out_status (rw_out (ctx_writer c')) \<in> {Some 301, Some 307, Some 404}
     | Some hs \<Rightarrow>
         \<exists>r. handler_answer api cf inp (last hs) w = Some (r, ctx_world c') \<and>
           answer_sent evs r (rw_out (ctx_writer c')))"
  using assms by (rule http_serve_ends)

text \<open>A request for the result of a task nobody has started.\<close>

definition demo_input :: http_input where
  "demo_input =
     \<lparr>inp_now = 0, inp_order = [], inp_random = 7, inp_body = task_body ''000007'',
      inp_files = (\<lambda>_. Inl (ExtError ''no such file'')), broken_pipe = (\<lambda>_. False), redirect_text = (\<lambda>u _. (u, []))\<rparr>"

lemma demo_task: "bind_task (inp_body demo_input) = Inr ''000007''"
proof -
  have "utf8_ValidString ''000007''" by code_simp
  from bind_task_body [OF this, of "[]"] show ?thesis by (simp add: demo_input_def)
qed

definition demo_request :: Request where
  "demo_request = \<lparr>req_Method = ''GET'', url_Path = ''/api/v1//agent/getShellResult'', url_RawPath = [], X_Forwarded_Prefix = []\<rparr>"

theorem http_request_answered_witness:
  "\<exists>router c'. InitRouter (\<lambda>_. None) sample_conf = Some (Returns router) \<and>
     http_serve mem_api sample_conf demo_input (\<lambda>_ _ _. None) 0 router demo_request (fresh_writer []) []
       \<lparr>hw_server = InitServer, hw_etcd = []\<rparr> = Returns (Some (Done c')) \<and>
     out_status (rw_out (ctx_writer c')) = Some 400 \<and> out_body (rw_out (ctx_writer c')) = encode_response (failed no_iplist)"
proof -
  obtain router where i: "InitRouter (\<lambda>_. None) sample_conf = Some (Returns router)"
    using InitRouter_serves [of "\<lambda>_. None" sample_conf] by auto
  have m: "map_of routes (req_Method demo_request, clean_elements (url_Path demo_request)) =
      Some [H_Logger, H_Recovery, H_GetShellResult]"
    by (simp add: demo_request_def clean_elements_def rooted_def routes_def)
  have g: "GetShellResult mem_api (bind_task (inp_body demo_input)) ([] :: (string \<times> string) list) = failed no_iplist"
    by (simp add: GetShellResult_def GetSingleCfg_def demo_task mem_api_def mem_range_def)
  from http_request_answered [OF i, of mem_api demo_input "\<lambda>_ _ _. None" 0 demo_request "[]" "[]"
      "\<lparr>hw_server = InitServer, hw_etcd = []\<rparr>", unfolded m]
  obtain c' where "http_serve mem_api sample_conf demo_input (\<lambda>_ _ _. None) 0 router demo_request (fresh_writer []) []
       \<lparr>hw_server = InitServer, hw_etcd = []\<rparr> = Returns (Some (Done c'))"
    "answer_sent [] (failed no_iplist) (rw_out (ctx_writer c'))" by (auto simp: g)
  with i show ?thesis by (auto simp: answer_sent_def failed_def StatusBadRequest_def)
qed

text \<open>
  C34. Serving a request is a step of the running server, or leaves it as it was: the HTTP interface
  adds no way to change the server beyond its step relation, so that every invariant
  of its reachable states holds while requests are served.
\<close>

theorem http_request_is_step:
  assumes "InitRouter openFile cf = Some (Returns router)" and "\<not> down w" and "visits (inp_order inp) (srv w)"
    and "http_serve api cf inp ci cap router req (fresh_writer evs) lg \<lparr>hw_server = srv w, hw_etcd = etcd w\<rparr> =
      Returns (Some (Done c'))"
  shows "(srv_step api cf)\<^sup>=\<^sup>= w (w\<lparr>srv := hw_server (ctx_world c'), etcd := hw_etcd (ctx_world c')\<rparr>)"
proof -
  let ?w = "\<lparr>hw_server = srv w, hw_etcd = etcd w\<rparr>"
  have c': "case map_of routes (req_Method req, clean_elements (url_Path req)) of
       None \<Rightarrow> ctx_world c' = ?w \<and> out_status (rw_out (ctx_writer c')) \<in> {Some 301, Some 307, Some 404}
     | Some hs \<Rightarrow>
         \<exists>r. handler_answer api cf inp (last hs) ?w = Some (r, ctx_world c') \<and>
           answer_sent evs r (rw_out (ctx_writer c'))"
    using http_serve_ends [OF assms(1), of api inp ci cap req evs lg ?w] assms(4) by simp
  show ?thesis
  proof (cases "map_of routes (req_Method req, clean_elements (url_Path req))")
    case None
    with c' show ?thesis by simp
  next
    case (Some hs)
    with c' obtain r where r: "handler_answer api cf inp (last hs) ?w = Some (r, ctx_world c')" by auto
    from handler_answer_step [OF assms(2,3) this] show ?thesis .
  qed
qed

definition demo_boot :: "(string \<times> string) list world" where
  "demo_boot = boot []"

theorem http_request_is_step_witness:
  "\<exists>router c'. http_serve mem_api sample_conf demo_input (\<lambda>_ _ _. None) 0 router demo_request (fresh_writer []) []
       \<lparr>hw_server = srv demo_boot, hw_etcd = etcd demo_boot\<rparr> = Returns (Some (Done c')) \<and>
     (srv_step mem_api sample_conf)\<^sup>=\<^sup>= demo_boot (demo_boot\<lparr>srv := hw_server (ctx_world c'), etcd := hw_etcd (ctx_world c')\<rparr>)"
proof -
  obtain router where i: "InitRouter (\<lambda>_. None) sample_conf = Some (Returns router)"
    using InitRouter_serves [of "\<lambda>_. None" sample_conf] by auto
  obtain c' where c': "http_serve mem_api sample_conf demo_input (\<lambda>_ _ _. None) 0 router demo_request (fresh_writer []) []
       \<lparr>hw_server = srv demo_boot, hw_etcd = etcd demo_boot\<rparr> = Returns (Some (Done c'))"
    using http_serve_ends [OF i] by blast
  have "\<not> down demo_boot" "visits (inp_order demo_input) (srv demo_boot)"
    by (simp_all add: demo_boot_def boot_def visits_def InitServer_def demo_input_def)
  from http_request_is_step [OF i this c'] c' show ?thesis by blast
qed

end
