(* ===== verification/End_To_End.thy ===== *)
theory End_To_End
  imports Http_Service Composed
begin

text \<open>
  From an HTTP request to its result, through every part of the system: the request for a command
  is served (\<open>Http_Service\<close>), the message goes out and is handed over by the network (\<open>Composed\<close>), the
  agent reads it, runs the command and answers, the server reads the answer and stores it in etcd,
  and a second request fetches the result.  A file takes the same way to the disk of the agent, and
  heartbeats and their answers keep the connection alive.  Every exchange starts and ends with an idle connection, so that
  exchanges follow each other.
\<close>

section \<open>Texts of digits\<close>

lemma utf8_Valid_ascii: "list_all (\<lambda>b. b < 0x80) bs \<Longrightarrow> utf8_Valid bs"
  by (induction bs) simp_all

lemma digit_char_ascii: "d < 10 \<Longrightarrow> byte_of_char (digit_char d) < 0x80"
  by (simp add: digit_char_def word_less_nat_alt)

lemma nat_text_ascii: "c \<in> set (nat_text n) \<Longrightarrow> byte_of_char c < 0x80"
proof (induction n arbitrary: c rule: nat_text.induct)
  case (1 n)
  have "set (nat_text n) = (if n < 10 then {digit_char n} else set (nat_text (n div 10)) \<union> {digit_char (n mod 10)})"
    by (subst nat_text.simps) simp
  with 1 digit_char_ascii show ?case by (auto split: if_splits)
qed

lemma taskid_text_utf8: "utf8_ValidString (taskid_text n)"
proof -
  have "byte_of_char (CHR ''0'') < 0x80" by (simp add: byte_of_char_def)
  then have "list_all (\<lambda>b. b < 0x80) (to_bytes (taskid_text n))"
    using nat_text_ascii by (auto simp: taskid_text_def to_bytes_def list_all_iff)
  then show ?thesis by (simp add: utf8_ValidString_def utf8_Valid_ascii)
qed

lemma taskid_text_nonempty: "taskid_text n \<noteq> []"
  by (subst taskid_text_def, subst nat_text.simps) simp

section \<open>The agent runs a command\<close>

text \<open>One turn of \<open>Listen\<close> as a step of the system; the server and etcd stay as they are.\<close>

lemma listen_step:
  fixes inp :: "'e turn_in" and s :: "('e, 'x) system"
  assumes "sys_nodes s r = Some n" and "LListen \<in> n_running n"
    and "Listen_read api (in_machine inp) (etcd (sys_server s), in_now inp) (n_agent n, s_files (n_around n)) =
      Some (Returns (True, a, fs))"
    and "modest (agent_conn (n_agent n)) (agent_conn a)"
  shows "\<exists>s' n'. sys_step api ix cf s s' \<and> sys_server s' = sys_server s \<and> sys_nodes s' r = Some n' \<and>
    n_agent n' = a \<and> n_running n' = n_running n \<and> n_up n' = n_up n \<and> n_down n' = n_down n \<and>
    s_files (n_around n') = fs"
proof -
  have "loop_turn api ix LListen inp (n_agent n, view s n) = Some (Returns (True, a, (view s n)\<lparr>s_files := fs\<rparr>))"
    using assms(3) by (simp add: view_def)
  from agent_moves [OF assms(1,2) this assms(4), of cf] show ?thesis
    by (fastforce simp: set_node_def view_def)
qed

lemma conn_Read_no_error: "conn_Read m k = (rr, k') \<Longrightarrow> no_error k \<longrightarrow> no_error k'"
  by (auto simp: conn_Read_def no_error_def split: list.splits in_event.splits if_splits)

lemma no_error_deadline [simp]: "no_error (k\<lparr>read_deadline := d\<rparr>) = no_error k"
  by (simp add: no_error_def)

lemma agent_turn_conn:
  assumes "a_Conn a = Some k" and "agent_GetMsg_turn api env a = Again a' \<or> agent_GetMsg_turn api env a = Return rr a'"
  obtains k' where "a_Conn a' = Some k'" and "outbound k' = outbound k" and "writable k' = writable k"
    and "no_error k \<Longrightarrow> no_error k'"
proof -
  have "\<exists>k'. a_Conn a' = Some k' \<and> outbound k' = outbound k \<and> writable k' = writable k"
    using assms
    by (auto simp: agent_GetMsg_turn_def agent_take_message_def Let_def a_set_read_deadline_def writable_def
        dest!: conn_Read_frame split: if_splits prod.splits read_result.splits option.splits)
  moreover have "no_error k \<Longrightarrow> a_Conn a' = Some k' \<Longrightarrow> no_error k'" for k'
    using assms
    by (auto simp: agent_GetMsg_turn_def agent_take_message_def Let_def a_set_read_deadline_def
        dest!: conn_Read_no_error split: if_splits prod.splits read_result.splits option.splits)
  ultimately show thesis using that by blast
qed

text \<open>An end of a connection that is in order and has read all it was given.\<close>

definition agent_idle :: "Agent \<Rightarrow> conn \<Rightarrow> bool" where
  "agent_idle a k \<longleftrightarrow>
     a_Conn a = Some k \<and> a_Valid a \<and> writable k \<and> no_error k \<and> pending (a_ReadBuf a) k = []"

definition client_idle :: "Conf \<Rightarrow> int \<Rightarrow> TcpClient \<Rightarrow> bool" where
  "client_idle cf now c \<longleftrightarrow>
     JudgeValid cf now c \<and> writable (Conn c) \<and> no_error (Conn c) \<and> pending (ReadBuf c) (Conn c) = []"

text \<open>
  What handling a packet does to an agent: it appends \<open>ans\<close> to the connection and turns the files \<open>fs\<close>
  into \<open>fs'\<close>.
\<close>

definition handled_as ::
    "'e etcd_api \<Rightarrow> machine \<Rightarrow> u32 \<Rightarrow> byte list \<Rightarrow> byte list \<Rightarrow> files \<Rightarrow> files \<Rightarrow> bool" where
  "handled_as api mc ty p ans fs fs' \<longleftrightarrow>
     (\<forall>env a k. a_Conn a = Some k \<and> writable k \<longrightarrow>
        (\<exists>err k'. agent_HandleMsg api mc env (mk_msg ty p) (a, fs) = Returns (err, a\<lparr>a_Conn := Some k'\<rparr>, fs') \<and>
           outbound k' = outbound k @ ans \<and> inbound k' = inbound k \<and> writable k'))"

text \<open>The agent reads until the packet is complete, and handles it.\<close>

lemma agent_takes:
  fixes s :: "('e, 'x) system" and mc :: machine
  assumes "sys_nodes s r = Some n" and "LListen \<in> n_running n"
    and "a_Valid (n_agent n)" and "a_Conn (n_agent n) = Some k" and "writable k" and "no_error k"
    and "frame_inv (a_ReadBuf (n_agent n)) (a_ReadMsgPayloadLth (n_agent n))"
    and "pending (a_ReadBuf (n_agent n)) k = packet ty p" and "s_files (n_around n) = fs"
    and "length p + 264 \<le> 2 ^ 32" and "handled_as api mc ty p ans fs fs'" and "length ans + 256 \<le> 2 ^ 32"
  shows "\<exists>s' n' k'. (sys_step api ix cf)\<^sup>*\<^sup>* s s' \<and> sys_server s' = sys_server s \<and> sys_nodes s' r = Some n' \<and>
    n_up n' = n_up n \<and> n_down n' = n_down n \<and> n_running n' = n_running n \<and> agent_idle (n_agent n') k' \<and>
    outbound k' = outbound k @ ans \<and> s_files (n_around n') = fs'"
  using assms(1-9)
proof (induction "conn_work k" arbitrary: s n k rule: less_induct)
  case less
  define inp :: "'e turn_in" where "inp = undefined\<lparr>in_machine := mc\<rparr>"
  let ?env = "(etcd (sys_server s), in_now inp)"
  have conn: "agent_conn (n_agent n) = k" using less.prems(4) by (simp add: agent_conn_def)
  have ok: "agent_ok ?env (n_agent n)" using less.prems(3,4) by (simp add: agent_ok_def)
  have pend: "pending (a_ReadBuf (n_agent n)) (agent_conn (n_agent n)) = packet ty p @ []"
    using less.prems(8) conn by simp
  have mc: "in_machine inp = mc" by (simp add: inp_def)
  show ?case
  proof (cases "length (a_ReadBuf (n_agent n)) < 8 + length p")
    case True
    from agent_reader.step_reads [OF less.prems(7) ok pend assms(10) True, of api] obtain a where
      a: "agent_GetMsg_turn api ?env (n_agent n) = Again a" "frame_inv (a_ReadBuf a) (a_ReadMsgPayloadLth a)"
        "agent_ok ?env a" "pending (a_ReadBuf a) (agent_conn a) = packet ty p"
        "conn_work (agent_conn a) < conn_work k"
      using ok conn by auto
    obtain k1 where k1: "a_Conn a = Some k1" "outbound k1 = outbound k" "writable k1" "no_error k1"
      using agent_turn_conn [OF less.prems(4) disjI1 [OF a(1)]] less.prems(5,6) by metis
    have "Listen_read api (in_machine inp) ?env (n_agent n, s_files (n_around n)) =
        Some (Returns (True, a, s_files (n_around n)))"
      using a(1) less.prems(3) by (simp add: Listen_read_def)
    moreover have "modest (agent_conn (n_agent n)) (agent_conn a)"
      using k1 conn by (simp add: modest_def agent_conn_def)
    ultimately obtain s1 n1 where s1: "sys_step api ix cf s s1" "sys_server s1 = sys_server s"
      "sys_nodes s1 r = Some n1" "n_agent n1 = a" "n_running n1 = n_running n" "n_up n1 = n_up n" "n_down n1 = n_down n"
      "s_files (n_around n1) = fs"
      using listen_step [OF less.prems(1,2)] less.prems(9) by metis
    have "\<exists>s' n' k'. (sys_step api ix cf)\<^sup>*\<^sup>* s1 s' \<and> sys_server s' = sys_server s1 \<and> sys_nodes s' r = Some n' \<and>
        n_up n' = n_up n1 \<and> n_down n' = n_down n1 \<and> n_running n' = n_running n1 \<and> agent_idle (n_agent n') k' \<and>
        outbound k' = outbound k1 @ ans \<and> s_files (n_around n') = fs'"
      by (rule less.hyps [OF _ s1(3)]) (use a k1 s1 less.prems in \<open>simp_all add: agent_conn_def agent_ok_def\<close>)
    with s1 k1(2) show ?thesis by (metis converse_rtranclp_into_rtranclp)
  next
    case False
    then have "8 + length p \<le> length (a_ReadBuf (n_agent n))" by simp
    from agent_reader.step_returns [OF less.prems(7) ok pend assms(10) this, of api] ok obtain a where
      a: "agent_GetMsg_turn api ?env (n_agent n) = Return (Inr (mk_msg ty p)) a" "a_Valid a"
        "pending (a_ReadBuf a) (agent_conn a) = []" by (auto simp: agent_ok_def)
    obtain k1 where k1: "a_Conn a = Some k1" "outbound k1 = outbound k" "writable k1" "no_error k1"
      using agent_turn_conn [OF less.prems(4) disjI2 [OF a(1)]] less.prems(5,6) by metis
    from assms(11) k1 obtain err k2 where
      k2: "agent_HandleMsg api mc ?env (mk_msg ty p) (a, fs) = Returns (err, a\<lparr>a_Conn := Some k2\<rparr>, fs')"
      "outbound k2 = outbound k1 @ ans" "inbound k2 = inbound k1" "writable k2" unfolding handled_as_def by blast
    have "Listen_read api (in_machine inp) ?env (n_agent n, s_files (n_around n)) =
        Some (Returns (True, a\<lparr>a_Conn := Some k2\<rparr>, fs'))"
      using a(1) k2(1) less.prems(3,9) by (simp add: Listen_read_def mc)
    moreover have "modest (agent_conn (n_agent n)) (agent_conn (a\<lparr>a_Conn := Some k2\<rparr>))"
      using k1(2) k2(2) conn assms(12) by (simp add: modest_def agent_conn_def)
    ultimately obtain s1 n1 where s1: "sys_step api ix cf s s1" "sys_server s1 = sys_server s"
      "sys_nodes s1 r = Some n1" "n_agent n1 = a\<lparr>a_Conn := Some k2\<rparr>" "n_running n1 = n_running n" "n_up n1 = n_up n"
      "n_down n1 = n_down n" "s_files (n_around n1) = fs'"
      using listen_step [OF less.prems(1,2)] by metis
    moreover have "agent_idle (a\<lparr>a_Conn := Some k2\<rparr>) k2"
      using a(2,3) k1 k2(3,4) by (simp add: agent_idle_def no_error_def pending_def agent_conn_def)
    ultimately show ?thesis using k1(2) k2(2) by (intro exI [of _ s1] exI [of _ n1] exI [of _ k2]) simp
  qed
qed

text \<open>A command is answered with its output, a file is written, the answer to a heartbeat is only read.\<close>

lemma command_handled:
  fixes mc :: machine
  assumes "utf8_ValidString (Runcmd sm)" and "utf8_ValidString (shell_Taskid sm)" and "shell_unrecognized sm = []"
    and "length (fst (Marshal ShellRun_info sm)) + 264 \<le> 2 ^ 32" and "ExecShell (m_GOOS mc) (m_exec mc) (Runcmd sm) = Inr out"
  shows "handled_as api mc ShellRun_Msg (fst (Marshal ShellRun_info sm))
    (packet ShellRun_Rsp (fst (Marshal ShellRunRsp_info (shell_reply out (shell_Taskid sm))))) fs fs"
  unfolding handled_as_def
proof (intro allI impI, elim conjE)
  fix env and a :: Agent and k :: conn assume k: "a_Conn a = Some k" "writable k"
  have "length (fst (Marshal ShellRun_info sm)) < 2 ^ 63" using assms(4) by simp
  from agent_runs_command [OF k assms(1-3) this assms(5), of api env fs]
  show "\<exists>err k'. agent_HandleMsg api mc env (mk_msg ShellRun_Msg (fst (Marshal ShellRun_info sm))) (a, fs) =
      Returns (err, a\<lparr>a_Conn := Some k'\<rparr>, fs) \<and>
    outbound k' = outbound k @ packet ShellRun_Rsp (fst (Marshal ShellRunRsp_info (shell_reply out (shell_Taskid sm)))) \<and>
    inbound k' = inbound k \<and> writable k'"
    by metis
qed

lemma same_conn: "a_Conn a = Some k \<Longrightarrow> a\<lparr>a_Conn := Some k\<rparr> = a"
  by (cases a) simp

lemma file_handled:
  fixes mc :: machine
  assumes "f = FileTrans_zero\<lparr>SrcFilename := src, DstFilename := dst, FileContent := content\<rparr>"
    and "utf8_ValidString src" and "utf8_ValidString dst" and "length (fst (Marshal FileTrans_info f)) + 264 \<le> 2 ^ 32"
    and "m_Create mc dst = None" and "m_Write mc dst content = content"
  shows "handled_as api mc FileTrans_Msg (fst (Marshal FileTrans_info f)) [] fs (fs(dst \<mapsto> content))"
proof -
  have "Unmarshal FileTrans_info FileTrans_zero (fst (Marshal FileTrans_info f)) = (f, None)"
    using file_decodes [of f] file_ok [of f] assms(1-4) by (simp add: FileTrans_zero_def)
  then have "HandleFileTransMsg mc (mk_msg FileTrans_Msg (fst (Marshal FileTrans_info f))) fs = fs(dst \<mapsto> content)"
    using assms(1,5,6) by (simp add: HandleFileTransMsg_def mk_msg_def)
  then have "agent_HandleMsg api mc env (mk_msg FileTrans_Msg (fst (Marshal FileTrans_info f))) (a, fs) =
      Returns (None, a, fs(dst \<mapsto> content))" for env a
    by (simp add: agent_HandleMsg_def mk_msg_def msg_type_defs)
  then show ?thesis unfolding handled_as_def by (metis append_Nil2 same_conn)
qed

lemma heartbeat_answer_handled: "handled_as api mc HeartBeat_Rsp [] [] fs fs"
proof -
  have "agent_HandleMsg api mc env (mk_msg HeartBeat_Rsp []) (a, fs) = Returns (None, a, fs)" for env a
    by (simp add: agent_HandleMsg_def mk_msg_def HandleHeartBeatRspMsg_def)
  then show ?thesis unfolding handled_as_def by (metis append_Nil2 same_conn)
qed

section \<open>The server reads and stores the answer\<close>

text \<open>A step of the server that takes no message from its readers.\<close>

lemma quiet_step:
  assumes "srv_step api cf (sys_server s) w'" and "dom (heap (srv w')) = dom (heap (srv (sys_server s)))"
    and "\<And>r c c'. client_at s r = Some c \<Longrightarrow> heap (srv w') r = Some c' \<Longrightarrow> modest (Conn c) (Conn c')"
    and "length (jobs w') \<le> length (jobs (sys_server s))"
  shows "sys_step api ix cf s (s\<lparr>sys_server := w'\<rparr>)"
proof -
  have "note_read (sys_server s) w' (sys_nodes s) = sys_nodes s"
    by (simp add: note_read_def read_by_server_shorter [OF assms(4)] fun_eq_iff option.map_ident)
  with server_moves [OF assms(1-3), where ix = ix] show ?thesis by simp
qed

lemma client_turn_conn:
  assumes "GetMsg_turn cf now c = Again c' \<or> GetMsg_turn cf now c = Return rr c'"
  shows "outbound (Conn c') = outbound (Conn c)" and "writable (Conn c') = writable (Conn c)"
    and "ClientID c' = ClientID c" and "no_error (Conn c) \<Longrightarrow> no_error (Conn c')"
proof -
  show "outbound (Conn c') = outbound (Conn c)" "writable (Conn c') = writable (Conn c)" "ClientID c' = ClientID c"
    using assms
    by (auto simp: GetMsg_turn_def take_message_def Let_def set_read_deadline_def writable_def
        dest!: conn_Read_frame split: if_splits prod.splits read_result.splits option.splits)
  show "no_error (Conn c')" if "no_error (Conn c)"
    using assms that
    by (auto simp: GetMsg_turn_def take_message_def Let_def set_read_deadline_def
        dest!: conn_Read_no_error split: if_splits prod.splits read_result.splits option.splits)
qed

lemma server_reads:
  fixes s :: "('e, 'x) system"
  assumes "sys_inv s" and "sys_nodes s r = Some n" and "client_at s r = Some c" and "r \<in> readers (sys_server s)"
    and "JudgeValid cf now c" and "writable (Conn c)" and "no_error (Conn c)"
    and "frame_inv (ReadBuf c) (ReadMsgPayloadLth c)"
    and "pending (ReadBuf c) (Conn c) = packet ty p" and "length p + 264 \<le> 2 ^ 32"
  shows "\<exists>s' c' l. (sys_step api ix cf)\<^sup>*\<^sup>* s s' \<and> sys_inv s' \<and> sys_nodes s' r = Some (n\<lparr>n_read := l\<rparr>) \<and>
    client_at s' r = Some c' \<and> ClientID c' = ClientID c \<and> client_idle cf now c' \<and> outbound (Conn c') = outbound (Conn c) \<and>
    r \<in> readers (sys_server s') \<and>
    jobs (sys_server s') = jobs (sys_server s) @ [(mk_msg ty p, r)] \<and> etcd (sys_server s') = etcd (sys_server s)"
  using assms(1-9)
proof (induction "conn_work (Conn c)" arbitrary: s n c rule: less_induct)
  case less
  have pend: "pending (ReadBuf c) (Conn c) = packet ty p @ []" using less.prems(9) by simp
  show ?case
  proof (cases "length (ReadBuf c) < 8 + length p")
    case True
    from client_reader.step_reads [OF less.prems(8,5) pend assms(10) True] obtain c1 where
      c1: "GetMsg_turn cf now c = Again c1" "frame_inv (ReadBuf c1) (ReadMsgPayloadLth c1)" "JudgeValid cf now c1"
        "pending (ReadBuf c1) (Conn c1) = packet ty p" "conn_work (Conn c1) < conn_work (Conn c)"
      using less.prems(5) by auto
    note k1 = client_turn_conn [OF disjI1 [OF c1(1)]]
    from reader_step [OF less.prems(1-4), of cf now c1 "[]" api ix] c1(1) obtain s1 where
      s1: "sys_step api ix cf s s1" "sys_nodes s1 r = Some n" "client_at s1 r = Some c1"
        "readers (sys_server s1) = readers (sys_server s)" "jobs (sys_server s1) = jobs (sys_server s)"
        "etcd (sys_server s1) = etcd (sys_server s)" by auto
    have "\<exists>s' c' l. (sys_step api ix cf)\<^sup>*\<^sup>* s1 s' \<and> sys_inv s' \<and> sys_nodes s' r = Some (n\<lparr>n_read := l\<rparr>) \<and>
        client_at s' r = Some c' \<and> ClientID c' = ClientID c1 \<and> client_idle cf now c' \<and>
        outbound (Conn c') = outbound (Conn c1) \<and> r \<in> readers (sys_server s') \<and>
        jobs (sys_server s') = jobs (sys_server s1) @ [(mk_msg ty p, r)] \<and> etcd (sys_server s') = etcd (sys_server s1)"
      by (rule less.hyps [OF c1(5) sys_step_inv [OF s1(1) less.prems(1)] s1(2,3)])
        (use s1(4) less.prems(4,6,7) c1 k1 in simp_all)
    with s1 k1 show ?thesis by (metis converse_rtranclp_into_rtranclp)
  next
    case False
    then have "8 + length p \<le> length (ReadBuf c)" by simp
    from client_reader.step_returns [OF less.prems(8,5) pend assms(10) this] less.prems(5) obtain c1 where
      c1: "GetMsg_turn cf now c = Return (Inr (mk_msg ty p)) c1" "JudgeValid cf now c1"
        "pending (ReadBuf c1) (Conn c1) = []" by blast
    note k1 = client_turn_conn [OF disjI2 [OF c1(1)]]
    from reader_step [OF less.prems(1-4), of cf now c1 "[mk_msg ty p]" api ix] c1 obtain s1 where
      s1: "sys_step api ix cf s s1" "client_at s1 r = Some c1" "sys_nodes s1 r = Some (n\<lparr>n_read := n_read n @ [mk_msg ty p]\<rparr>)"
        "readers (sys_server s1) = readers (sys_server s)"
        "jobs (sys_server s1) = jobs (sys_server s) @ [(mk_msg ty p, r)]"
        "etcd (sys_server s1) = etcd (sys_server s)" by auto
    have "client_idle cf now c1" using c1(2,3) k1 less.prems(6,7) by (simp add: client_idle_def)
    with k1 s1 sys_step_inv [OF s1(1) less.prems(1)] less.prems(4) show ?thesis
      by (intro exI [of _ s1] exI [of _ c1] exI [of _ "n_read n @ [mk_msg ty p]"]) simp
  qed
qed

text \<open>The last message that was read is handled.\<close>

lemma server_handles:
  assumes "sys_inv s" and "client_at s r = Some c" and "jobs (sys_server s) = js @ [(m, r)]"
    and "HandleMsg api cf now m c (etcd (sys_server s)) = (err, c', e')" and "modest (Conn c) (Conn c')"
  shows "\<exists>s'. sys_step api ix cf s s' \<and> sys_nodes s' = sys_nodes s \<and> client_at s' r = Some c' \<and>
    readers (sys_server s') = readers (sys_server s) \<and> etcd (sys_server s') = e'"
proof -
  let ?w = "sys_server s"
  let ?w' = "?w\<lparr>srv := put_client r c' (srv ?w), jobs := js @ [], etcd := e'\<rparr>"
  have "srv_step api cf ?w ?w'"
    using assms(1-4) by (intro handle) (auto simp: sys_inv_def client_at_def)
  then have "sys_step api ix cf s (s\<lparr>sys_server := ?w'\<rparr>)"
    using assms(2,3,5) by (intro quiet_step) (auto simp: client_at_def modest_def split: if_splits)
  then show ?thesis by (intro exI [of _ "s\<lparr>sys_server := ?w'\<rparr>"]) (simp add: client_at_def)
qed

section \<open>The state of a connection\<close>

text \<open>
  Both ends are in order and have read all they were given; \<open>d\<close> and \<open>u\<close> are the bytes the server and the agent
  have written that have not been handed over yet.  Without such bytes the connection is idle.
\<close>

definition link_state ::
    "Conf \<Rightarrow> int \<Rightarrow> ('e, 'x) system \<Rightarrow> client_ref \<Rightarrow> ('e, 'x) node \<Rightarrow> TcpClient \<Rightarrow> conn \<Rightarrow> byte list \<Rightarrow> byte list \<Rightarrow> bool"
where
  "link_state cf now s r n c k d u \<longleftrightarrow>
     client_at s r = Some c \<and> r \<in> readers (sys_server s) \<and> client_idle cf now c \<and>
     sys_nodes s r = Some n \<and> LListen \<in> n_running n \<and> agent_idle (n_agent n) k \<and>
     n_down n \<le> length (outbound (Conn c)) \<and> drop (n_down n) (outbound (Conn c)) = d \<and>
     n_up n \<le> length (outbound k) \<and> drop (n_up n) (outbound k) = u"

definition idle_link ::
    "Conf \<Rightarrow> int \<Rightarrow> ('e, 'x) system \<Rightarrow> client_ref \<Rightarrow> ('e, 'x) node \<Rightarrow> TcpClient \<Rightarrow> conn \<Rightarrow> bool" where
  "idle_link cf now s r n c k \<longleftrightarrow> link_state cf now s r n c k [] []"

lemma link_frames:
  assumes "sys_inv s" and "link_state cf now s r n c k d u"
  shows "frame_inv (ReadBuf c) (ReadMsgPayloadLth c)"
    and "frame_inv (a_ReadBuf (n_agent n)) (a_ReadMsgPayloadLth (n_agent n))"
proof -
  have "link_inv (r \<in> readers (sys_server s)) n c" using assms unfolding sys_inv_def link_state_def by blast
  with assms(2) show "frame_inv (ReadBuf c) (ReadMsgPayloadLth c)"
    "frame_inv (a_ReadBuf (n_agent n)) (a_ReadMsgPayloadLth (n_agent n))"
    by (auto simp: link_state_def link_inv_def channel_def flows_def)
qed

lemma sys_steps_inv: "(sys_step api ix cf)\<^sup>*\<^sup>* s s' \<Longrightarrow> sys_inv s \<Longrightarrow> sys_inv s'"
  by (induction rule: rtranclp_induct) (auto intro: sys_step_inv)

text \<open>The network hands the last packet of the server over, and the agent takes it.\<close>

lemma agent_answers:
  fixes s :: "('e, 'x) system" and mc :: machine
  assumes "sys_inv s" and l: "link_state cf now s r n c k (packet ty p) u"
    and "length p + 264 \<le> 2 ^ 32" and "handled_as api mc ty p ans (s_files (n_around n)) fs'"
    and "length ans + 256 \<le> 2 ^ 32"
  shows "\<exists>s' n' k'. (sys_step api ix cf)\<^sup>*\<^sup>* s s' \<and> sys_server s' = sys_server s \<and>
    link_state cf now s' r n' c k' [] (u @ ans) \<and> n_running n' = n_running n \<and> s_files (n_around n') = fs'"
proof -
  let ?b = "packet ty p"
  have i: "client_at s r = Some c" "sys_nodes s r = Some n" "LListen \<in> n_running n"
    "a_Conn (n_agent n) = Some k" "a_Valid (n_agent n)" "writable k" "no_error k"
    "pending (a_ReadBuf (n_agent n)) k = []" "drop (n_down n) (outbound (Conn c)) = ?b"
    "n_down n \<le> length (outbound (Conn c))"
    using l by (simp_all add: link_state_def agent_idle_def)
  have j: "length (outbound (Conn c)) = n_down n + length ?b" using i(10) arg_cong [OF i(9), of length] by simp
  let ?k1 = "hand_over (InData (take (length ?b) (drop (n_down n) (outbound (Conn c))))) k"
  let ?n1 = "set_agent_conn ?k1 (n\<lparr>n_down := n_down n + length ?b\<rparr>)"
  let ?s1 = "set_node r ?n1 s"
  have st: "sys_step api ix cf s ?s1" by (intro down [OF i(2,1,4,7)]) (simp add: j)
  have "pending (a_ReadBuf (n_agent n)) ?k1 = ?b" using i(7-9) by (simp add: pending_hand_over)
  then have "\<exists>s' n' k'. (sys_step api ix cf)\<^sup>*\<^sup>* ?s1 s' \<and> sys_server s' = sys_server ?s1 \<and> sys_nodes s' r = Some n' \<and>
      n_up n' = n_up ?n1 \<and> n_down n' = n_down ?n1 \<and> n_running n' = n_running ?n1 \<and> agent_idle (n_agent n') k' \<and>
      outbound k' = outbound ?k1 @ ans \<and> s_files (n_around n') = fs'"
    using assms(3-5) i(3-7) link_frames(2) [OF assms(1) l] by (intro agent_takes [where n = ?n1 and mc = mc])
      (simp_all add: set_node_def set_agent_conn_def writable_def hand_over_def no_error_def)
  then obtain s' n' k' where s': "(sys_step api ix cf)\<^sup>*\<^sup>* ?s1 s'" "sys_server s' = sys_server s" "sys_nodes s' r = Some n'"
    "n_up n' = n_up n" "n_down n' = length (outbound (Conn c))" "n_running n' = n_running n" "agent_idle (n_agent n') k'"
    "outbound k' = outbound k @ ans" "s_files (n_around n') = fs'" using j by (auto simp: set_node_def set_agent_conn_def)
  have "link_state cf now s' r n' c k' [] (u @ ans)"
    using l s'(2-8) by (simp add: link_state_def client_at_def)
  with s' converse_rtranclp_into_rtranclp [OF st s'(1)] show ?thesis by blast
qed

text \<open>
  What handling a packet does at the server, for every client that is in order at \<open>now\<close>: \<open>ans\<close> is
  written, etcd goes from \<open>e\<close> to \<open>e'\<close>, and the client has the property \<open>P\<close> and is in order at \<open>now'\<close>.
\<close>

definition served_as ::
    "'e etcd_api \<Rightarrow> Conf \<Rightarrow> int \<Rightarrow> int \<Rightarrow> string \<Rightarrow> u32 \<Rightarrow> byte list \<Rightarrow> byte list \<Rightarrow> 'e \<Rightarrow> 'e \<Rightarrow> (TcpClient \<Rightarrow> bool) \<Rightarrow> bool"
where
  "served_as api cf now now' ident ty p ans e e' P \<longleftrightarrow>
     (\<forall>c. ClientID c = ident \<and> client_idle cf now c \<longrightarrow>
        (\<exists>err c'. HandleMsg api cf now (mk_msg ty p) c e = (err, c', e') \<and> ClientID c' = ident \<and>
           client_idle cf now' c' \<and> outbound (Conn c') = outbound (Conn c) @ ans \<and> P c'))"

text \<open>The network hands the last packet of the agent over, and the server reads and handles it.\<close>

lemma server_answers:
  fixes s :: "('e, 'x) system"
  assumes "sys_inv s" and l: "link_state cf now s r n c k d (packet ty p)"
    and "length p + 264 \<le> 2 ^ 32" and "length ans + 256 \<le> 2 ^ 32"
    and "served_as api cf now now' (ClientID c) ty p ans (etcd (sys_server s)) e' P"
  shows "\<exists>s' n' c'. (sys_step api ix cf)\<^sup>*\<^sup>* s s' \<and> link_state cf now' s' r n' c' k (d @ ans) [] \<and>
    ClientID c' = ClientID c \<and> P c' \<and> etcd (sys_server s') = e' \<and>
    n_running n' = n_running n \<and> n_around n' = n_around n"
proof -
  let ?b = "packet ty p"
  have i: "client_at s r = Some c" "r \<in> readers (sys_server s)" "sys_nodes s r = Some n" "a_Conn (n_agent n) = Some k"
    "JudgeValid cf now c" "writable (Conn c)" "no_error (Conn c)" "pending (ReadBuf c) (Conn c) = []"
    "drop (n_up n) (outbound k) = ?b" "n_up n \<le> length (outbound k)"
    using l by (simp_all add: link_state_def agent_idle_def client_idle_def)
  have j: "length (outbound k) = n_up n + length ?b" using i(10) arg_cong [OF i(9), of length] by simp
  let ?c1 = "c\<lparr>Conn := hand_over (InData (take (length ?b) (drop (n_up n) (outbound k)))) (Conn c)\<rparr>"
  let ?n1 = "n\<lparr>n_up := n_up n + length ?b\<rparr>"
  let ?s1 = "set_node r ?n1 (set_client r ?c1 s)"
  have st: "sys_step api ix cf s ?s1" by (intro up [OF i(3,1,4,7)]) (simp add: j)
  have "pending (ReadBuf c) (Conn ?c1) = ?b" using i(7-9) by (simp add: pending_hand_over)
  then have "\<exists>s' c' l. (sys_step api ix cf)\<^sup>*\<^sup>* ?s1 s' \<and> sys_inv s' \<and> sys_nodes s' r = Some (?n1\<lparr>n_read := l\<rparr>) \<and>
      client_at s' r = Some c' \<and> ClientID c' = ClientID ?c1 \<and> client_idle cf now c' \<and> outbound (Conn c') = outbound (Conn ?c1) \<and>
      r \<in> readers (sys_server s') \<and>
      jobs (sys_server s') = jobs (sys_server ?s1) @ [(mk_msg ty p, r)] \<and> etcd (sys_server s') = etcd (sys_server ?s1)"
    using i(2,5-7) assms(3) link_frames(1) [OF assms(1) l] sys_step_inv [OF st assms(1)]
    by (intro server_reads [where c = ?c1]) (simp_all add: set_node_def set_client_def client_at_def writable_def hand_over_def no_error_def)
  then obtain s2 c2 h where s2: "(sys_step api ix cf)\<^sup>*\<^sup>* ?s1 s2" "sys_inv s2" "sys_nodes s2 r = Some (?n1\<lparr>n_read := h\<rparr>)"
    "client_at s2 r = Some c2" "ClientID c2 = ClientID c" "client_idle cf now c2" "outbound (Conn c2) = outbound (Conn c)"
    "r \<in> readers (sys_server s2)" "jobs (sys_server s2) = jobs (sys_server s) @ [(mk_msg ty p, r)]"
    "etcd (sys_server s2) = etcd (sys_server s)" by (auto simp: set_node_def set_client_def)
  from assms(5) s2(5,6,10) obtain err c3 where
    c3: "HandleMsg api cf now (mk_msg ty p) c2 (etcd (sys_server s2)) = (err, c3, e')" "ClientID c3 = ClientID c"
      "client_idle cf now' c3" "outbound (Conn c3) = outbound (Conn c2) @ ans" "P c3"
    unfolding served_as_def by metis
  have "modest (Conn c2) (Conn c3)" using c3(4) assms(4) by (simp add: modest_def)
  from server_handles [OF s2(2,4,9) c3(1) this, of ix] obtain s3 where
    s3: "sys_step api ix cf s2 s3" "sys_nodes s3 = sys_nodes s2" "client_at s3 r = Some c3"
      "readers (sys_server s3) = readers (sys_server s2)" "etcd (sys_server s3) = e'" by blast
  have "link_state cf now' s3 r (?n1\<lparr>n_read := h\<rparr>) c3 k (d @ ans) []"
    using l s2(3,7,8) s3(2-4) c3(3,4) j by (simp add: link_state_def)
  moreover have "(sys_step api ix cf)\<^sup>*\<^sup>* s s3"
    by (rule converse_rtranclp_into_rtranclp [OF st rtranclp.rtrancl_into_rtrancl [OF s2(1) s3(1)]])
  ultimately show ?thesis using c3(2,5) s3(5)
    by (intro exI [of _ s3] exI [of _ "?n1\<lparr>n_read := h\<rparr>"] exI [of _ c3]) simp
qed

section \<open>The server sends a command\<close>

lemma SendMsg_ok:
  assumes "writable (Conn c)"
  obtains k where "SendMsg cf now m c = c\<lparr>Conn := k\<rparr>" and "outbound k = outbound (Conn c) @ msg_packet m"
    and "inbound k = inbound (Conn c)" and "writable k"
  using assms by (simp add: SendMsg_def Let_def)

lemma SendMsg_modest:
  assumes "length (msg_packet m) + 256 \<le> 2 ^ 32"
  shows "modest (Conn c) (Conn (SendMsg cf now m c))"
proof -
  let ?k = "(Conn c)\<lparr>write_deadline := Some (now + seconds (GetInt cf ''tcp'' ''writetimeout''))\<rparr>"
  obtain err k' where w: "conn_Write (msg_packet m) ?k = (err, k')" by force
  have "\<exists>n. outbound k' = outbound (Conn c) @ take n (msg_packet m)"
  proof (rule conn_Write_cases [of "msg_packet m" ?k])
    fix k'' assume "conn_Write (msg_packet m) ?k = (None, k'')" "outbound k'' = outbound ?k @ msg_packet m"
    with w show ?thesis by (intro exI [of _ "length (msg_packet m)"]) simp
  qed (use w in auto)
  moreover have "Conn (SendMsg cf now m c) = k'"
    using w by (simp add: SendMsg_def SetValid_def Let_def)
  ultimately show ?thesis using assms by (auto simp: modest_def)
qed

definition command_message :: "string \<Rightarrow> string \<Rightarrow> Msg" where
  "command_message cmd taskid = \<lparr>MsgType = ShellRun_Msg, MsgData = [],
     MsgProto = Some (PB_ShellRun (ShellRun_zero\<lparr>Runcmd := cmd, shell_Taskid := taskid\<rparr>))\<rparr>"

lemma command_packet:
  "msg_packet (command_message cmd t) =
     packet ShellRun_Msg (fst (Marshal ShellRun_info (ShellRun_zero\<lparr>Runcmd := cmd, shell_Taskid := t\<rparr>)))"
  by (simp add: msg_packet_eq command_message_def msg_bytes_def)

text \<open>A command of the server that sends one message to one address.\<close>

lemma message_sent:
  assumes "sys_inv s" and l: "link_state cf now s r n c k d u"
    and "visits ks (srv (sys_server s))" and "length (msg_packet m) + 256 \<le> 2 ^ 32"
    and "S = Multicast cf t ks [ClientID c] m (srv (sys_server s))"
    and "srv_step api cf (sys_server s) ((sys_server s)\<lparr>srv := S, etcd := e1\<rparr>)"
  shows "\<exists>s1 c1. sys_step api ix cf s s1 \<and> sys_server s1 = (sys_server s)\<lparr>srv := S, etcd := e1\<rparr> \<and>
    link_state cf now s1 r n c1 k (d @ msg_packet m) u \<and> ClientID c1 = ClientID c"
proof -
  let ?w = "sys_server s" and ?ip = "ClientID c"
  have i: "client_at s r = Some c" "r \<in> readers ?w" "client_idle cf now c" "writable (Conn c)"
    using l by (simp_all add: link_state_def client_idle_def)
  have t: "table_ok (srv ?w)" and ran: "r \<in> ran (Clients (srv ?w))"
    using assms(1) i(2) by (auto simp: sys_inv_def world_inv_def)
  have c: "heap (srv ?w) r = Some c" using i(1) by (simp add: client_at_def)
  have "(SendMsg cf t m ^^ count_list [?ip] (ClientID d)) d = (if ClientID d = ?ip then SendMsg cf t m d else d)" for d
    by simp
  note heap = Multicast_heap [OF assms(3) t, of cf t "[?ip]" m, unfolded this]
  obtain kc where kc: "SendMsg cf t m c = c\<lparr>Conn := kc\<rparr>" "outbound kc = outbound (Conn c) @ msg_packet m"
    "inbound kc = inbound (Conn c)" "writable kc" by (rule SendMsg_ok [OF i(4)])
  let ?s1 = "s\<lparr>sys_server := ?w\<lparr>srv := S, etcd := e1\<rparr>\<rparr>"
  have "sys_step api ix cf s ?s1"
  proof (rule quiet_step [OF assms(6)])
    show "dom (heap (srv (?w\<lparr>srv := S, etcd := e1\<rparr>))) = dom (heap (srv ?w))"
      by (auto simp: assms(5) heap split: if_splits)
    show "modest (Conn d) (Conn d')" if "client_at s q = Some d" "heap (srv (?w\<lparr>srv := S, etcd := e1\<rparr>)) q = Some d'"
      for q d d'
      using that SendMsg_modest [OF assms(4)] by (auto simp: assms(5) heap client_at_def modest_def split: if_splits)
  qed simp
  moreover have "client_at ?s1 r = Some (c\<lparr>Conn := kc\<rparr>)" using ran c kc(1) by (simp add: client_at_def assms(5) heap)
  then have "link_state cf now ?s1 r n (c\<lparr>Conn := kc\<rparr>) k (d @ msg_packet m) u"
    using l i(3) kc(2-4) by (simp add: link_state_def client_idle_def no_error_def pending_def)
  ultimately show ?thesis by (intro exI [of _ ?s1] exI [of _ "c\<lparr>Conn := kc\<rparr>"]) simp
qed

lemma command_sent:
  assumes "sys_inv s" and "link_state cf now s r n c k d u" and "visits ks (srv (sys_server s))" and "ClientID c \<noteq> []"
    and "api_Put api (etcd (sys_server s)) (result_key (taskid_text num) ''iplist'') (ClientID c) = (None, e1)"
    and "length (msg_packet (command_message cmd (taskid_text num))) + 256 \<le> 2 ^ 32"
  shows "\<exists>s1 S c1. RemoteShellRun api cf t ks num cmd [ClientID c] (srv (sys_server s)) (etcd (sys_server s)) =
      (Inr (taskid_text num), S, e1) \<and>
    sys_step api ix cf s s1 \<and> sys_server s1 = (sys_server s)\<lparr>srv := S, etcd := e1\<rparr> \<and>
    link_state cf now s1 r n c1 k (d @ msg_packet (command_message cmd (taskid_text num))) u \<and> ClientID c1 = ClientID c"
proof -
  let ?S = "Multicast cf t ks [ClientID c] (command_message cmd (taskid_text num)) (srv (sys_server s))"
  have run: "RemoteShellRun api cf t ks num cmd [ClientID c] (srv (sys_server s)) (etcd (sys_server s)) =
      (Inr (taskid_text num), ?S, e1)"
    using assms(4,5) by (simp add: RemoteShellRun_def ClientPut_def join_ips_eq command_message_def Let_def)
  have "\<not> down (sys_server s)" using assms(1) by (simp add: sys_inv_def)
  from message_sent [OF assms(1-3,6) refl shell [OF this assms(3) run], of ix] run show ?thesis by blast
qed

text \<open>The answer to a command is stored.\<close>

lemma reply_served:
  assumes "rep = fst (Marshal ShellRunRsp_info (shell_reply out t))" and "length rep + 264 \<le> 2 ^ 32"
    and "utf8_ValidString t" and "utf8_ValidString out" and "api_Put api e (result_key t ident) out = (None, e')"
  shows "served_as api cf now now ident ShellRun_Rsp rep [] e e' (\<lambda>_. True)"
proof -
  have "HandleMsg api cf now (mk_msg ShellRun_Rsp rep) c e = (None, c, e')" if "ClientID c = ident" for c
    using server_handles_reply [of out t api cf now c e] assms that by (simp add: ClientPut_def)
  then show ?thesis by (simp add: served_as_def)
qed

section \<open>A command from end to end\<close>

text \<open>The service answers whatever it is asked.\<close>

definition etcd_answers :: "'e etcd_api \<Rightarrow> bool" where
  "etcd_answers api \<longleftrightarrow> (\<forall>e k v. fst (api_Put api e k v) = None) \<and> (\<forall>e k. \<exists>kvs. api_GetPrefix api e k = Inr kvs)"

lemma put_answered: "etcd_answers api \<Longrightarrow> \<exists>e'. api_Put api e key v = (None, e')"
  by (metis etcd_answers_def prod.collapse)

lemma two_keys:
  assumes "etcd_documented api kv" and "ip \<noteq> ''iplist''"
    and "api_Put api e (result_key t ''iplist'') ip = (None, e1)" and "api_Put api e1 (result_key t ip) out = (None, e2)"
  shows "kv e2 (result_key t ''iplist'') = Some ip" and "kv e2 (result_key t ip) = Some out"
  using etcd_Put [OF assms(1,3)] etcd_Put [OF assms(1,4)] assms(2) by (auto simp: result_key_def)

text \<open>A request for one of the routes.\<close>

lemma route_answered:
  assumes "InitRouter openFile cf = Some (Returns router)"
    and "map_of routes (req_Method req, clean_elements (url_Path req)) = Some hs"
    and "handler_answer api cf inp (last hs) w = Some (a, w')"
  shows "\<exists>c'. http_serve api cf inp ci cap router req (fresh_writer evs) lg w = Returns (Some (Done c')) \<and>
    ctx_world c' = w' \<and> answer_sent evs a (rw_out (ctx_writer c'))"
  using http_serve_ends [OF assms(1), of api inp ci cap req evs lg w] assms(2,3) by auto

lemma single_address: "CHR '','' \<notin> set ip \<Longrightarrow> strings_Split ip CHR '','' = [ip]"
  using strings_Split_Join [of "[ip]" "CHR '',''"] by simp

text \<open>What a request for the result finds once both keys of a task are there.\<close>

lemma result_found:
  assumes "etcd_documented api kv" and "etcd_answers api" and "CHR '','' \<notin> set ip"
    and "kv e (result_key t ''iplist'') = Some ip" and "kv e (result_key t ip) = Some out"
  shows "GetShellResult api (Inr t) e = success (JArray [[''ip'' \<mapsto> ip, ''status'' \<mapsto> ''success'', ''output'' \<mapsto> out]])"
proof -
  have g: "GetSingleCfg api e k = Inr v" if "kv e k = Some v" for k v
    using assms(2) that GetSingleCfg_present [OF assms(1)] by (metis etcd_answers_def)
  from GetShellResult_eq [OF g [OF assms(4)]] g [OF assms(5)] show ?thesis
    by (simp add: single_address [OF assms(3)] entry_for_def)
qed

text \<open>
  A command over an idle connection: the server sends it, and some run leads to a state with its
  output in etcd, in which the connection is idle again.
\<close>

lemma command_completes:
  fixes s :: "('e, 'x) system" and mc :: machine
  assumes inv: "sys_inv s" and idle: "idle_link cf now s r n c k" and api: "etcd_documented api kv" "etcd_answers api"
    and ip: "ClientID c \<noteq> []" "ClientID c \<noteq> ''iplist''" and ks: "visits ks (srv (sys_server s))"
    and sm: "sm = ShellRun_zero\<lparr>Runcmd := cmd, shell_Taskid := taskid_text num\<rparr>"
      "length (fst (Marshal ShellRun_info sm)) + 264 \<le> 2 ^ 32"
    and utf8: "utf8_ValidString cmd" "utf8_ValidString out"
    and out: "ExecShell (m_GOOS mc) (m_exec mc) cmd = Inr out"
      "length (fst (Marshal ShellRunRsp_info (shell_reply out (taskid_text num)))) + 264 \<le> 2 ^ 32"
  shows "\<exists>s1 S e1 s2 n2 c2 k2. RemoteShellRun api cf t ks num cmd [ClientID c] (srv (sys_server s)) (etcd (sys_server s)) =
      (Inr (taskid_text num), S, e1) \<and>
    sys_server s1 = (sys_server s)\<lparr>srv := S, etcd := e1\<rparr> \<and>
    sys_step api ix cf s s1 \<and> (sys_step api ix cf)\<^sup>*\<^sup>* s1 s2 \<and>
    kv (etcd (sys_server s2)) (result_key (taskid_text num) ''iplist'') = Some (ClientID c) \<and>
    kv (etcd (sys_server s2)) (result_key (taskid_text num) (ClientID c)) = Some out \<and>
    idle_link cf now s2 r n2 c2 k2 \<and> ClientID c2 = ClientID c"
proof -
  let ?t = "taskid_text num" and ?ip = "ClientID c"
  let ?p = "fst (Marshal ShellRun_info sm)" and ?rep = "fst (Marshal ShellRunRsp_info (shell_reply out (taskid_text num)))"
  obtain e1 e2 where e1: "api_Put api (etcd (sys_server s)) (result_key ?t ''iplist'') ?ip = (None, e1)"
    and e2: "api_Put api e1 (result_key ?t ?ip) out = (None, e2)" using put_answered [OF api(2)] by blast
  from command_sent [OF inv idle [unfolded idle_link_def] ks ip(1) e1, of cmd t ix] sm obtain s1 S c1 where
    s1: "RemoteShellRun api cf t ks num cmd [?ip] (srv (sys_server s)) (etcd (sys_server s)) = (Inr ?t, S, e1)"
      "sys_step api ix cf s s1" "sys_server s1 = (sys_server s)\<lparr>srv := S, etcd := e1\<rparr>"
      "link_state cf now s1 r n c1 k (packet ShellRun_Msg ?p) []" "ClientID c1 = ?ip"
    by (auto simp: command_packet)
  have inv1: "sys_inv s1" by (rule sys_step_inv [OF s1(2) inv])
  have "handled_as api mc ShellRun_Msg ?p (packet ShellRun_Rsp ?rep) fs fs" for fs
    using command_handled [of sm mc out api fs] sm utf8 out by (simp add: taskid_text_utf8 ShellRun_zero_def)
  from agent_answers [OF inv1 s1(4) sm(2) this, of ix] out(2) obtain s2 n2 k2 where
    s2: "(sys_step api ix cf)\<^sup>*\<^sup>* s1 s2" "sys_server s2 = sys_server s1"
      "link_state cf now s2 r n2 c1 k2 [] (packet ShellRun_Rsp ?rep)" by auto
  have "served_as api cf now now (ClientID c1) ShellRun_Rsp ?rep [] (etcd (sys_server s2)) e2 (\<lambda>_. True)"
    using reply_served [OF refl out(2) taskid_text_utf8 utf8(2) e2] s1(3,5) s2(2) by simp
  from server_answers [OF sys_steps_inv [OF s2(1) inv1] s2(3) out(2) _ this, of ix] obtain s3 n3 c3 where
    s3: "(sys_step api ix cf)\<^sup>*\<^sup>* s2 s3" "idle_link cf now s3 r n3 c3 k2" "ClientID c3 = ?ip" "etcd (sys_server s3) = e2"
    using s1(5) by (auto simp: idle_link_def)
  have "(sys_step api ix cf)\<^sup>*\<^sup>* s1 s3" using s2(1) s3(1) by (rule rtranclp_trans)
  with s1(1-3) s3(2-4) two_keys [OF api(1) ip(2) e1 e2] show ?thesis by blast
qed

text \<open>The two answers on the wire.\<close>

lemma entry_value:
  "map_value [''ip'' \<mapsto> ip, ''status'' \<mapsto> st, ''output'' \<mapsto> out] =
     JObj [(''ip'', JText ip), (''output'', JText out), (''status'', JText st)]"
proof -
  have "sorted_list_of_set (dom [''ip'' \<mapsto> ip, ''status'' \<mapsto> st, ''output'' \<mapsto> out]) = [''ip'', ''output'', ''status'']"
    by (rule sorted_distinct_set_unique) auto
  then show ?thesis by (simp add: map_value_def)
qed

lemma answer_decodes:
  assumes "answer_sent [] r out" and "plain (response_value r)"
  shows "out_status out = Some (http_status r)" and "json_first (out_body out) = Some (response_value r)"
  using assms response_read_back [OF assms(2)] by (simp_all add: answer_sent_def)

lemma success_value: "response_value (success m) = JObj [(''Msg'', msg_value m), (''Status'', JText ''Success'')]"
  "http_status (success m) = 200"
  by (simp_all add: response_value_def success_def StatusOK_def)

section \<open>Properties\<close>


definition demo_post :: Request where
  "demo_post = \<lparr>req_Method = ''POST'', url_Path = ''/api/v1/agent/remoteshell'', url_RawPath = [], X_Forwarded_Prefix = []\<rparr>"

definition demo_shell :: http_input where
  "demo_shell = demo_input\<lparr>inp_order := [''10.0.0.1''], inp_body := shell_body ''uptime'' ''10.0.0.1''\<rparr>"

lemma mem_api_answers: "etcd_answers mem_api"
  by (simp add: etcd_answers_def mem_api_def)

lemma demo_idle: "idle_link sample_conf 0 (demo_connected []) 0 (dialed demo_agent demo_around)
    (NewClient (fresh_conn []) ''10.0.0.1'') (fresh_conn [])"
  by (simp add: idle_link_def link_state_def client_idle_def agent_idle_def demo_connected_def set_node_def client_at_def one_client_def dialed_def no_error_def
      pending_def demo_agent_def NewAgent_def ResetAgent_def)


section \<open>A file from end to end\<close>

definition file_message :: "string \<Rightarrow> string \<Rightarrow> byte list \<Rightarrow> FileTrans" where
  "file_message src dst content = FileTrans_zero\<lparr>SrcFilename := src, DstFilename := dst, FileContent := content\<rparr>"

lemma file_completes:
  fixes s :: "('e, 'x) system" and mc :: machine
  assumes inv: "sys_inv s" and idle: "idle_link cf now s r n c k" and ks: "visits ks (srv (sys_server s))"
    and source: "files src = Inr fp" "file_Size fp = Inr (length content)" "file_Read fp (length content) = Inr content"
    and utf8: "utf8_ValidString src" "utf8_ValidString dst"
    and size: "length (fst (Marshal FileTrans_info (file_message src dst content))) + 264 \<le> 2 ^ 32"
    and target: "m_Create mc dst = None" "m_Write mc dst content = content"
  shows "\<exists>s1 S s2 n2 c2 k2. RemoteFileSend files cf t ks src dst [ClientID c] (srv (sys_server s)) =
      (Inr ''Send File Success'', S) \<and>
    sys_server s1 = (sys_server s)\<lparr>srv := S\<rparr> \<and> sys_step api ix cf s s1 \<and> (sys_step api ix cf)\<^sup>*\<^sup>* s1 s2 \<and>
    idle_link cf now s2 r n2 c2 k2 \<and> s_files (n_around n2) = (s_files (n_around n))(dst \<mapsto> content)"
proof -
  let ?m = "\<lparr>MsgType = FileTrans_Msg, MsgData = [], MsgProto = Some (PB_FileTrans (file_message src dst content))\<rparr>"
  let ?p = "fst (Marshal FileTrans_info (file_message src dst content))"
  let ?S = "Multicast cf t ks [ClientID c] ?m (srv (sys_server s))"
  have pk: "msg_packet ?m = packet FileTrans_Msg ?p" by (simp add: msg_packet_eq msg_bytes_def)
  have run: "RemoteFileSend files cf t ks src dst [ClientID c] (srv (sys_server s)) = (Inr ''Send File Success'', ?S)"
    using source by (simp add: RemoteFileSend_def file_message_def)
  have up: "\<not> down (sys_server s)" using inv by (simp add: sys_inv_def)
  have len: "length (msg_packet ?m) + 256 \<le> 2 ^ 32" using size by (simp add: pk)
  have "srv_step api cf (sys_server s) ((sys_server s)\<lparr>srv := ?S, etcd := etcd (sys_server s)\<rparr>)"
    using file_send [OF up ks run] by simp
  from message_sent [OF inv idle [unfolded idle_link_def] ks len refl this, of ix] obtain s1 c1 where
    s1: "sys_step api ix cf s s1" "sys_server s1 = (sys_server s)\<lparr>srv := ?S\<rparr>"
      "link_state cf now s1 r n c1 k (packet FileTrans_Msg ?p) []" by (auto simp: pk)
  have "handled_as api mc FileTrans_Msg ?p [] (s_files (n_around n)) ((s_files (n_around n))(dst \<mapsto> content))"
    by (rule file_handled [OF file_message_def utf8 size target])
  from agent_answers [OF sys_step_inv [OF s1(1) inv] s1(3) size this, of ix] obtain s2 n2 k2 where
    "(sys_step api ix cf)\<^sup>*\<^sup>* s1 s2" "idle_link cf now s2 r n2 c1 k2"
    "s_files (n_around n2) = (s_files (n_around n))(dst \<mapsto> content)" by (auto simp: idle_link_def)
  with run s1(1,2) show ?thesis by blast
qed

text \<open>
  C9. A file from the HTTP request to the disk of the agent.  In every reachable state of the system
  with an agent whose connection is idle, a request whose body names a file the server can read, a
  target the agent can write and that agent is answered with success, serving it is a step of
  the system, and from there the system can run on to a state in which the files of the agent are
  those of before and the target with exactly the content of the source, and the connection is idle
  again.
\<close>

theorem file_request_completes:
  fixes s :: "('e, 'x) system" and mc :: machine and inp :: http_input
  assumes router: "InitRouter openFile cf = Some (Returns router)"
    and reach: "sys_reachable api ix cf e x s" and idle: "idle_link cf now s r n c k"
    and address: "ClientID c \<noteq> []" "CHR '','' \<notin> set (ClientID c)"
    and post: "req_Method req = ''POST''" "clean_elements (url_Path req) = ''/api/v1/agent/fileTrans''"
      "inp_body inp = file_body src dst (ClientID c) @ rest" "visits (inp_order inp) (srv (sys_server s))"
    and source: "src \<noteq> []" "inp_files inp src = Inr fp" "file_Size fp = Inr (length content)"
      "file_Read fp (length content) = Inr content"
    and target: "dst \<noteq> []" "m_Create mc dst = None" "m_Write mc dst content = content"
    and utf8: "utf8_ValidString src" "utf8_ValidString dst" "utf8_ValidString (ClientID c)"
    and size: "length (fst (Marshal FileTrans_info (file_message src dst content))) + 264 \<le> 2 ^ 32"
  shows "\<exists>c1 s1 s2 n2 c2 k2.
    http_serve api cf inp ci cap router req (fresh_writer []) lg
      \<lparr>hw_server = srv (sys_server s), hw_etcd = etcd (sys_server s)\<rparr> = Returns (Some (Done c1)) \<and>
    out_status (rw_out (ctx_writer c1)) = Some 200 \<and>
    json_first (out_body (rw_out (ctx_writer c1))) =
      Some (JObj [(''Msg'', JText ''Send File Success''), (''Status'', JText ''Success'')]) \<and>
    sys_server s1 = (sys_server s)\<lparr>srv := hw_server (ctx_world c1)\<rparr> \<and>
    sys_step api ix cf s s1 \<and> (sys_step api ix cf)\<^sup>*\<^sup>* s1 s2 \<and>
    idle_link cf now s2 r n2 c2 k2 \<and> s_files (n_around n2) = (s_files (n_around n))(dst \<mapsto> content)"
proof -
  let ?w = "\<lparr>hw_server = srv (sys_server s), hw_etcd = etcd (sys_server s)\<rparr>"
  let ?a = "success (JString ''Send File Success'')"
  from file_completes [where files = "inp_files inp", OF sys_reachable_inv [OF reach] idle post(4) source(2-4)
      utf8(1,2) size target(2,3), of "inp_now inp" api ix]
  obtain s1 S s2 n2 c2 k2 where run: "RemoteFileSend (inp_files inp) cf (inp_now inp) (inp_order inp) src dst [ClientID c]
      (srv (sys_server s)) = (Inr ''Send File Success'', S)"
    "sys_server s1 = (sys_server s)\<lparr>srv := S\<rparr>" "sys_step api ix cf s s1" "(sys_step api ix cf)\<^sup>*\<^sup>* s1 s2"
    "idle_link cf now s2 r n2 c2 k2" "s_files (n_around n2) = (s_files (n_around n))(dst \<mapsto> content)" by blast
  have h: "handler_answer api cf inp H_FileTrans ?w = Some (?a, ?w\<lparr>hw_server := S\<rparr>)"
    using run(1) by (simp add: http_FileTrans_def post(3) bind_file_body [OF utf8 source(1) target(1) address(1)]
        single_address [OF address(2)])
  have p: "plain (response_value ?a)" using ascii_names by (simp add: success_value)
  from route_answered [OF router, of req _ api inp ?w _ _ ci cap "[]" lg] post(1,2) h obtain c1 where
    c1: "http_serve api cf inp ci cap router req (fresh_writer []) lg ?w = Returns (Some (Done c1))"
    "ctx_world c1 = ?w\<lparr>hw_server := S\<rparr>" "answer_sent [] ?a (rw_out (ctx_writer c1))"
    by (fastforce simp: routes_def)
  from answer_decodes [OF c1(3) p] c1(1,2) run(2-6) show ?thesis
    by (intro exI [of _ c1] exI [of _ s1] exI [of _ s2] exI [of _ n2] exI [of _ c2] exI [of _ k2]) (simp add: success_value)
qed

definition demo_file_post :: Request where
  "demo_file_post = demo_post\<lparr>url_Path := ''/api/v1/agent/fileTrans''\<rparr>"

definition demo_file :: http_input where
  "demo_file = demo_input\<lparr>inp_order := [''10.0.0.1''], inp_body := file_body ''a'' ''b'' ''10.0.0.1'',
     inp_files := (\<lambda>_. Inr \<lparr>file_Size = Inr 3, file_Read = (\<lambda>_. Inr [1, 2, 3])\<rparr>)\<rparr>"

theorem file_request_completes_witness:
  "\<exists>router c1 (s2 :: demo_system) n2.
     http_serve mem_api sample_conf demo_file (\<lambda>_ _ _. None) 0 router demo_file_post (fresh_writer []) []
       \<lparr>hw_server = srv (sys_server (demo_connected [])), hw_etcd = []\<rparr> = Returns (Some (Done c1)) \<and>
     (sys_step mem_api mem_influx sample_conf)\<^sup>*\<^sup>* (demo_connected []) s2 \<and>
     sys_nodes s2 0 = Some n2 \<and> s_files (n_around n2) ''b'' = Some [1, 2, 3]"
proof -
  obtain router where i: "InitRouter (\<lambda>_. None) sample_conf = Some (Returns router)"
    using InitRouter_serves [of "\<lambda>_. None" sample_conf] by auto
  let ?s = "demo_connected []" and ?c = "NewClient (fresh_conn []) ''10.0.0.1''"
  have c: "ClientID ?c = ''10.0.0.1''" by simp
  have u: "utf8_ValidString ''a''" "utf8_ValidString ''b''" "utf8_ValidString (ClientID ?c)"
    and l: "length (fst (Marshal FileTrans_info (file_message ''a'' ''b'' [1, 2, 3]))) = 11" unfolding c by code_simp+
  have p: "req_Method demo_file_post = ''POST''" "clean_elements (url_Path demo_file_post) = ''/api/v1/agent/fileTrans''"
    by (simp_all add: demo_file_post_def demo_post_def clean_elements_def rooted_def)
  have v: "visits (inp_order demo_file) (srv (sys_server ?s))"
    by (simp add: visits_def demo_file_def demo_connected_def set_node_def one_client_def)
  have d: "inp_body demo_file = file_body ''a'' ''b'' (ClientID ?c) @ []"
    "inp_files demo_file ''a'' = Inr \<lparr>file_Size = Inr 3, file_Read = (\<lambda>_. Inr [1, 2, 3])\<rparr>"
    by (simp_all add: demo_file_def demo_input_def)
  have m: "m_Create (demo_machine []) ''b'' = None" "m_Write (demo_machine []) ''b'' [1, 2, 3] = [1, 2, 3]"
    by (simp_all add: demo_machine_def)
  have e: "etcd (sys_server ?s) = []" by (simp add: demo_connected_def set_node_def one_client_def boot_def)
  have len: "file_Size \<lparr>file_Size = Inr 3, file_Read = (\<lambda>_. Inr [1, 2, 3])\<rparr> = Inr (length ([1, 2, 3] :: byte list))" by simp
  from file_request_completes [OF i demo_connected_reachable demo_idle _ _ p d(1) v _ d(2) len _ _ m u,
      of "\<lambda>_ _ _. None" 0 "[]", unfolded e l]
  obtain c1 s1 s2 n2 c2 k2 where
    run: "http_serve mem_api sample_conf demo_file (\<lambda>_ _ _. None) 0 router demo_file_post (fresh_writer []) []
       \<lparr>hw_server = srv (sys_server ?s), hw_etcd = []\<rparr> = Returns (Some (Done c1))"
    "sys_step mem_api mem_influx sample_conf ?s s1" "(sys_step mem_api mem_influx sample_conf)\<^sup>*\<^sup>* s1 s2"
    "idle_link sample_conf 0 s2 0 n2 c2 k2" "s_files (n_around n2) ''b'' = Some [1, 2, 3]" by fastforce
  from run(2,3) have "(sys_step mem_api mem_influx sample_conf)\<^sup>*\<^sup>* ?s s2" by (rule converse_rtranclp_into_rtranclp)
  with run show ?thesis by (auto simp: idle_link_def link_state_def)
qed

section \<open>Heartbeats\<close>

text \<open>A turn of the heartbeat loop puts one packet on the wire.\<close>

lemma heartbeat_sent:
  fixes s :: "('e, 'x) system"
  assumes l: "link_state cf now s r n c k d u" and "LHeartbeat \<in> n_running n"
    and "p = fst (Marshal Heartbeat_info (heartbeat t))" and "length p + 264 \<le> 2 ^ 32"
  shows "\<exists>s' n' k'. sys_step api ix cf s s' \<and> sys_server s' = sys_server s \<and>
    link_state cf now s' r n' c k' d (u @ packet HeartBeat_Msg p) \<and>
    n_running n' = n_running n \<and> s_files (n_around n') = s_files (n_around n)"
proof -
  define inp :: "'e turn_in" where "inp = undefined\<lparr>in_localtime := t\<rparr>"
  have i: "sys_nodes s r = Some n" "a_Valid (n_agent n)" "a_Conn (n_agent n) = Some k" "writable k"
    using l by (simp_all add: link_state_def agent_idle_def)
  obtain k' where k': "Heartbeat_turn api (etcd (sys_server s), in_now inp) t (n_agent n) =
      Returns (True, (n_agent n)\<lparr>a_Conn := Some k'\<rparr>)"
    "outbound k' = outbound k @ packet HeartBeat_Msg p" "inbound k' = inbound k" "writable k'"
    using Heartbeat_turn_writes [OF i(2-4)] assms(3) by metis
  let ?a = "(n_agent n)\<lparr>a_Conn := Some k'\<rparr>"
  have "loop_turn api ix LHeartbeat inp (n_agent n, view s n) = Some (Returns (True, ?a, view s n))"
    using k'(1) by (simp add: view_def inp_def)
  moreover have "modest (agent_conn (n_agent n)) (agent_conn ?a)"
    using i(3) k'(2) assms(4) by (simp add: modest_def agent_conn_def)
  ultimately have st: "sys_step api ix cf s
      (set_node r (n\<lparr>n_agent := ?a, n_around := view s n, n_running := (if True then n_running n else n_running n - {LHeartbeat}),
                     n_got := n_got n @ read_by_agent api LHeartbeat inp (etcd (sys_server s)) (n_agent n)\<rparr>)
        (s\<lparr>sys_server := (sys_server s)\<lparr>etcd := s_etcd (view s n)\<rparr>, sys_influx := s_influx (view s n)\<rparr>))"
    (is "sys_step _ _ _ _ (set_node r ?n' ?s')")
    by (rule agent_moves [OF i(1) assms(2)])
  have "sys_server (set_node r ?n' ?s') = sys_server s" by (simp add: set_node_def view_def)
  moreover have "link_state cf now (set_node r ?n' ?s') r ?n' c k' d (u @ packet HeartBeat_Msg p)"
    using l k' by (simp add: link_state_def agent_idle_def set_node_def client_at_def view_def no_error_def pending_def)
  ultimately show ?thesis using st
    by (intro exI [of _ "set_node r ?n' ?s'"] exI [of _ ?n'] exI [of _ k']) (simp add: view_def)
qed

text \<open>
  A heartbeat with the time text \<open>t\<close> counts at the server's time \<open>later\<close>: the text can be sent and parsed,
  and at most the timeout has passed since the time it names.
\<close>

definition timely :: "Conf \<Rightarrow> string \<Rightarrow> int \<Rightarrow> bool" where
  "timely cf t later \<longleftrightarrow>
     utf8_ValidString t \<and> length (fst (Marshal Heartbeat_info (heartbeat t))) + 264 \<le> 2 ^ 32 \<and>
     0 \<le> later \<and> later < 2 ^ 62 \<and>
     (case time_Parse t of
        None \<Rightarrow> False
      | Some (sec, nsec) \<Rightarrow>
          \<bar>sec * second + nsec\<bar> < 2 ^ 62 \<and>
          later \<le> sec * second + nsec + GetInt cf ''tcp'' ''heartbeattimeout'' * second)"

definition timeout_ok :: "Conf \<Rightarrow> bool" where
  "timeout_ok cf \<longleftrightarrow> 0 \<le> GetInt cf ''tcp'' ''heartbeattimeout'' \<and> GetInt cf ''tcp'' ''heartbeattimeout'' * second < 2 ^ 62"

lemma timely_valid:
  assumes "timeout_ok cf" and "timely cf (LastHeartbeatSyncTime c) later" and "Valid c"
  shows "JudgeValid cf later c"
proof (cases "LastHeartbeatSyncTime c = no_heartbeat")
  case False
  from assms(2) obtain sec nsec where "time_Parse (LastHeartbeatSyncTime c) = Some (sec, nsec)"
    "\<bar>sec * second + nsec\<bar> < 2 ^ 62" "0 \<le> later" "later < 2 ^ 62"
    "later \<le> sec * second + nsec + GetInt cf ''tcp'' ''heartbeattimeout'' * second"
    by (auto simp: timely_def split: option.splits)
  with assms(1,3) False JudgeValid_until show ?thesis by (simp add: timeout_ok_def)
qed (simp add: JudgeValid_def assms(3))

text \<open>The server takes the time of a heartbeat over and answers it.\<close>

lemma heartbeat_served:
  assumes "timeout_ok cf" and "timely cf t later" and p: "p = fst (Marshal Heartbeat_info (heartbeat t))"
  shows "served_as api cf now later ident HeartBeat_Msg p (packet HeartBeat_Rsp []) e e
    (\<lambda>c. LastHeartbeatSyncTime c = t)"
  unfolding served_as_def
proof (intro allI impI, elim conjE)
  fix c assume c: "ClientID c = ident" "client_idle cf now c"
  let ?m = "\<lparr>MsgType = HeartBeat_Rsp, MsgData = [], MsgProto = None\<rparr> :: Msg"
  let ?c = "SetLastHeartBeatSyncTime t c"
  have t: "utf8_ValidString t" "length p < 2 ^ 63" using assms(2) p by (simp_all add: timely_def)
  have v: "Valid c" "writable (Conn ?c)" using c(2)
    by (auto simp: client_idle_def JudgeValid_def SetLastHeartBeatSyncTime_def split: if_splits)
  have "Unmarshal Heartbeat_info Heartbeat_zero p = (heartbeat t, None)"
    using t p heartbeat_decoded by simp
  then have h: "HandleMsg api cf now (mk_msg HeartBeat_Msg p) c e = (None, SendMsg cf now ?m ?c, e)"
    by (simp add: HandleMsg_def mk_msg_def HandleHeartBeatMsg_def heartbeat_def)
  obtain kc where kc: "SendMsg cf now ?m ?c = ?c\<lparr>Conn := kc\<rparr>" "outbound kc = outbound (Conn ?c) @ msg_packet ?m"
    "inbound kc = inbound (Conn ?c)" "writable kc" by (rule SendMsg_ok [OF v(2)])
  have "JudgeValid cf later ?c"
    using assms(1,2) v(1) by (intro timely_valid) (simp_all add: SetLastHeartBeatSyncTime_def)
  with c kc h show "\<exists>err c'. HandleMsg api cf now (mk_msg HeartBeat_Msg p) c e = (err, c', e) \<and> ClientID c' = ident \<and>
      client_idle cf later c' \<and> outbound (Conn c') = outbound (Conn c) @ packet HeartBeat_Rsp [] \<and>
      LastHeartbeatSyncTime c' = t"
    by (simp add: SetLastHeartBeatSyncTime_def client_idle_def no_error_def pending_def msg_packet_eq msg_bytes_def)
qed

lemma heartbeat_round:
  fixes s :: "('e, 'x) system"
  assumes "sys_inv s" and "idle_link cf now s r n c k" and "LHeartbeat \<in> n_running n"
    and "timeout_ok cf" and "timely cf t later"
  shows "\<exists>s' n' c' k'. (sys_step api ix cf)\<^sup>*\<^sup>* s s' \<and> idle_link cf later s' r n' c' k' \<and>
    n_running n' = n_running n \<and> s_files (n_around n') = s_files (n_around n) \<and> ClientID c' = ClientID c \<and>
    LastHeartbeatSyncTime c' = t \<and> etcd (sys_server s') = etcd (sys_server s)"
proof -
  let ?p = "fst (Marshal Heartbeat_info (heartbeat t))"
  have len: "length ?p + 264 \<le> 2 ^ 32" using assms(5) by (simp add: timely_def)
  from heartbeat_sent [OF assms(2) [unfolded idle_link_def] assms(3) refl len, of api ix] obtain s1 n1 k1 where
    s1: "sys_step api ix cf s s1" "sys_server s1 = sys_server s" "link_state cf now s1 r n1 c k1 [] (packet HeartBeat_Msg ?p)"
      "n_running n1 = n_running n" "s_files (n_around n1) = s_files (n_around n)" by auto
  have inv1: "sys_inv s1" by (rule sys_step_inv [OF s1(1) assms(1)])
  from server_answers [OF inv1 s1(3) len _ heartbeat_served [OF assms(4,5) refl], where api = api and ix = ix] obtain s2 n2 c2 where
    s2: "(sys_step api ix cf)\<^sup>*\<^sup>* s1 s2" "link_state cf later s2 r n2 c2 k1 (packet HeartBeat_Rsp []) []"
      "ClientID c2 = ClientID c" "LastHeartbeatSyncTime c2 = t" "etcd (sys_server s2) = etcd (sys_server s)"
      "n_running n2 = n_running n" "n_around n2 = n_around n1" using s1(2,4) by auto
  from agent_answers [OF sys_steps_inv [OF s2(1) inv1] s2(2) _ heartbeat_answer_handled, where api = api and ix = ix] obtain s3 n3 k3 where
    s3: "(sys_step api ix cf)\<^sup>*\<^sup>* s2 s3" "sys_server s3 = sys_server s2" "idle_link cf later s3 r n3 c2 k3"
      "n_running n3 = n_running n2" "s_files (n_around n3) = s_files (n_around n2)" by (auto simp: idle_link_def)
  have "(sys_step api ix cf)\<^sup>*\<^sup>* s s3"
    by (rule converse_rtranclp_into_rtranclp [OF s1(1) rtranclp_trans [OF s2(1) s3(1)]])
  with s1(5) s2(3-7) s3(2-5) show ?thesis
    by (intro exI [of _ s3] exI [of _ n3] exI [of _ c2] exI [of _ k3]) simp
qed

text \<open>A client that is read is listed under its address.\<close>

lemma link_listed:
  assumes "sys_inv s" and "link_state cf now s r n c k d u"
  shows "Clients (srv (sys_server s)) (ClientID c) = Some r"
proof -
  from assms obtain key where "Clients (srv (sys_server s)) key = Some r"
    by (auto simp: sys_inv_def world_inv_def link_state_def ran_def)
  moreover have "heap (srv (sys_server s)) r = Some c" "table_ok (srv (sys_server s))"
    using assms by (simp_all add: link_state_def client_at_def sys_inv_def world_inv_def)
  ultimately show ?thesis unfolding table_ok_def by fastforce
qed

text \<open>
  C7. Heartbeats keep an agent connected.  Take a reachable state of the system with an agent
  whose connection is idle, and any number of rounds, each with the time text the agent writes and the server's
  time at the next round: when no more than the timeout lies between the two, the system can run on through all
  of them (the agent writes the heartbeat, the server reads it, takes its time over and answers, the agent
  reads the answer) to a state in which the connection is idle again, the client is valid and listed under its
  address, its last heartbeat is the last one sent, and etcd and the files of the agent are as they were.
\<close>

theorem heartbeats_keep_connected:
  fixes s :: "('e, 'x) system"
  assumes "sys_reachable api ix cf e x s" and "idle_link cf now s r n c k" and "LHeartbeat \<in> n_running n"
    and "timeout_ok cf" and "\<forall>(t, later) \<in> set rounds. timely cf t later"
  shows "\<exists>s' n' c' k'. (sys_step api ix cf)\<^sup>*\<^sup>* s s' \<and> idle_link cf (last (now # map snd rounds)) s' r n' c' k' \<and>
    Clients (srv (sys_server s')) (ClientID c) = Some r \<and>
    LastHeartbeatSyncTime c' = last (LastHeartbeatSyncTime c # map fst rounds) \<and>
    n_running n' = n_running n \<and> s_files (n_around n') = s_files (n_around n) \<and>
    etcd (sys_server s') = etcd (sys_server s)"
  using assms(2,3,5) sys_reachable_inv [OF assms(1)]
proof (induction rounds arbitrary: s now n c k)
  case Nil
  then have "Clients (srv (sys_server s)) (ClientID c) = Some r" by (auto simp: idle_link_def intro: link_listed)
  with Nil show ?case by (intro exI [of _ s] exI [of _ n] exI [of _ c] exI [of _ k]) simp
next
  case (Cons round rounds)
  obtain t later where round: "round = (t, later)" by force
  with Cons.prems(3) have tl: "timely cf t later" "\<forall>(t, later) \<in> set rounds. timely cf t later" by auto
  from heartbeat_round [OF Cons.prems(4,1,2) assms(4) tl(1), of api ix] obtain s1 n1 c1 k1 where
    s1: "(sys_step api ix cf)\<^sup>*\<^sup>* s s1" "idle_link cf later s1 r n1 c1 k1" "n_running n1 = n_running n"
      "s_files (n_around n1) = s_files (n_around n)" "ClientID c1 = ClientID c" "LastHeartbeatSyncTime c1 = t"
      "etcd (sys_server s1) = etcd (sys_server s)" by blast
  from Cons.IH [OF s1(2) _ tl(2) sys_steps_inv [OF s1(1) Cons.prems(4)]] Cons.prems(2) s1(3) obtain s2 n2 c2 k2 where
    s2: "(sys_step api ix cf)\<^sup>*\<^sup>* s1 s2" "idle_link cf (last (later # map snd rounds)) s2 r n2 c2 k2"
      "Clients (srv (sys_server s2)) (ClientID c1) = Some r"
      "LastHeartbeatSyncTime c2 = last (LastHeartbeatSyncTime c1 # map fst rounds)"
      "n_running n2 = n_running n1" "s_files (n_around n2) = s_files (n_around n1)"
      "etcd (sys_server s2) = etcd (sys_server s1)" by auto
  have "(sys_step api ix cf)\<^sup>*\<^sup>* s s2" using s1(1) s2(1) by (rule rtranclp_trans)
  with s1(3-7) s2(2-7) show ?case
    by (intro exI [of _ s2] exI [of _ n2] exI [of _ c2] exI [of _ k2]) (simp add: round)
qed

theorem heartbeats_keep_connected_witness:
  "\<exists>(s' :: demo_system) n' c' k'. (sys_step mem_api mem_influx sample_conf)\<^sup>*\<^sup>* (demo_connected []) s' \<and>
     idle_link sample_conf (946684890 * second) s' 0 n' c' k' \<and> LastHeartbeatSyncTime c' = ''2000-01-01 00:00:30''"
proof -
  let ?r = "[(''2000-01-01 00:00:00'', 946684830 * second), (''2000-01-01 00:00:30'', 946684890 * second)]"
  have t: "time_Parse ''2000-01-01 00:00:00'' = Some (946684800, 0)" "time_Parse ''2000-01-01 00:00:30'' = Some (946684830, 0)"
    and u: "utf8_ValidString ''2000-01-01 00:00:00''" "utf8_ValidString ''2000-01-01 00:00:30''"
    and l: "length (fst (Marshal Heartbeat_info (heartbeat ''2000-01-01 00:00:00''))) = 27"
      "length (fst (Marshal Heartbeat_info (heartbeat ''2000-01-01 00:00:30''))) = 27"
    by code_simp+
  have "timeout_ok sample_conf" by (simp add: timeout_ok_def sample_heartbeattimeout second_def)
  moreover have "\<forall>(t, later) \<in> set ?r. timely sample_conf t later"
    by (simp add: timely_def t u l sample_heartbeattimeout second_def)
  moreover have "LHeartbeat \<in> n_running (dialed demo_agent demo_around)" by (simp add: dialed_def)
  ultimately show ?thesis
    using heartbeats_keep_connected [OF demo_connected_reachable demo_idle, of ?r] by auto
qed

end
